(* ===== verification/Mdns_Prelude.thy ===== *)
theory Mdns_Prelude
  imports Main "HOL-Library.Word" "HOL-Library.Monad_Syntax"
begin

unbundle bit_operations_syntax

text \<open>
  What every component of the development shares: the types of the machine integers and of byte
  buffers, the part of the C string library that \<^verbatim>\<open>src/src/mdns.c\<close> calls, bounds-checked
  loads and stores on buffers, and the lemmas about them.

  Conventions used throughout.
  \<^item> A C string is the list of its bytes before the terminating zero.
  \<^item> A function that can dereference a null or dangling pointer, access a buffer out of
    bounds or loop forever has a result of type \<open>'a option\<close>; \<open>None\<close> says that the C code has
    undefined behaviour or does not return. Hence ``the result is not \<open>None\<close>'' is a
    memory-safety and termination statement.
  \<^item> Sizes and offsets are natural numbers; where the code stores them in a narrower variable
    the truncation is written out (\<open>mod 256\<close>, \<open>mod 65536\<close>).
\<close>

named_theorems wire_simps "equations of the packet writer"
named_theorems frame_simps "fields that an operation leaves alone"
named_theorems eval_simps "equations that evaluate a concrete run, with the congruences \<open>eval_congs\<close>"

section \<open>Machine integers and buffers\<close>

type_synonym u8 = "8 word"
type_synonym u16 = "16 word"
type_synonym u32 = "32 word"
type_synonym cstring = "u8 list"

text \<open>A string literal of the source.\<close>

definition lit :: "string \<Rightarrow> cstring" where
  "lit s = map of_char s"

lemma length_lit [simp]: "length (lit s) = length s"
  by (simp add: lit_def)

text \<open>A load from and a store to a buffer; out of bounds is undefined behaviour.\<close>

definition load8 :: "u8 list \<Rightarrow> nat \<Rightarrow> u8 option" where
  "load8 p i = (if i < length p then Some (p ! i) else None)"

definition load_block :: "u8 list \<Rightarrow> nat \<Rightarrow> nat \<Rightarrow> u8 list option" where
  "load_block p i n = (if i + n \<le> length p then Some (take n (drop i p)) else None)"

definition store8 :: "u8 list \<Rightarrow> nat \<Rightarrow> u8 \<Rightarrow> u8 list option" where
  "store8 p i v = (if i < length p then Some (p[i := v]) else None)"

definition store_block :: "u8 list \<Rightarrow> nat \<Rightarrow> u8 list \<Rightarrow> u8 list option" where
  "store_block p i b =
     (if i + length b \<le> length p then Some (take i p @ b @ drop (i + length b) p) else None)"

lemma load8_Some_iff: "load8 p i = Some v \<longleftrightarrow> i < length p \<and> v = p ! i"
  by (auto simp: load8_def)

lemma load_block_Some_iff:
  "load_block p i n = Some b \<longleftrightarrow> i + n \<le> length p \<and> b = take n (drop i p)"
  by (auto simp: load_block_def)

lemma length_load_block: "load_block p i n = Some b \<Longrightarrow> length b = n"
  by (auto simp: load_block_def split: if_splits)

lemma store8_Some_iff: "store8 p i v = Some q \<longleftrightarrow> i < length p \<and> q = p[i := v]"
  by (auto simp: store8_def)

lemma store_block_Some_iff:
  "store_block p i b = Some q \<longleftrightarrow>
     i + length b \<le> length p \<and> q = take i p @ b @ drop (i + length b) p"
  by (auto simp: store_block_def)

lemma length_store_block: "store_block p i b = Some q \<Longrightarrow> length q = length p"
  by (auto simp: store_block_def split: if_splits)

text \<open>Splitting a word into bytes and joining them again.\<close>

lemma ucast_and_FF [simp]: "(ucast (x AND 0xFF) :: u8) = ucast (x :: 'a::len word)"
proof -
  have "x AND 0xFF = take_bit 8 x"
    by (simp add: take_bit_eq_mask mask_eq_exp_minus_1)
  then show ?thesis
    by (simp add: bit_word_eqI bit_simps)
qed

lemma u16_join [simp]:
  "push_bit 8 (ucast (ucast (drop_bit 8 (v :: u16)) :: u8)) OR ucast (ucast v :: u8) = v"
  by (rule bit_word_eqI) (auto simp: bit_simps)

lemma u32_join [simp]:
  "push_bit 24 (ucast (ucast (drop_bit 24 (v :: u32)) :: u8)) OR
   push_bit 16 (ucast (ucast (drop_bit 16 v) :: u8)) OR
   push_bit 8 (ucast (ucast (drop_bit 8 v) :: u8)) OR ucast (ucast v :: u8) = v" (is "?l = v")
proof (rule bit_word_eqI)
  fix n assume "n < LENGTH(32)"
  then consider "n < 8" | "8 \<le> n" "n < 16" | "16 \<le> n" "n < 24" | "24 \<le> n" "n < 32"
    by fastforce
  then show "bit ?l n \<longleftrightarrow> bit v n"
    by cases (auto simp: bit_simps)
qed

section \<open>The C string library\<close>

text \<open>The string held by a character buffer: the bytes before the first zero.\<close>

definition cstr_of :: "u8 list \<Rightarrow> cstring" where
  "cstr_of b = takeWhile (\<lambda>c. c \<noteq> 0) b"

definition cstr_ok :: "cstring \<Rightarrow> bool" where
  "cstr_ok s \<longleftrightarrow> 0 \<notin> set s"

definition tolower :: "u8 \<Rightarrow> u8" where
  "tolower b = (if 65 \<le> b \<and> b \<le> 90 then b + 32 else b)"

text \<open>\<open>strcasecmp (s, t) == 0\<close>.\<close>

definition strcaseeq :: "cstring \<Rightarrow> cstring \<Rightarrow> bool" where
  "strcaseeq s t \<longleftrightarrow> map tolower s = map tolower t"

definition strndup :: "cstring \<Rightarrow> nat \<Rightarrow> cstring" where
  "strndup s n = take n s"

text \<open>\<open>strlcat (dst, src, sz)\<close>: the contents of \<open>dst\<close> afterwards.\<close>

definition strlcat :: "cstring \<Rightarrow> cstring \<Rightarrow> nat \<Rightarrow> cstring" where
  "strlcat dst src sz = (if length dst < sz then take (sz - 1) (dst @ src) else dst)"

text \<open>\<open>memchr (p + from, c, to - from)\<close>: the offset of the byte found.\<close>

definition memchr :: "u8 list \<Rightarrow> u8 \<Rightarrow> nat \<Rightarrow> nat \<Rightarrow> nat option" where
  "memchr p c from to = find (\<lambda>k. p ! k = c) [from ..< to]"

text \<open>\<open>memcmp\<close> on two buffers of the same length: the sign of the first difference.\<close>

fun memcmp :: "u8 list \<Rightarrow> u8 list \<Rightarrow> int" where
  "memcmp (x # xs) (y # ys) = (if x < y then - 1 else if y < x then 1 else memcmp xs ys)"
| "memcmp xs ys = 0"

lemma cstr_of_ok [simp]: "cstr_ok (cstr_of b)"
  by (auto simp: cstr_ok_def cstr_of_def dest: set_takeWhileD)

lemma cstr_of_id: "cstr_ok s \<Longrightarrow> cstr_of s = s"
  by (auto simp: cstr_ok_def cstr_of_def takeWhile_eq_all_conv)

lemma length_cstr_of: "length (cstr_of b) \<le> length b"
  by (simp add: cstr_of_def length_takeWhile_le)

lemma strcaseeq_refl [simp]: "strcaseeq s s"
  by (simp add: strcaseeq_def)

lemma strcaseeq_sym: "strcaseeq s t \<Longrightarrow> strcaseeq t s"
  by (simp add: strcaseeq_def)

lemma strcaseeq_trans [trans]: "strcaseeq s t \<Longrightarrow> strcaseeq t u \<Longrightarrow> strcaseeq s u"
  by (simp add: strcaseeq_def)

lemma strcaseeq_length: "strcaseeq s t \<Longrightarrow> length s = length t"
  unfolding strcaseeq_def by (metis length_map)

lemma length_strlcat: "length dst < sz \<Longrightarrow> length (strlcat dst src sz) < sz"
  by (auto simp: strlcat_def)

lemma strlcat_ok: "cstr_ok dst \<Longrightarrow> cstr_ok src \<Longrightarrow> cstr_ok (strlcat dst src sz)"
  by (auto simp: strlcat_def cstr_ok_def dest: in_set_takeD)

lemma memchr_Some:
  assumes "memchr p c from to = Some k"
  shows "from \<le> k" "k < to" "p ! k = c"
  using assms by (auto simp: memchr_def find_Some_iff)

lemma memchr_progress: "memchr p c from to = Some k \<Longrightarrow> to - Suc k < to - from"
  using memchr_Some by fastforce

lemma memcmp_antisym: "memcmp ys xs = - memcmp xs ys"
  by (induction xs ys rule: memcmp.induct) auto

lemma memcmp_range: "memcmp xs ys \<in> {- 1, 0, 1}"
  by (induction xs ys rule: memcmp.induct) auto

lemma memcmp_eq_0_iff: "length xs = length ys \<Longrightarrow> memcmp xs ys = 0 \<longleftrightarrow> xs = ys"
  by (induction xs ys rule: memcmp.induct) auto

section \<open>Decimal numbers\<close>

text \<open>The decimal digits of a number, as \<open>sprintf ("%d")\<close> prints a number that is not
  negative.\<close>

fun dec :: "nat \<Rightarrow> cstring" where
  "dec n = (if n < 10 then [of_nat (48 + n)] else dec (n div 10) @ [of_nat (48 + n mod 10)])"

declare dec.simps [simp del]

definition is_space :: "u8 \<Rightarrow> bool" where
  "is_space c \<longleftrightarrow> c = 32 \<or> (9 \<le> c \<and> c \<le> 13)"

definition is_digit :: "u8 \<Rightarrow> bool" where
  "is_digit c \<longleftrightarrow> 48 \<le> c \<and> c \<le> 57"

definition digits_value :: "cstring \<Rightarrow> nat" where
  "digits_value ds = foldl (\<lambda>v d. 10 * v + (unat d - 48)) 0 ds"

text \<open>\<open>strtol (s, &endp, 10)\<close> on a string without a minus sign, as the part behind the last
  dash is: the value, which saturates at \<open>LONG_MAX\<close>, and the string at \<open>endp\<close>.\<close>

definition strtol :: "cstring \<Rightarrow> nat \<times> cstring" where
  "strtol s =
     (let s1 = dropWhile is_space s;
          s2 = (if s1 \<noteq> [] \<and> hd s1 = 0x2B then tl s1 else s1);
          ds = takeWhile is_digit s2
      in if ds = [] then (0, s) else (min (digits_value ds) 2147483647, dropWhile is_digit s2))"

lemma unat_digit: "m < 10 \<Longrightarrow> unat (of_nat (48 + m) :: u8) = 48 + m"
  by (simp only: unat_of_nat) simp

lemma dec_digits: "list_all is_digit (dec n)"
proof (induction n rule: dec.induct)
  case (1 n)
  have d: "is_digit (of_nat (48 + m))" if "m < 10" for m
    using unat_digit [OF that] that unfolding is_digit_def word_le_nat_alt by simp
  show ?case
    using 1 d [of n] d [of "n mod 10"] by (subst dec.simps) auto
qed

lemma digits_value_append: "digits_value (ds @ [d]) = 10 * digits_value ds + (unat d - 48)"
  by (simp add: digits_value_def)

lemma digits_value_dec: "digits_value (dec n) = n"
proof (induction n rule: dec.induct)
  case (1 n)
  note d = unat_digit
  show ?case
  proof (cases "n < 10")
    case True
    then show ?thesis using d [OF True] by (subst dec.simps) (simp add: digits_value_def)
  next
    case False
    then show ?thesis
      using 1 d [of "n mod 10"] by (subst dec.simps) (simp add: digits_value_append)
  qed
qed

lemma dec_not_Nil [simp]: "dec n \<noteq> []"
  by (subst dec.simps) simp

lemma length_dec: "n < 10 ^ k \<Longrightarrow> length (dec n) \<le> max 1 k"
proof (induction n arbitrary: k rule: dec.induct)
  case (1 n)
  show ?case
  proof (cases "n < 10")
    case True
    then show ?thesis by (subst dec.simps) simp
  next
    case False
    with 1(2) obtain j where k: "k = Suc j" by (cases k) auto
    have "n div 10 < 10 ^ j" using 1(2) by (simp add: k less_mult_imp_div_less mult.commute)
    then have "length (dec (n div 10)) \<le> max 1 j" by (rule 1(1) [OF False])
    moreover have "0 < j" using False 1(2) by (cases j) (auto simp: k)
    ultimately show ?thesis using False by (subst dec.simps) (simp add: k)
  qed
qed

lemma strtol_dec: "strtol (dec n) = (min n 2147483647, [])"
proof -
  have all: "\<forall>d\<in>set (dec n). is_digit d" using dec_digits [of n] by (simp add: list_all_iff)
  obtain d ds where d: "dec n = d # ds" by (cases "dec n") auto
  then have "is_digit d" using all by simp
  then have sp: "\<not> is_space d" "d \<noteq> 0x2B"
    by (auto simp: is_digit_def is_space_def word_le_nat_alt)
  have "takeWhile is_digit (dec n) = dec n" "dropWhile is_digit (dec n) = []"
    using all by (simp_all add: takeWhile_eq_all_conv dropWhile_eq_Nil_conv)
  moreover have "dropWhile is_space (dec n) = dec n" using sp d by simp
  ultimately show ?thesis
    using sp d by (simp add: strtol_def digits_value_dec [of n, unfolded d] d)
qed

section \<open>Lists\<close>

text \<open>Removing the first element that satisfies a predicate: the shape of the unlink loops.\<close>

fun remove_first :: "('a \<Rightarrow> bool) \<Rightarrow> 'a list \<Rightarrow> 'a list" where
  "remove_first P [] = []"
| "remove_first P (x # xs) = (if P x then xs else x # remove_first P xs)"

lemma set_remove_first: "set (remove_first P xs) \<subseteq> set xs"
  by (induction xs) auto

lemma remove_first_id: "\<forall>x\<in>set xs. \<not> P x \<Longrightarrow> remove_first P xs = xs"
  by (induction xs) auto

lemma filter_remove_first: "filter (\<lambda>x. \<not> P x) (remove_first P xs) = filter (\<lambda>x. \<not> P x) xs"
  by (induction xs) auto

lemma distinct_remove_first: "distinct (map f xs) \<Longrightarrow> distinct (map f (remove_first P xs))"
  by (induction xs) (use set_remove_first in fastforce)+

lemma length_remove_first:
  "length (remove_first P xs) = (if \<exists>x\<in>set xs. P x then length xs - 1 else length xs)"
  by (induction xs) (auto dest: length_pos_if_in_set)

text \<open>A sorted list is cut by a bound into the elements up to it and those above it.\<close>

lemma filter_above:
  fixes f :: "'a \<Rightarrow> 'b::linorder"
  assumes "sorted (map f (a # xs))" "\<not> f a \<le> c"
  shows "filter (\<lambda>x. f x \<le> c) xs = []" "filter (\<lambda>x. c < f x) xs = xs"
  using assms by (fastforce simp: filter_empty_conv filter_id_conv)+

lemma sorted_cut:
  fixes f :: "'a \<Rightarrow> 'b::linorder"
  assumes "sorted (map f xs)"
  shows "takeWhile (\<lambda>x. f x \<le> c) xs = filter (\<lambda>x. f x \<le> c) xs \<and>
    dropWhile (\<lambda>x. f x \<le> c) xs = filter (\<lambda>x. c < f x) xs"
  using assms
proof (induction xs)
  case (Cons a xs)
  then show ?case
    using filter_above [OF Cons.prems, of c] by (cases "f a \<le> c") auto
qed simp

lemma sorted_cut_append:
  fixes f :: "'a \<Rightarrow> 'b::linorder"
  assumes "sorted (map f xs)"
  shows "filter (\<lambda>x. f x \<le> c) xs @ filter (\<lambda>x. c < f x) xs = xs"
  using takeWhile_dropWhile_id [of "\<lambda>x. f x \<le> c" xs] by (simp add: sorted_cut [OF assms])

lemma find_filter: "(\<And>x. x \<in> set xs \<Longrightarrow> P x \<Longrightarrow> Q x) \<Longrightarrow> find P (filter Q xs) = find P xs"
  by (induction xs) auto

section \<open>Runs of the option monad\<close>

text \<open>A run that returns is taken apart step by step; a concrete run is evaluated from the left,
  without looking into continuations that have not been reached.\<close>

lemma bind_SomeE: "m \<bind> k = Some y \<Longrightarrow> (\<And>x. m = Some x \<Longrightarrow> k x = Some y \<Longrightarrow> thesis) \<Longrightarrow> thesis"
  by (cases m) auto

lemma prod_SomeE:
  "(case x of (a, b) \<Rightarrow> f a b) = Some y \<Longrightarrow> (\<And>a b. x = (a, b) \<Longrightarrow> f a b = Some y \<Longrightarrow> thesis) \<Longrightarrow> thesis"
  by (cases x) auto

lemma bind_weak_cong: "m = m' \<Longrightarrow> m \<bind> k = m' \<bind> (k :: 'a \<Rightarrow> 'b option)"
  by simp

lemmas eval_congs = bind_weak_cong let_weak_cong

lemma memchr_rec:
  "memchr p c from to = (if from < to then if p ! from = c then Some from
     else memchr p c (from + 1) to else None)"
  by (simp add: memchr_def upt_rec [of "from" to])

lemmas [eval_simps] = memchr_rec nth_append load8_def load_block_def store8_def memcmp_eq_0_iff
  cstr_of_def strcaseeq_def tolower_def lit_def of_char_def Let_def

end
