(* ===== verification/Mdns_Types.thy ===== *)
theory Mdns_Types
  imports Mdns_Prelude
begin

text \<open>
  The data of the responder: the constants, enumerations and structs of
  \<^verbatim>\<open>mdns_private.h\<close> and \<^verbatim>\<open>mdns.h\<close>, the server state they make up, and the environment that
  the code sees through \<^verbatim>\<open>malloc\<close>, the tick counter, the random generator and the TCP/IP
  adapter.

  Linked lists of records are lists. Two kinds of pointers are compared or kept by the code and
  therefore have an identity in the model: services (\<open>srv_ptr\<close>, looked up in \<open>srv_heap\<close>) and
  the strings that outgoing questions share with the server (\<open>cptr\<close>: an address and the
  contents; strings are never modified in place). A service item and the service it owns have the
  same lifetime and are one object here. Scheduled packets and searches carry their own address.
\<close>

section \<open>Constants\<close>

abbreviation (input) MDNS_TYPE_A :: u16 where "MDNS_TYPE_A \<equiv> 0x0001"
abbreviation (input) MDNS_TYPE_PTR :: u16 where "MDNS_TYPE_PTR \<equiv> 0x000C"
abbreviation (input) MDNS_TYPE_TXT :: u16 where "MDNS_TYPE_TXT \<equiv> 0x0010"
abbreviation (input) MDNS_TYPE_AAAA :: u16 where "MDNS_TYPE_AAAA \<equiv> 0x001C"
abbreviation (input) MDNS_TYPE_SRV :: u16 where "MDNS_TYPE_SRV \<equiv> 0x0021"
abbreviation (input) MDNS_TYPE_OPT :: u16 where "MDNS_TYPE_OPT \<equiv> 0x0029"
abbreviation (input) MDNS_TYPE_NSEC :: u16 where "MDNS_TYPE_NSEC \<equiv> 0x002F"
abbreviation (input) MDNS_TYPE_ANY :: u16 where "MDNS_TYPE_ANY \<equiv> 0x00FF"
abbreviation (input) MDNS_TYPE_SDPTR :: u16 where "MDNS_TYPE_SDPTR \<equiv> 0x0032"

abbreviation (input) MDNS_MAX_SERVICES :: nat where "MDNS_MAX_SERVICES \<equiv> 10"
abbreviation (input) MDNS_ANSWER_PTR_TTL :: u32 where "MDNS_ANSWER_PTR_TTL \<equiv> 4500"
abbreviation (input) MDNS_ANSWER_TXT_TTL :: u32 where "MDNS_ANSWER_TXT_TTL \<equiv> 4500"
abbreviation (input) MDNS_ANSWER_SRV_TTL :: u32 where "MDNS_ANSWER_SRV_TTL \<equiv> 120"
abbreviation (input) MDNS_ANSWER_A_TTL :: u32 where "MDNS_ANSWER_A_TTL \<equiv> 120"
abbreviation (input) MDNS_ANSWER_AAAA_TTL :: u32 where "MDNS_ANSWER_AAAA_TTL \<equiv> 120"
abbreviation (input) MDNS_FLAGS_AUTHORITATIVE :: u16 where "MDNS_FLAGS_AUTHORITATIVE \<equiv> 0x8400"
abbreviation (input) MDNS_FLAGS_DISTRIBUTED :: u16 where "MDNS_FLAGS_DISTRIBUTED \<equiv> 0x0200"
abbreviation (input) MDNS_NAME_REF :: u16 where "MDNS_NAME_REF \<equiv> 0xC000"
abbreviation (input) MDNS_CLASS_IN :: u16 where "MDNS_CLASS_IN \<equiv> 0x0001"
abbreviation (input) MDNS_CLASS_IN_FLUSH_CACHE :: u16 where "MDNS_CLASS_IN_FLUSH_CACHE \<equiv> 0x8001"
abbreviation (input) MDNS_ANSWER_PTR :: u8 where "MDNS_ANSWER_PTR \<equiv> 0x08"
abbreviation (input) MDNS_ANSWER_TXT :: u8 where "MDNS_ANSWER_TXT \<equiv> 0x04"
abbreviation (input) MDNS_ANSWER_SRV :: u8 where "MDNS_ANSWER_SRV \<equiv> 0x02"
abbreviation (input) MDNS_ANSWER_A :: u8 where "MDNS_ANSWER_A \<equiv> 0x01"
abbreviation (input) MDNS_ANSWER_AAAA :: u8 where "MDNS_ANSWER_AAAA \<equiv> 0x10"
abbreviation (input) MDNS_ANSWER_AAAA_SIZE :: nat where "MDNS_ANSWER_AAAA_SIZE \<equiv> 16"
abbreviation (input) MDNS_SERVICE_PORT :: u16 where "MDNS_SERVICE_PORT \<equiv> 5353"
abbreviation (input) MDNS_ACTION_QUEUE_LEN :: nat where "MDNS_ACTION_QUEUE_LEN \<equiv> 16"
abbreviation (input) MDNS_NAME_BUF_LEN :: nat where "MDNS_NAME_BUF_LEN \<equiv> 65"
abbreviation (input) MDNS_MAX_PACKET_SIZE :: nat where "MDNS_MAX_PACKET_SIZE \<equiv> 1460"
abbreviation (input) MDNS_HEAD_LEN :: nat where "MDNS_HEAD_LEN \<equiv> 12"
abbreviation (input) MDNS_HEAD_FLAGS_OFFSET :: nat where "MDNS_HEAD_FLAGS_OFFSET \<equiv> 2"
abbreviation (input) MDNS_HEAD_QUESTIONS_OFFSET :: nat where "MDNS_HEAD_QUESTIONS_OFFSET \<equiv> 4"
abbreviation (input) MDNS_HEAD_ANSWERS_OFFSET :: nat where "MDNS_HEAD_ANSWERS_OFFSET \<equiv> 6"
abbreviation (input) MDNS_HEAD_SERVERS_OFFSET :: nat where "MDNS_HEAD_SERVERS_OFFSET \<equiv> 8"
abbreviation (input) MDNS_HEAD_ADDITIONAL_OFFSET :: nat where "MDNS_HEAD_ADDITIONAL_OFFSET \<equiv> 10"

section \<open>Enumerations\<close>

datatype tcpip_adapter_if_t =
  TCPIP_ADAPTER_IF_STA | TCPIP_ADAPTER_IF_AP | TCPIP_ADAPTER_IF_ETH | TCPIP_ADAPTER_IF_TEST |
  TCPIP_ADAPTER_IF_MAX

datatype mdns_ip_protocol_t = MDNS_IP_PROTOCOL_V4 | MDNS_IP_PROTOCOL_V6

datatype mdns_pcb_state_t =
  PCB_OFF | PCB_DUP | PCB_INIT | PCB_PROBE_1 | PCB_PROBE_2 | PCB_PROBE_3 |
  PCB_ANNOUNCE_1 | PCB_ANNOUNCE_2 | PCB_ANNOUNCE_3 | PCB_RUNNING

datatype mdns_parsed_recort_type_t = MDNS_ANSWER | MDNS_NS | MDNS_EXTRA

datatype mdns_search_once_state_t = SEARCH_OFF | SEARCH_INIT | SEARCH_RUNNING

datatype esp_err_t =
  ESP_OK | ESP_FAIL | ESP_ERR_NO_MEM | ESP_ERR_INVALID_ARG | ESP_ERR_INVALID_STATE |
  ESP_ERR_NOT_FOUND

text \<open>The values of the loops \<open>for (i = 0; i < TCPIP_ADAPTER_IF_MAX; i++)\<close> and
  \<open>for (j = 0; j < MDNS_IP_PROTOCOL_MAX; j++)\<close>.\<close>

definition all_ifs :: "tcpip_adapter_if_t list" where
  "all_ifs = [TCPIP_ADAPTER_IF_STA, TCPIP_ADAPTER_IF_AP, TCPIP_ADAPTER_IF_ETH,
              TCPIP_ADAPTER_IF_TEST]"

definition all_protocols :: "mdns_ip_protocol_t list" where
  "all_protocols = [MDNS_IP_PROTOCOL_V4, MDNS_IP_PROTOCOL_V6]"

definition all_pcbs :: "(tcpip_adapter_if_t \<times> mdns_ip_protocol_t) list" where
  "all_pcbs = List.product all_ifs all_protocols"

lemma set_all_pcbs: "(i, j) \<in> set all_pcbs \<longleftrightarrow> i \<noteq> TCPIP_ADAPTER_IF_MAX"
  by (cases i; cases j) (simp_all add: all_pcbs_def all_ifs_def all_protocols_def)

lemma distinct_all_pcbs: "distinct all_pcbs"
  by (simp add: all_pcbs_def all_ifs_def all_protocols_def)

text \<open>The code compares protocol-control-block states by their position in the enumeration and
  steps through them by adding one.\<close>

primrec pcb_num :: "mdns_pcb_state_t \<Rightarrow> nat" where
  "pcb_num PCB_OFF = 0"
| "pcb_num PCB_DUP = 1"
| "pcb_num PCB_INIT = 2"
| "pcb_num PCB_PROBE_1 = 3"
| "pcb_num PCB_PROBE_2 = 4"
| "pcb_num PCB_PROBE_3 = 5"
| "pcb_num PCB_ANNOUNCE_1 = 6"
| "pcb_num PCB_ANNOUNCE_2 = 7"
| "pcb_num PCB_ANNOUNCE_3 = 8"
| "pcb_num PCB_RUNNING = 9"

lemma pcb_num_inject [simp]: "pcb_num a = pcb_num b \<longleftrightarrow> a = b"
  by (cases a; cases b) simp_all

instantiation mdns_pcb_state_t :: linorder
begin

definition less_eq_mdns_pcb_state_t :: "mdns_pcb_state_t \<Rightarrow> mdns_pcb_state_t \<Rightarrow> bool" where
  "a \<le> b \<longleftrightarrow> pcb_num a \<le> pcb_num b"

definition less_mdns_pcb_state_t :: "mdns_pcb_state_t \<Rightarrow> mdns_pcb_state_t \<Rightarrow> bool" where
  "a < b \<longleftrightarrow> pcb_num a < pcb_num b"

instance
  by standard (auto simp: less_eq_mdns_pcb_state_t_def less_mdns_pcb_state_t_def)

end

lemmas pcb_order_simps = less_eq_mdns_pcb_state_t_def less_mdns_pcb_state_t_def

text \<open>\<open>(mdns_pcb_state_t)((uint8_t)(pcb->state) + 1)\<close>.\<close>

primrec pcb_next_state :: "mdns_pcb_state_t \<Rightarrow> mdns_pcb_state_t" where
  "pcb_next_state PCB_OFF = PCB_DUP"
| "pcb_next_state PCB_DUP = PCB_INIT"
| "pcb_next_state PCB_INIT = PCB_PROBE_1"
| "pcb_next_state PCB_PROBE_1 = PCB_PROBE_2"
| "pcb_next_state PCB_PROBE_2 = PCB_PROBE_3"
| "pcb_next_state PCB_PROBE_3 = PCB_ANNOUNCE_1"
| "pcb_next_state PCB_ANNOUNCE_1 = PCB_ANNOUNCE_2"
| "pcb_next_state PCB_ANNOUNCE_2 = PCB_ANNOUNCE_3"
| "pcb_next_state PCB_ANNOUNCE_3 = PCB_RUNNING"
| "pcb_next_state PCB_RUNNING = PCB_RUNNING"

section \<open>Structs\<close>

type_synonym srv_ptr = nat
type_synonym cptr = "nat \<times> cstring"

datatype ip_addr_t = IP4 u32 | IP6 "u8 list"

record mdns_name_t =
  n_host :: cstring
  n_service :: cstring
  n_proto :: cstring
  n_domain :: cstring
  n_parts :: nat
  n_sub :: bool
  n_invalid :: bool

record mdns_parsed_question_t =
  pq_type :: u16
  pq_unicast :: bool
  pq_host :: "cstring option"
  pq_service :: "cstring option"
  pq_proto :: "cstring option"
  pq_domain :: "cstring option"

record mdns_parsed_packet_t =
  pp_if :: tcpip_adapter_if_t
  pp_protocol :: mdns_ip_protocol_t
  pp_src :: ip_addr_t
  pp_src_port :: u16
  pp_multicast :: bool
  pp_authoritative :: bool
  pp_probe :: bool
  pp_discovery :: bool
  pp_distributed :: bool
  pp_questions :: "mdns_parsed_question_t list"

record mdns_rx_packet_t =
  rx_if :: tcpip_adapter_if_t
  rx_protocol :: mdns_ip_protocol_t
  rx_payload :: "u8 list"
  rx_src :: ip_addr_t
  rx_dest :: ip_addr_t
  rx_src_port :: u16
  rx_multicast :: bool

type_synonym mdns_txt_item = "cstring \<times> cstring"

record mdns_service_t =
  s_instance :: "cptr option"
  s_service :: cptr
  s_proto :: cptr
  s_priority :: u16
  s_weight :: u16
  s_port :: u16
  s_txt :: "mdns_txt_item list"

record mdns_out_question_t =
  oq_type :: u16
  oq_unicast :: bool
  oq_host :: "cptr option"
  oq_service :: "cptr option"
  oq_proto :: "cptr option"
  oq_domain :: "cptr option"

record mdns_out_answer_t =
  oa_type :: u16
  oa_bye :: bool
  oa_flush :: bool
  oa_service :: "srv_ptr option"
  oa_custom_instance :: "cptr option"
  oa_custom_service :: "cptr option"
  oa_custom_proto :: "cptr option"

record mdns_tx_packet_t =
  tx_ptr :: nat
  tx_send_at :: u32
  tx_if :: tcpip_adapter_if_t
  tx_protocol :: mdns_ip_protocol_t
  tx_dst :: ip_addr_t
  tx_port :: u16
  tx_flags :: u16
  tx_distributed :: bool
  tx_questions :: "mdns_out_question_t list"
  tx_answers :: "mdns_out_answer_t list"
  tx_servers :: "mdns_out_answer_t list"
  tx_additional :: "mdns_out_answer_t list"
  tx_queued :: bool

record mdns_pcb_t =
  pcb_state :: mdns_pcb_state_t
  pcb_pcb :: bool
  probe_services :: "srv_ptr list option"
  probe_services_len :: nat
  probe_ip :: bool
  probe_running :: bool
  failed_probes :: u16

text \<open>The struct that \<open>memset (.., 0, ..)\<close> leaves.\<close>

definition pcb_zero :: mdns_pcb_t where
  "pcb_zero = \<lparr>pcb_state = PCB_OFF, pcb_pcb = False, probe_services = None,
     probe_services_len = 0, probe_ip = False, probe_running = False, failed_probes = 0\<rparr>"

record mdns_result_t =
  r_if :: tcpip_adapter_if_t
  r_protocol :: mdns_ip_protocol_t
  r_instance_name :: "cstring option"
  r_hostname :: "cstring option"
  r_port :: u16
  r_txt :: "(cstring \<times> cstring option) list"
  r_addr :: "ip_addr_t list"

record mdns_search_once_t =
  so_ptr :: nat
  so_state :: mdns_search_once_state_t
  so_started_at :: u32
  so_sent_at :: u32
  so_timeout :: u32
  so_done :: bool
  so_type :: u16
  so_max_results :: nat
  so_num_results :: nat
  so_instance :: "cptr option"
  so_service :: "cptr option"
  so_proto :: "cptr option"
  so_result :: "mdns_result_t list"

section \<open>Server and environment\<close>

datatype esp_event =
  WIFI_EVENT_STA_CONNECTED | WIFI_EVENT_STA_DISCONNECTED | WIFI_EVENT_AP_START |
  WIFI_EVENT_AP_STOP | IP_EVENT_STA_GOT_IP | IP_EVENT_GOT_IP6 tcpip_adapter_if_t | EVENT_OTHER

datatype mdns_action_t =
  ACTION_SYSTEM_EVENT esp_event
| ACTION_HOSTNAME_SET cptr
| ACTION_INSTANCE_SET cptr
| ACTION_SERVICE_ADD srv_ptr mdns_service_t
| ACTION_SERVICE_DEL srv_ptr
| ACTION_SERVICE_INSTANCE_SET srv_ptr cptr
| ACTION_SERVICE_PORT_SET srv_ptr u16
| ACTION_SERVICE_TXT_REPLACE srv_ptr "mdns_txt_item list"
| ACTION_SERVICE_TXT_SET srv_ptr cstring cstring
| ACTION_SERVICE_TXT_DEL srv_ptr cstring
| ACTION_SERVICES_CLEAR
| ACTION_SEARCH_ADD mdns_search_once_t
| ACTION_SEARCH_SEND nat
| ACTION_SEARCH_END nat
| ACTION_TX_HANDLE nat
| ACTION_RX_HANDLE mdns_rx_packet_t
| ACTION_TASK_STOP

record mdns_server_t =
  interfaces :: "tcpip_adapter_if_t \<Rightarrow> mdns_ip_protocol_t \<Rightarrow> mdns_pcb_t"
  hostname :: "cptr option"
  server_instance :: "cptr option"
  services :: "srv_ptr list"
  srv_heap :: "srv_ptr \<rightharpoonup> mdns_service_t"
  tx_queue :: "mdns_tx_packet_t list"
  search_once :: "mdns_search_once_t list"
  action_queue :: "mdns_action_t list"

text \<open>
  The environment. \<open>alloc_script\<close> holds the outcomes of the next allocations (an exhausted
  script means that they succeed), \<open>ticks\<close> the next readings of the tick counter (the last one
  is kept) and \<open>randoms\<close> the next random numbers. \<open>ip_info\<close> and \<open>ip6_linklocal\<close> are
  the answers of the TCP/IP adapter, \<open>None\<close> for an error. \<open>junk\<close> is the value that the
  uninitialised \<open>name.invalid\<close> of \<^verbatim>\<open>_mdns_append_fqdn\<close> happens to have in a call, \<open>stack_junk\<close>
  the contents of the uninitialised array of \<^verbatim>\<open>_mdns_check_txt_collision\<close>.
  \<open>dhcpc_stopped\<close>, \<open>netif_up\<close>, \<open>join_fails\<close>, \<open>udp_bind_fails\<close>
  and \<open>netif_error\<close> are further answers of the network stack. \<open>tx_buffer\<close> is the static
  packet buffer of \<^verbatim>\<open>_mdns_dispatch_tx_packet\<close>, \<open>sent\<close> the datagrams handed to lwIP (latest
  first), \<open>share_step\<close> the static counter of \<^verbatim>\<open>_mdns_create_answer_from_parsed_packet\<close> and
  \<open>pcb_main\<close> says whether the shared UDP control block exists. \<open>finished\<close> holds the searches
  whose semaphore was given and that the caller of \<^verbatim>\<open>mdns_query\<close> has not collected yet.
  \<open>server_up\<close> says that \<open>_mdns_server\<close> is not null, \<open>service_semaphore\<close>, \<open>service_task\<close> and
  \<open>timer_on\<close> that the service mutex, the service task and the timer exist.
\<close>

record mdns_datagram =
  dg_if :: tcpip_adapter_if_t
  dg_protocol :: mdns_ip_protocol_t
  dg_dst :: ip_addr_t
  dg_port :: u16
  dg_data :: "u8 list"

record mdns_world = mdns_server_t +
  alloc_script :: "bool list"
  next_ptr :: nat
  ticks :: "u32 list"
  randoms :: "u32 list"
  ip_info :: "tcpip_adapter_if_t \<Rightarrow> u32 option"
  ip6_linklocal :: "tcpip_adapter_if_t \<Rightarrow> u8 list option"
  junk :: "u8 list \<Rightarrow> nat \<Rightarrow> cstring list \<Rightarrow> bool"
  stack_junk :: "nat \<Rightarrow> u8"
  dhcpc_stopped :: bool
  netif_up :: "tcpip_adapter_if_t \<Rightarrow> bool"
  join_fails :: "tcpip_adapter_if_t \<Rightarrow> mdns_ip_protocol_t \<Rightarrow> bool"
  udp_bind_fails :: bool
  netif_error :: "tcpip_adapter_if_t \<Rightarrow> bool"
  tx_buffer :: "u8 list"
  sent :: "mdns_datagram list"
  share_step :: nat
  pcb_main :: bool
  finished :: "mdns_search_once_t list"
  server_up :: bool
  service_semaphore :: bool
  service_task :: bool
  timer_on :: bool

definition MDNS_DEFAULT_DOMAIN :: cstring where
  "MDNS_DEFAULT_DOMAIN = lit ''local''"

definition MDNS_SUB_STR :: cstring where
  "MDNS_SUB_STR = lit ''_sub''"

text \<open>The static string that outgoing questions point to; allocations start at address 1.\<close>

definition default_domain_ptr :: cptr where
  "default_domain_ptr = (0, MDNS_DEFAULT_DOMAIN)"

definition malloc :: "mdns_world \<Rightarrow> bool \<times> mdns_world" where
  "malloc w = (case alloc_script w of
      [] \<Rightarrow> (True, w)
    | ok # rest \<Rightarrow> (ok, w\<lparr>alloc_script := rest\<rparr>))"

definition fresh_ptr :: "mdns_world \<Rightarrow> nat \<times> mdns_world" where
  "fresh_ptr w = (next_ptr w, w\<lparr>next_ptr := Suc (next_ptr w)\<rparr>)"

text \<open>\<open>strdup\<close>: \<open>None\<close> when the allocation fails.\<close>

definition strdup :: "mdns_world \<Rightarrow> cstring \<Rightarrow> cptr option \<times> mdns_world" where
  "strdup w s = (let (ok, w1) = malloc w in
     if ok then (let (a, w2) = fresh_ptr w1 in (Some (a, s), w2)) else (None, w1))"

text \<open>\<open>xTaskGetTickCount () * portTICK_PERIOD_MS\<close>, with the 100 Hz tick of the default
  configuration; the product wraps at 32 bits.\<close>

definition now_ms :: "mdns_world \<Rightarrow> u32 \<times> mdns_world" where
  "now_ms w = (case ticks w of
      [] \<Rightarrow> (0, w)
    | [t] \<Rightarrow> (t * 10, w)
    | t # ts \<Rightarrow> (t * 10, w\<lparr>ticks := ts\<rparr>))"

definition esp_random :: "mdns_world \<Rightarrow> u32 \<times> mdns_world" where
  "esp_random w = (case randoms w of [] \<Rightarrow> (0, w) | r # rs \<Rightarrow> (r, w\<lparr>randoms := rs\<rparr>))"

definition str_null_or_empty :: "cptr option \<Rightarrow> bool" where
  "str_null_or_empty s \<longleftrightarrow> (case s of None \<Rightarrow> True | Some (_, t) \<Rightarrow> t = [])"

definition get_pcb :: "mdns_world \<Rightarrow> tcpip_adapter_if_t \<Rightarrow> mdns_ip_protocol_t \<Rightarrow> mdns_pcb_t" where
  "get_pcb w i j = interfaces w i j"

definition set_pcb ::
  "mdns_world \<Rightarrow> tcpip_adapter_if_t \<Rightarrow> mdns_ip_protocol_t \<Rightarrow> mdns_pcb_t \<Rightarrow> mdns_world" where
  "set_pcb w i j b = w\<lparr>interfaces := (interfaces w)(i := (interfaces w i)(j := b))\<rparr>"

definition PCB_STATE_IS_PROBING :: "mdns_pcb_t \<Rightarrow> bool" where
  "PCB_STATE_IS_PROBING b \<longleftrightarrow> PCB_OFF < pcb_state b \<and> pcb_state b < PCB_ANNOUNCE_1"

definition PCB_STATE_IS_ANNOUNCING :: "mdns_pcb_t \<Rightarrow> bool" where
  "PCB_STATE_IS_ANNOUNCING b \<longleftrightarrow> PCB_PROBE_3 < pcb_state b \<and> pcb_state b < PCB_RUNNING"

text \<open>The state of the program and of its environment at power-on: no server, an empty packet buffer,
  interfaces that are up but have no address.\<close>

definition boot_world :: mdns_world where
  "boot_world = \<lparr>interfaces = (\<lambda>_ _. pcb_zero), hostname = None, server_instance = None,
     services = [], srv_heap = Map.empty, tx_queue = [], search_once = [], action_queue = [],
     alloc_script = [], next_ptr = 1, ticks = [], randoms = [], ip_info = (\<lambda>_. None),
     ip6_linklocal = (\<lambda>_. None), junk = (\<lambda>_ _ _. False), stack_junk = (\<lambda>_. 0),
     dhcpc_stopped = False, netif_up = (\<lambda>_. True), join_fails = (\<lambda>_ _. False),
     udp_bind_fails = False, netif_error = (\<lambda>_. False),
     tx_buffer = replicate MDNS_MAX_PACKET_SIZE 0, sent = [], share_step = 0, pcb_main = False,
     finished = [], server_up = False, service_semaphore = False, service_task = False,
     timer_on = False\<rparr>"

text \<open>A small configuration on which theorems are instantiated: the host \<open>esp\<close> with one service
  \<open>_http._tcp\<close> on port 80, established on the IPv4 side of the station interface.\<close>

definition demo_service :: mdns_service_t where
  "demo_service = \<lparr>s_instance = Some (1, lit ''web''), s_service = (2, lit ''_http''),
     s_proto = (3, lit ''_tcp''), s_priority = 0, s_weight = 0, s_port = 80, s_txt = []\<rparr>"

definition demo_world :: mdns_world where
  "demo_world = boot_world\<lparr>hostname := Some (4, lit ''esp''), services := [5],
     srv_heap := [5 \<mapsto> demo_service],
     interfaces := (\<lambda>i j. if i = TCPIP_ADAPTER_IF_STA \<and> j = MDNS_IP_PROTOCOL_V4
       then pcb_zero\<lparr>pcb_state := PCB_RUNNING, pcb_pcb := True\<rparr> else pcb_zero),
     ip_info := (\<lambda>i. if i = TCPIP_ADAPTER_IF_STA then Some 0x0204A8C0 else None),
     next_ptr := 6, pcb_main := True, server_up := True\<rparr>"

text \<open>A scheduled announcement of its service.\<close>

definition demo_packet :: mdns_tx_packet_t where
  "demo_packet = \<lparr>tx_ptr = 7, tx_send_at = 10, tx_if = TCPIP_ADAPTER_IF_STA,
     tx_protocol = MDNS_IP_PROTOCOL_V4, tx_dst = IP4 0xFB0000E0, tx_port = MDNS_SERVICE_PORT,
     tx_flags = MDNS_FLAGS_AUTHORITATIVE, tx_distributed = False, tx_questions = [],
     tx_answers = [\<lparr>oa_type = MDNS_TYPE_PTR, oa_bye = False, oa_flush = False, oa_service = Some 5,
       oa_custom_instance = None, oa_custom_service = None, oa_custom_proto = None\<rparr>],
     tx_servers = [], tx_additional = [], tx_queued = False\<rparr>"

lemma demo_world_simps [simp]:
  "interfaces demo_world i j = (if i = TCPIP_ADAPTER_IF_STA \<and> j = MDNS_IP_PROTOCOL_V4
     then pcb_zero\<lparr>pcb_state := PCB_RUNNING, pcb_pcb := True\<rparr> else pcb_zero)"
  "hostname demo_world = Some (4, lit ''esp'')" "services demo_world = [5]"
  "srv_heap demo_world = [5 \<mapsto> demo_service]" "tx_queue demo_world = []" "search_once demo_world = []"
  "action_queue demo_world = []" "alloc_script demo_world = []" "next_ptr demo_world = 6"
  "tx_buffer demo_world = replicate MDNS_MAX_PACKET_SIZE 0" "server_up demo_world" "ticks demo_world = []"
  "junk demo_world = (\<lambda>_ _ _. False)" "server_instance demo_world = None"
  "ip_info demo_world = (\<lambda>i. if i = TCPIP_ADAPTER_IF_STA then Some 0x0204A8C0 else None)"
  by (simp_all add: demo_world_def boot_world_def)

lemma pcb_zero_simps [simp]:
  "pcb_state pcb_zero = PCB_OFF" "\<not> pcb_pcb pcb_zero" "probe_services pcb_zero = None"
  "probe_services_len pcb_zero = 0" "\<not> probe_ip pcb_zero" "\<not> probe_running pcb_zero" "failed_probes pcb_zero = 0"
  by (simp_all add: pcb_zero_def)

end
