(* ===== verification/Mdns_Wire.thy ===== *)
theory Mdns_Wire
  imports Mdns_Types
begin

text \<open>
  The byte level of the packet writer and reader of \<^verbatim>\<open>src/src/mdns.c\<close>: \<^verbatim>\<open>_mdns_set_u16\<close>,
  \<^verbatim>\<open>_mdns_append_u8/u16/u32\<close>, \<^verbatim>\<open>_mdns_append_type\<close>, \<^verbatim>\<open>_mdns_append_string\<close>,
  \<^verbatim>\<open>_mdns_read_u16/u32\<close>. A packet under construction is its buffer and the write offset that
  the code keeps behind \<open>uint16_t * index\<close>; a writer returns the number of bytes it reports and
  the new packet. Every writer is characterised by the bytes it emits (\<open>wire_simps\<close>), and the
  locale \<open>packet_writer\<close> is the contract that the record writers build on.
\<close>

type_synonym wbuf = "u8 list \<times> nat"

section \<open>Writers and readers\<close>

definition mdns_set_u16 :: "u8 list \<Rightarrow> nat \<Rightarrow> u16 \<Rightarrow> u8 list option" where
  "mdns_set_u16 packet index v =
     (if index + 1 \<ge> MDNS_MAX_PACKET_SIZE then Some packet
      else do {
        packet1 \<leftarrow> store8 packet index (ucast (drop_bit 8 v AND 0xFF));
        store8 packet1 (index + 1) (ucast (v AND 0xFF))
      })"

definition mdns_append_u8 :: "wbuf \<Rightarrow> u8 \<Rightarrow> (nat \<times> wbuf) option" where
  "mdns_append_u8 b v = (case b of (packet, index) \<Rightarrow>
     if index \<ge> MDNS_MAX_PACKET_SIZE then Some (0, packet, index)
     else do {
       packet1 \<leftarrow> store8 packet index v;
       Some (1, packet1, index + 1)
     })"

definition mdns_append_u16 :: "wbuf \<Rightarrow> u16 \<Rightarrow> (nat \<times> wbuf) option" where
  "mdns_append_u16 b v = (case b of (packet, index) \<Rightarrow>
     if index + 1 \<ge> MDNS_MAX_PACKET_SIZE then Some (0, packet, index)
     else do {
       (_, b1) \<leftarrow> mdns_append_u8 (packet, index) (ucast (drop_bit 8 v AND 0xFF));
       (_, b2) \<leftarrow> mdns_append_u8 b1 (ucast (v AND 0xFF));
       Some (2, b2)
     })"

definition mdns_append_u32 :: "wbuf \<Rightarrow> u32 \<Rightarrow> (nat \<times> wbuf) option" where
  "mdns_append_u32 b v = (case b of (packet, index) \<Rightarrow>
     if index + 3 \<ge> MDNS_MAX_PACKET_SIZE then Some (0, packet, index)
     else do {
       (_, b1) \<leftarrow> mdns_append_u8 (packet, index) (ucast (drop_bit 24 v AND 0xFF));
       (_, b2) \<leftarrow> mdns_append_u8 b1 (ucast (drop_bit 16 v AND 0xFF));
       (_, b3) \<leftarrow> mdns_append_u8 b2 (ucast (drop_bit 8 v AND 0xFF));
       (_, b4) \<leftarrow> mdns_append_u8 b3 (ucast (v AND 0xFF));
       Some (4, b4)
     })"

definition mdns_append_type :: "wbuf \<Rightarrow> u8 \<Rightarrow> bool \<Rightarrow> u32 \<Rightarrow> (nat \<times> wbuf) option" where
  "mdns_append_type b type flush ttl = (case b of (packet, index) \<Rightarrow>
     if index + 10 \<ge> MDNS_MAX_PACKET_SIZE then Some (0, packet, index)
     else let clas = (if flush then MDNS_CLASS_IN_FLUSH_CACHE else MDNS_CLASS_IN);
              rest = (\<lambda>rrtype. do {
                (_, b1) \<leftarrow> mdns_append_u16 (packet, index) rrtype;
                (_, b2) \<leftarrow> mdns_append_u16 b1 clas;
                (_, b3) \<leftarrow> mdns_append_u32 b2 ttl;
                (_, b4) \<leftarrow> mdns_append_u16 b3 0;
                Some (10, b4)
              })
          in if type = MDNS_ANSWER_PTR then rest MDNS_TYPE_PTR
             else if type = MDNS_ANSWER_TXT then rest MDNS_TYPE_TXT
             else if type = MDNS_ANSWER_SRV then rest MDNS_TYPE_SRV
             else if type = MDNS_ANSWER_A then rest MDNS_TYPE_A
             else if type = MDNS_ANSWER_AAAA then rest MDNS_TYPE_AAAA
             else Some (0, packet, index))"

definition mdns_append_string :: "wbuf \<Rightarrow> cstring \<Rightarrow> (nat \<times> wbuf) option" where
  "mdns_append_string b string = (case b of (packet, index) \<Rightarrow>
     let len = length string mod 256 in
     if index + len + 1 \<ge> MDNS_MAX_PACKET_SIZE then Some (0, packet, index)
     else do {
       (_, packet1, index1) \<leftarrow> mdns_append_u8 (packet, index) (of_nat len);
       packet2 \<leftarrow> store_block packet1 index1 (take len string);
       Some ((len + 1) mod 256, packet2, index1 + len)
     })"

definition mdns_read_u16 :: "u8 list \<Rightarrow> nat \<Rightarrow> u16 option" where
  "mdns_read_u16 packet index = do {
     h \<leftarrow> load8 packet index;
     l \<leftarrow> load8 packet (index + 1);
     Some (push_bit 8 (ucast h) OR ucast l)
   }"

definition mdns_read_u32 :: "u8 list \<Rightarrow> nat \<Rightarrow> u32 option" where
  "mdns_read_u32 packet index = do {
     b0 \<leftarrow> load8 packet index;
     b1 \<leftarrow> load8 packet (index + 1);
     b2 \<leftarrow> load8 packet (index + 2);
     b3 \<leftarrow> load8 packet (index + 3);
     Some (push_bit 24 (ucast b0) OR push_bit 16 (ucast b1) OR push_bit 8 (ucast b2) OR ucast b3)
   }"

section \<open>The bytes that the writers emit\<close>

text \<open>Overwriting a stretch of a buffer.\<close>

definition put :: "u8 list \<Rightarrow> nat \<Rightarrow> u8 list \<Rightarrow> u8 list" where
  "put p i bs = take i p @ bs @ drop (i + length bs) p"

definition u16_bytes :: "u16 \<Rightarrow> u8 list" where
  "u16_bytes v = [ucast (drop_bit 8 v), ucast v]"

definition u32_bytes :: "u32 \<Rightarrow> u8 list" where
  "u32_bytes v = [ucast (drop_bit 24 v), ucast (drop_bit 16 v), ucast (drop_bit 8 v), ucast v]"

lemma length_u16_bytes [simp]: "length (u16_bytes v) = 2"
  by (simp add: u16_bytes_def)

lemma length_u32_bytes [simp]: "length (u32_bytes v) = 4"
  by (simp add: u32_bytes_def)

lemma length_put [simp]: "i + length bs \<le> length p \<Longrightarrow> length (put p i bs) = length p"
  by (simp add: put_def)

lemma put_Nil [simp]: "put p i [] = p"
  by (simp add: put_def)

lemma take_put [simp]: "j \<le> i \<Longrightarrow> i \<le> length p \<Longrightarrow> take j (put p i bs) = take j p"
  by (simp add: put_def min_def)

lemma take_put_end:
  "i + length bs \<le> length p \<Longrightarrow> take (i + length bs) (put p i bs) = take i p @ bs"
  by (simp add: put_def)

lemma nth_put_low: "k < i \<Longrightarrow> i \<le> length p \<Longrightarrow> put p i bs ! k = p ! k"
  by (simp add: put_def nth_append)

lemma nth_put_mid: "k < length bs \<Longrightarrow> i \<le> length p \<Longrightarrow> put p i bs ! (i + k) = bs ! k"
  by (simp add: put_def nth_append min_def)

lemma put_put [simp]:
  assumes "j = i + length a" "j + length b \<le> length p"
  shows "put (put p i a) j b = put p i (a @ b)"
proof -
  have "take j (put p i a) = take i p @ a"
    using assms by (simp add: take_put_end)
  moreover have "drop (j + length b) (put p i a) = drop (i + length (a @ b)) p"
    using assms by (simp add: put_def ac_simps)
  ultimately show ?thesis
    by (simp add: put_def [of "put p i a"]) (simp add: put_def)
qed

lemma store8_put: "i < length p \<Longrightarrow> store8 p i v = Some (put p i [v])"
  by (simp add: store8_def put_def upd_conv_take_nth_drop)

lemma store_block_put: "i + length b \<le> length p \<Longrightarrow> store_block p i b = Some (put p i b)"
  by (simp add: store_block_def put_def)

lemma append_u8_put [wire_simps]:
  assumes "i < MDNS_MAX_PACKET_SIZE" "i < length p"
  shows "mdns_append_u8 (p, i) v = Some (1, put p i [v], i + 1)"
  using assms by (simp add: mdns_append_u8_def store8_put)

lemma append_u16_put [wire_simps]:
  assumes "i + 1 < MDNS_MAX_PACKET_SIZE" "i + 1 < length p"
  shows "mdns_append_u16 (p, i) v = Some (2, put p i (u16_bytes v), i + 2)"
  using assms
  by (simp add: mdns_append_u16_def append_u8_put u16_bytes_def)

lemma append_u32_put [wire_simps]:
  assumes "i + 3 < MDNS_MAX_PACKET_SIZE" "i + 3 < length p"
  shows "mdns_append_u32 (p, i) v = Some (4, put p i (u32_bytes v), i + 4)"
  using assms
  by (simp add: mdns_append_u32_def append_u8_put u32_bytes_def)

lemma append_u8_full [wire_simps]:
  "MDNS_MAX_PACKET_SIZE \<le> i \<Longrightarrow> mdns_append_u8 (p, i) v = Some (0, p, i)"
  by (simp add: mdns_append_u8_def)

lemma append_u16_full [wire_simps]:
  "MDNS_MAX_PACKET_SIZE \<le> i + 1 \<Longrightarrow> mdns_append_u16 (p, i) v = Some (0, p, i)"
  by (simp add: mdns_append_u16_def)

lemma append_u32_full [wire_simps]:
  "MDNS_MAX_PACKET_SIZE \<le> i + 3 \<Longrightarrow> mdns_append_u32 (p, i) v = Some (0, p, i)"
  by (simp add: mdns_append_u32_def)

text \<open>The record type that an answer kind stands for.\<close>

definition answer_rrtype :: "u8 \<Rightarrow> u16 option" where
  "answer_rrtype type =
     (if type = MDNS_ANSWER_PTR then Some MDNS_TYPE_PTR
      else if type = MDNS_ANSWER_TXT then Some MDNS_TYPE_TXT
      else if type = MDNS_ANSWER_SRV then Some MDNS_TYPE_SRV
      else if type = MDNS_ANSWER_A then Some MDNS_TYPE_A
      else if type = MDNS_ANSWER_AAAA then Some MDNS_TYPE_AAAA else None)"

definition type_bytes :: "u16 \<Rightarrow> bool \<Rightarrow> u32 \<Rightarrow> u8 list" where
  "type_bytes t flush ttl = u16_bytes t @
     u16_bytes (if flush then MDNS_CLASS_IN_FLUSH_CACHE else MDNS_CLASS_IN) @
     u32_bytes ttl @ u16_bytes 0"

lemma length_type_bytes [simp]: "length (type_bytes t flush ttl) = 10"
  by (simp add: type_bytes_def)

lemma append_type_seq:
  assumes "i + 10 < MDNS_MAX_PACKET_SIZE" "i + 10 \<le> length p"
  shows "do {
       (_, b1) \<leftarrow> mdns_append_u16 (p, i) t;
       (_, b2) \<leftarrow> mdns_append_u16 b1 clas;
       (_, b3) \<leftarrow> mdns_append_u32 b2 ttl;
       (_, b4) \<leftarrow> mdns_append_u16 b3 0;
       Some (10::nat, b4)
     } = Some (10, put p i (u16_bytes t @ u16_bytes clas @ u32_bytes ttl @ u16_bytes 0), i + 10)"
  using assms by (simp add: wire_simps)

lemma append_type_put [wire_simps]:
  assumes "i + 10 < MDNS_MAX_PACKET_SIZE" "i + 10 \<le> length p" "answer_rrtype type = Some t"
  shows "mdns_append_type (p, i) type flush ttl =
    Some (10, put p i (type_bytes t flush ttl), i + 10)"
  using assms append_type_seq [OF assms(1,2)]
  by (auto simp: mdns_append_type_def answer_rrtype_def type_bytes_def split: if_splits)

lemma append_type_full [wire_simps]:
  "MDNS_MAX_PACKET_SIZE \<le> i + 10 \<Longrightarrow> mdns_append_type (p, i) type flush ttl = Some (0, p, i)"
  by (simp add: mdns_append_type_def)

text \<open>A length-prefixed string. The length is kept in one byte: a longer string is cut.\<close>

definition string_bytes :: "cstring \<Rightarrow> u8 list" where
  "string_bytes s = of_nat (length s mod 256) # take (length s mod 256) s"

lemma length_string_bytes [simp]: "length (string_bytes s) = Suc (length s mod 256)"
  by (simp add: string_bytes_def)

lemma append_string_put [wire_simps]:
  assumes "i + length s mod 256 + 1 < MDNS_MAX_PACKET_SIZE" "i + length s mod 256 + 1 \<le> length p"
  shows "mdns_append_string (p, i) s =
    Some ((length s mod 256 + 1) mod 256, put p i (string_bytes s), i + length s mod 256 + 1)"
proof -
  let ?len = "length s mod 256"
  have lt: "length (take ?len s) = ?len"
    by simp
  have u8: "mdns_append_u8 (p, i) (of_nat ?len) = Some (1, put p i [of_nat ?len], i + 1)"
    using assms by (intro append_u8_put) simp_all
  have sb: "store_block (put p i [of_nat ?len]) (i + 1) (take ?len s) =
      Some (put p i (string_bytes s))"
    using assms lt by (simp add: store_block_put string_bytes_def)
  show ?thesis
    unfolding mdns_append_string_def Let_def using assms u8 sb by simp
qed

lemma append_string_full [wire_simps]:
  "MDNS_MAX_PACKET_SIZE \<le> i + length s mod 256 + 1 \<Longrightarrow>
   mdns_append_string (p, i) s = Some (0, p, i)"
  by (simp add: mdns_append_string_def Let_def)

lemma set_u16_put:
  "i + 1 < MDNS_MAX_PACKET_SIZE \<Longrightarrow> i + 1 < length p \<Longrightarrow>
   mdns_set_u16 p i v = Some (put p i (u16_bytes v))"
  by (simp add: mdns_set_u16_def store8_put u16_bytes_def)

text \<open>Reading back what a writer emitted.\<close>

lemma read_u16_nth:
  "i + 1 < length p \<Longrightarrow> mdns_read_u16 p i = Some (push_bit 8 (ucast (p ! i)) OR ucast (p ! (i + 1)))"
  by (simp add: mdns_read_u16_def load8_def)

lemma read_u16_put: "i + 2 \<le> length p \<Longrightarrow> mdns_read_u16 (put p i (u16_bytes v)) i = Some v"
  using nth_put_mid [of 0 "u16_bytes v" i p] nth_put_mid [of 1 "u16_bytes v" i p]
  by (simp add: read_u16_nth) (simp add: u16_bytes_def)

lemma read_u32_put: "i + 4 \<le> length p \<Longrightarrow> mdns_read_u32 (put p i (u32_bytes v)) i = Some v"
  using nth_put_mid [of 0 "u32_bytes v" i p] nth_put_mid [of 1 "u32_bytes v" i p]
    nth_put_mid [of 2 "u32_bytes v" i p] nth_put_mid [of 3 "u32_bytes v" i p]
  by (simp add: mdns_read_u32_def load8_def) (simp add: u32_bytes_def)

section \<open>The contract of a writer\<close>

text \<open>What a writer may do to a packet: keep every byte before the write offset, and advance the offset
  within the 1460 bytes of the packet buffer. The contract is stated for memory that goes on behind the buffer: a
  writer leaves what lies there as it was.\<close>

definition extends :: "wbuf \<Rightarrow> wbuf \<Rightarrow> bool" where
  "extends b b' \<longleftrightarrow> length (fst b') = length (fst b) \<and> snd b \<le> snd b' \<and>
     snd b' \<le> MDNS_MAX_PACKET_SIZE \<and> take (snd b) (fst b') = take (snd b) (fst b) \<and>
     drop MDNS_MAX_PACKET_SIZE (fst b') = drop MDNS_MAX_PACKET_SIZE (fst b)"

definition wbuf_ok :: "wbuf \<Rightarrow> bool" where
  "wbuf_ok b \<longleftrightarrow> MDNS_MAX_PACKET_SIZE \<le> length (fst b) \<and> snd b \<le> MDNS_MAX_PACKET_SIZE"

lemma extends_refl: "snd b \<le> MDNS_MAX_PACKET_SIZE \<Longrightarrow> extends b b"
  by (simp add: extends_def)

lemma extends_trans [trans]:
  assumes "extends a b" "extends b c"
  shows "extends a c"
proof -
  have ab: "snd a \<le> snd b"
    using assms(1) by (simp add: extends_def)
  have "take (snd a) (fst c) = take (snd a) (take (snd b) (fst c))"
    by (simp only: take_take min_absorb1 [OF ab])
  also have "\<dots> = take (snd a) (take (snd b) (fst b))"
    using assms(2) by (simp add: extends_def)
  also have "\<dots> = take (snd a) (fst b)"
    by (simp only: take_take min_absorb1 [OF ab])
  also have "\<dots> = take (snd a) (fst a)"
    using assms(1) by (simp add: extends_def)
  finally have "take (snd a) (fst c) = take (snd a) (fst a)" .
  with assms show ?thesis
    by (simp add: extends_def)
qed

lemma drop_put:
  assumes "i + length bs \<le> k" "k \<le> length p"
  shows "drop k (put p i bs) = drop k p"
proof (cases "bs = []")
  case False
  with assms have "i < length p" by (cases bs) auto
  with assms show ?thesis by (simp add: put_def min_def)
qed simp

lemma extends_put:
  "i + length bs \<le> MDNS_MAX_PACKET_SIZE \<Longrightarrow> MDNS_MAX_PACKET_SIZE \<le> length p \<Longrightarrow>
   extends (p, i) (put p i bs, i + length bs)"
  by (simp add: extends_def drop_put)

lemma wbuf_ok_extends: "wbuf_ok b \<Longrightarrow> extends b b' \<Longrightarrow> wbuf_ok b'"
  by (auto simp: wbuf_ok_def extends_def)

lemma wbuf_ok_refl: "wbuf_ok b \<Longrightarrow> extends b b"
  by (simp add: wbuf_ok_def extends_refl)

locale packet_writer =
  fixes wr :: "'x \<Rightarrow> wbuf \<Rightarrow> (nat \<times> wbuf) option"
  assumes wr_extends: "wbuf_ok b \<Longrightarrow> wr x b = Some (n, b') \<Longrightarrow> extends b b'"
begin

lemma wr_ok: "wbuf_ok b \<Longrightarrow> wr x b = Some (n, b') \<Longrightarrow> wbuf_ok b'"
  using wr_extends wbuf_ok_extends by blast

end

text \<open>A writer that never faults on a well-formed packet.\<close>

locale safe_writer = packet_writer +
  assumes wr_returns: "wbuf_ok b \<Longrightarrow> wr x b \<noteq> None"
begin

lemma wr_total: "wbuf_ok b \<Longrightarrow> \<exists>n b'. wr x b = Some (n, b') \<and> extends b b' \<and> wbuf_ok b'"
  using wr_returns wr_extends wr_ok by (metis not_None_eq surj_pair)

end

lemma append_u8_cases:
  assumes "wbuf_ok (p, i)"
  shows "mdns_append_u8 (p, i) v = Some (if i < MDNS_MAX_PACKET_SIZE then (1, put p i [v], i + 1)
    else (0, p, i))"
  using assms by (simp add: wbuf_ok_def wire_simps)

lemma append_u16_cases:
  assumes "wbuf_ok (p, i)"
  shows "mdns_append_u16 (p, i) v = Some (if i + 1 < MDNS_MAX_PACKET_SIZE
    then (2, put p i (u16_bytes v), i + 2) else (0, p, i))"
  using assms by (simp add: wbuf_ok_def wire_simps)

lemma append_string_cases:
  assumes "wbuf_ok (p, i)"
  shows "mdns_append_string (p, i) s =
    Some (if i + length s mod 256 + 1 < MDNS_MAX_PACKET_SIZE
      then ((length s mod 256 + 1) mod 256, put p i (string_bytes s), i + length s mod 256 + 1)
      else (0, p, i))"
  using assms by (simp add: wbuf_ok_def wire_simps)

lemma append_type_cases:
  assumes "wbuf_ok (p, i)" "answer_rrtype type = Some t"
  shows "mdns_append_type (p, i) type flush ttl =
    Some (if i + 10 < MDNS_MAX_PACKET_SIZE then (10, put p i (type_bytes t flush ttl), i + 10)
      else (0, p, i))"
  using assms by (simp add: wbuf_ok_def wire_simps)

interpretation w8: safe_writer "\<lambda>v b. mdns_append_u8 b v"
  using extends_put [of _ "[v]" for v]
  by unfold_locales
    (auto simp: append_u8_cases wbuf_ok_refl wbuf_ok_def extends_refl split: if_splits)

interpretation w16: safe_writer "\<lambda>v b. mdns_append_u16 b v"
  using extends_put [of _ "u16_bytes v" for v]
  by unfold_locales
    (auto simp: append_u16_cases wbuf_ok_refl wbuf_ok_def extends_refl split: if_splits)

interpretation wstr: safe_writer "\<lambda>s b. mdns_append_string b s"
  using extends_put [of _ "string_bytes s" for s]
  by unfold_locales
    (auto simp: append_string_cases wbuf_ok_refl wbuf_ok_def extends_refl split: if_splits)

lemmas [eval_simps] = append_string_put append_u8_put append_u16_put append_u32_put append_type_put
  put_def string_bytes_def u16_bytes_def u32_bytes_def type_bytes_def answer_rrtype_def mdns_set_u16_def
  mdns_read_u16_def mdns_read_u32_def

section \<open>Reading back a record header\<close>

lemma read_put_u16:
  assumes "length bs = k + 2 + length cs" "bs = as @ u16_bytes v @ cs" "i + length bs \<le> length p"
  shows "mdns_read_u16 (put p i bs) (i + k) = Some v"
  using assms nth_put_mid [of k bs i p] nth_put_mid [of "k + 1" bs i p]
  by (simp add: read_u16_nth nth_append) (simp add: u16_bytes_def)

lemma read_put_u32:
  assumes "length bs = k + 4 + length cs" "bs = as @ u32_bytes v @ cs" "i + length bs \<le> length p"
  shows "mdns_read_u32 (put p i bs) (i + k) = Some v"
  using assms nth_put_mid [of k bs i p] nth_put_mid [of "k + 1" bs i p] nth_put_mid [of "k + 2" bs i p]
    nth_put_mid [of "k + 3" bs i p]
  by (simp add: mdns_read_u32_def load8_def nth_append add.assoc) (simp add: u32_bytes_def)

text \<open>the fixed fields of a record, as \<^verbatim>\<open>_mdns_append_type\<close> writes them, are what the parser reads
  at its offsets: the record type, the class with the cache-flush bit, the time to live and a length
  field of zero, which the record writers fill in later. Earlier bytes of the packet are untouched.\<close>

theorem append_type_read_back:
  assumes "length p = MDNS_MAX_PACKET_SIZE" "i + 10 < MDNS_MAX_PACKET_SIZE" "answer_rrtype type = Some t"
  shows "\<exists>q. mdns_append_type (p, i) type flush ttl = Some (10, q, i + 10) \<and> take i q = take i p \<and>
    mdns_read_u16 q i = Some t \<and>
    mdns_read_u16 q (i + 2) = Some (if flush then MDNS_CLASS_IN_FLUSH_CACHE else MDNS_CLASS_IN) \<and>
    mdns_read_u32 q (i + 4) = Some ttl \<and> mdns_read_u16 q (i + 8) = Some 0"
proof -
  let ?c = "u16_bytes (if flush then MDNS_CLASS_IN_FLUSH_CACHE else MDNS_CLASS_IN)"
  let ?q = "put p i (type_bytes t flush ttl)"
  have len: "i + length (type_bytes t flush ttl) \<le> length p" using assms(1,2) by simp
  have "mdns_read_u16 ?q i = Some t"
    using read_put_u16 [OF _ _ len, of 0 "?c @ u32_bytes ttl @ u16_bytes 0" "[]"] by (simp add: type_bytes_def)
  moreover have "mdns_read_u16 ?q (i + 2) = Some (if flush then MDNS_CLASS_IN_FLUSH_CACHE else MDNS_CLASS_IN)"
    by (rule read_put_u16 [OF _ _ len, of _ "u32_bytes ttl @ u16_bytes 0" "u16_bytes t"]) (simp_all add: type_bytes_def)
  moreover have "mdns_read_u32 ?q (i + 4) = Some ttl"
    by (rule read_put_u32 [OF _ _ len, of _ "u16_bytes 0" "u16_bytes t @ ?c"]) (simp_all add: type_bytes_def)
  moreover have "mdns_read_u16 ?q (i + 8) = Some 0"
    by (rule read_put_u16 [OF _ _ len, of _ "[]" "u16_bytes t @ ?c @ u32_bytes ttl"]) (simp_all add: type_bytes_def)
  ultimately show ?thesis
    using assms by (simp add: append_type_put)
qed

theorem append_type_read_back_witness:
  "\<exists>q. mdns_append_type (replicate 1460 0, 12) MDNS_ANSWER_SRV True 120 = Some (10, q, 22) \<and>
     mdns_read_u16 q 12 = Some MDNS_TYPE_SRV \<and> mdns_read_u32 q 16 = Some 120"
  using append_type_read_back [of "replicate 1460 0" 12 MDNS_ANSWER_SRV MDNS_TYPE_SRV True 120]
  by (auto simp: answer_rrtype_def)

end
