(* ===== verification/Mdns_Fqdn.thy ===== *)
theory Mdns_Fqdn
  imports Mdns_Wire
begin

text \<open>
  Domain names on the wire: \<^verbatim>\<open>_mdns_read_fqdn\<close>, \<^verbatim>\<open>_mdns_parse_fqdn\<close> and the compressing writer
  \<^verbatim>\<open>_mdns_append_fqdn\<close> of \<^verbatim>\<open>src/src/mdns.c\<close>. Reading a name follows compression pointers; the
  code accepts a pointer only if it leads before the start of the name being read, which is the
  termination argument of the recursion. A reader returns \<open>None\<close> if it reads outside the packet,
  and otherwise the offset behind the name (\<open>None\<close> for the null pointer the code returns on an
  error) and the name struct.
\<close>

section \<open>Reading a name\<close>

definition name_field :: "mdns_name_t \<Rightarrow> nat \<Rightarrow> cstring" where
  "name_field n i = (if i = 0 then n_host n else if i = 1 then n_service n
     else if i = 2 then n_proto n else n_domain n)"

definition name_set_field :: "mdns_name_t \<Rightarrow> nat \<Rightarrow> cstring \<Rightarrow> mdns_name_t" where
  "name_set_field n i s = (if i = 0 then n\<lparr>n_host := s\<rparr> else if i = 1 then n\<lparr>n_service := s\<rparr>
     else if i = 2 then n\<lparr>n_proto := s\<rparr> else n\<lparr>n_domain := s\<rparr>)"

text \<open>What the loop of \<^verbatim>\<open>_mdns_read_fqdn\<close> does with one label. Storing to a fifth name part
  would be out of bounds.\<close>

definition name_add_label :: "mdns_name_t \<Rightarrow> u8 list \<Rightarrow> mdns_name_t option" where
  "name_add_label name label =
     (let buf = cstr_of label in
      if n_parts name = 1 \<and> (buf = [] \<or> hd buf \<noteq> 0x5F) \<and>
         \<not> strcaseeq buf MDNS_DEFAULT_DOMAIN \<and> \<not> strcaseeq buf (lit ''ip6'') \<and>
         \<not> strcaseeq buf (lit ''in-addr'')
      then Some (name\<lparr>n_host := strlcat (strlcat (n_host name) (lit ''.'') MDNS_NAME_BUF_LEN)
                                  buf MDNS_NAME_BUF_LEN\<rparr>)
      else if strcaseeq buf MDNS_SUB_STR then Some (name\<lparr>n_sub := True\<rparr>)
      else if \<not> n_invalid name
      then if n_parts name < 4
           then Some ((name_set_field name (n_parts name) buf)\<lparr>n_parts := Suc (n_parts name)\<rparr>)
           else None
      else Some name)"

text \<open>The guard at the top of the loop.\<close>

definition name_mark :: "mdns_name_t \<Rightarrow> mdns_name_t" where
  "name_mark name = (if n_parts name = 4 then name\<lparr>n_invalid := True\<rparr> else name)"

definition ref_address :: "u8 \<Rightarrow> u8 \<Rightarrow> nat" where
  "ref_address len low = unat (push_bit 8 ((ucast len :: u32) AND 0x3F) OR ucast low)"

function mdns_read_labels ::
  "u8 list \<Rightarrow> nat \<Rightarrow> nat \<Rightarrow> mdns_name_t \<Rightarrow> (nat option \<times> mdns_name_t) option" where
  "mdns_read_labels packet start pos name = do {
     len \<leftarrow> load8 packet pos;
     if len = 0 then Some (Some (pos + 1), name)
     else let name1 = name_mark name in
       if len < 0xC0
       then if len > 63 then Some (None, name1)
            else do {
              label \<leftarrow> load_block packet (pos + 1) (unat len);
              name2 \<leftarrow> name_add_label name1 label;
              mdns_read_labels packet start (pos + 1 + unat len) name2
            }
       else do {
         low \<leftarrow> load8 packet (pos + 1);
         let address = ref_address len low;
         if address \<ge> start then Some (None, name1)
         else do {
           (r, name2) \<leftarrow> mdns_read_labels packet address address name1;
           Some (if r = None then None else Some (pos + 2), name2)
         }
       }
   }"
  by pat_completeness auto
termination
  by (relation "measures [\<lambda>(packet, start, pos, name). start, \<lambda>(packet, start, pos, name). length packet - pos]")
    (auto simp: load8_Some_iff)

declare mdns_read_labels.simps [simp del]

definition mdns_read_fqdn ::
  "u8 list \<Rightarrow> nat \<Rightarrow> mdns_name_t \<Rightarrow> (nat option \<times> mdns_name_t) option" where
  "mdns_read_fqdn packet start name = mdns_read_labels packet start start name"

text \<open>The name struct as the callers of \<^verbatim>\<open>_mdns_read_fqdn\<close> initialise it.\<close>

definition name_init :: "bool \<Rightarrow> mdns_name_t" where
  "name_init invalid = \<lparr>n_host = [], n_service = [], n_proto = [], n_domain = [], n_parts = 0,
     n_sub = False, n_invalid = invalid\<rparr>"

text \<open>The rearrangement of the parts at the end of \<^verbatim>\<open>_mdns_parse_fqdn\<close>.\<close>

definition name_format :: "mdns_name_t \<Rightarrow> mdns_name_t" where
  "name_format name =
     (if n_parts name = 3
      then name\<lparr>n_host := [], n_service := n_host name, n_proto := n_service name,
                n_domain := n_proto name\<rparr>
      else if n_parts name = 2
      then name\<lparr>n_domain := n_service name, n_service := [], n_proto := []\<rparr>
      else name)"

definition mdns_parse_fqdn :: "u8 list \<Rightarrow> nat \<Rightarrow> (nat option \<times> mdns_name_t) option" where
  "mdns_parse_fqdn packet start = do {
     (next_data, name) \<leftarrow> mdns_read_fqdn packet start (name_init False);
     if next_data = None then Some (None, name)
     else if n_parts name = 0 \<or> n_invalid name then Some (next_data, name)
     else let name1 = name_format name in
       if strcaseeq (n_domain name1) MDNS_DEFAULT_DOMAIN \<or>
          strcaseeq (n_domain name1) (lit ''arpa'')
       then Some (next_data, name1)
       else Some (None, name1)
   }"

section \<open>Appending a name\<close>

text \<open>The search loop of \<^verbatim>\<open>_mdns_append_fqdn\<close>: it tries every occurrence of the length byte
  before the write offset. \<open>Unreadable\<close> is the early \<open>return 0\<close>.\<close>

datatype fqdn_lookup = Unreadable | Not_found | Found nat

function mdns_find_fqdn ::
  "u8 list \<Rightarrow> nat \<Rightarrow> cstring list \<Rightarrow> mdns_name_t \<Rightarrow> nat \<Rightarrow> fqdn_lookup option" where
  "mdns_find_fqdn packet index strings name from =
     (let len = length (hd strings) mod 256 in
      case memchr packet (of_nat len) from index of
        None \<Rightarrow> Some Not_found
      | Some loc \<Rightarrow> do {
          block \<leftarrow> load_block packet (loc + 1) len;
          if memcmp block (take len (hd strings)) \<noteq> 0
          then mdns_find_fqdn packet index strings name (loc + 1)
          else do {
            (content, name1) \<leftarrow> mdns_read_fqdn packet loc (name_init (n_invalid name));
            if content = None then Some Unreadable
            else if n_parts name1 = length strings \<and>
                    (\<forall>i \<in> set [0..<length strings]. strcaseeq (strings ! i) (name_field name1 i))
            then Some (Found loc)
            else mdns_find_fqdn packet index strings name1 (loc + 1)
          }
        })"
  by pat_completeness auto
termination
  by (relation "measure (\<lambda>(packet, index, strings, name, from). index - from)")
    (auto dest: memchr_progress)

declare mdns_find_fqdn.simps [simp del]

fun mdns_append_fqdn ::
  "(u8 list \<Rightarrow> nat \<Rightarrow> cstring list \<Rightarrow> bool) \<Rightarrow> wbuf \<Rightarrow> cstring list \<Rightarrow> (nat \<times> wbuf) option" where
  "mdns_append_fqdn jnk b [] = mdns_append_u8 b 0"
| "mdns_append_fqdn jnk (packet, index) (s # ss) = do {
     r \<leftarrow> mdns_find_fqdn packet index (s # ss) (name_init (jnk packet index (s # ss))) 0;
     case r of
       Unreadable \<Rightarrow> Some (0, packet, index)
     | Not_found \<Rightarrow> do {
         (written, b1) \<leftarrow> mdns_append_string (packet, index) s;
         if written = 0 then Some (0, b1)
         else do {
           (n, b2) \<leftarrow> mdns_append_fqdn jnk b1 ss;
           Some ((written + n) mod 65536, b2)
         }
       }
     | Found loc \<Rightarrow> mdns_append_u16 (packet, index) (of_nat loc OR MDNS_NAME_REF)
   }"

section \<open>The name struct stays within its buffers\<close>

definition name_ok :: "mdns_name_t \<Rightarrow> bool" where
  "name_ok n \<longleftrightarrow> n_parts n \<le> 4 \<and> (\<forall>i < 4. cstr_ok (name_field n i)) \<and>
     (\<forall>i < 4. length (name_field n i) < MDNS_NAME_BUF_LEN)"

lemma name_field_set:
  "i < 4 \<Longrightarrow> j < 4 \<Longrightarrow> name_field (name_set_field n i s) j = (if j = i then s else name_field n j)"
  by (auto simp: name_field_def name_set_field_def)

lemma name_field_simps [simp]:
  "name_field (n\<lparr>n_parts := k\<rparr>) j = name_field n j"
  "name_field (n\<lparr>n_invalid := b\<rparr>) j = name_field n j"
  "name_field (n\<lparr>n_sub := c\<rparr>) j = name_field n j"
  by (simp_all add: name_field_def)

lemma name_field_host: "name_field (n\<lparr>n_host := s\<rparr>) j = (if j = 0 then s else name_field n j)"
  by (simp add: name_field_def)

lemma name_ok_init [simp]: "name_ok (name_init b)"
  by (simp add: name_ok_def name_init_def name_field_def cstr_ok_def)

lemma name_ok_invalid [simp]: "name_ok (n\<lparr>n_invalid := b\<rparr>) = name_ok n"
  by (simp add: name_ok_def)

lemma name_set_field_sel [simp]:
  "n_parts (name_set_field n i s) = n_parts n"
  "n_sub (name_set_field n i s) = n_sub n"
  "n_invalid (name_set_field n i s) = n_invalid n"
  by (simp_all add: name_set_field_def)

lemma cstr_ok_dot: "cstr_ok (lit ''.'')"
  by (simp add: cstr_ok_def lit_def)

lemma name_add_label_ok:
  assumes "name_ok name" "name_add_label name label = Some name'" "length label \<le> 63"
  shows "name_ok name'"
proof -
  have b: "length (cstr_of label) < MDNS_NAME_BUF_LEN"
    using length_cstr_of [of label] assms(3) by simp
  have h: "length (n_host name) < MDNS_NAME_BUF_LEN" "cstr_ok (n_host name)"
    using assms(1) unfolding name_ok_def by (force simp: name_field_def [of name 0])+
  let ?h = "strlcat (strlcat (n_host name) (lit ''.'') MDNS_NAME_BUF_LEN) (cstr_of label) MDNS_NAME_BUF_LEN"
  have h': "length ?h < MDNS_NAME_BUF_LEN" "cstr_ok ?h"
    using h length_strlcat strlcat_ok cstr_ok_dot by (blast, meson cstr_of_ok)
  show ?thesis
    using assms b h'
    by (auto simp: name_add_label_def name_ok_def Let_def name_field_host name_field_set
        split: if_splits)
qed

text \<open>The guard at the top of the loop keeps the store within the four name parts.\<close>

lemma name_add_label_returns:
  "n_parts name \<le> 4 \<Longrightarrow> n_parts name = 4 \<longrightarrow> n_invalid name \<Longrightarrow>
   name_add_label name label \<noteq> None"
  by (auto simp: name_add_label_def Let_def)

lemma label_len_simps:
  "(x :: u8) \<le> 63 \<Longrightarrow> x < 0xC0" "x \<le> 63 \<Longrightarrow> \<not> 63 < x" "0xC0 \<le> x \<Longrightarrow> x \<noteq> 0"
  "0xC0 \<le> x \<Longrightarrow> \<not> x < 0xC0" "63 < x \<Longrightarrow> x \<noteq> 0"
  by (auto simp: word_le_nat_alt word_less_nat_alt)

section \<open>The runs of the reader\<close>

text \<open>One rule for each way through the loop of \<^verbatim>\<open>_mdns_read_fqdn\<close> that stays inside the packet.\<close>

inductive reads ::
  "u8 list \<Rightarrow> nat \<Rightarrow> nat \<Rightarrow> mdns_name_t \<Rightarrow> nat option \<Rightarrow> mdns_name_t \<Rightarrow> bool" for packet where
  finish: "load8 packet pos = Some 0 \<Longrightarrow> reads packet start pos name (Some (pos + 1)) name"
| too_long: "load8 packet pos = Some len \<Longrightarrow> 63 < len \<Longrightarrow> len < 0xC0 \<Longrightarrow>
    reads packet start pos name None (name_mark name)"
| label: "load8 packet pos = Some len \<Longrightarrow> len \<noteq> 0 \<Longrightarrow> len \<le> 63 \<Longrightarrow>
    load_block packet (pos + 1) (unat len) = Some label \<Longrightarrow>
    name_add_label (name_mark name) label = Some name2 \<Longrightarrow>
    reads packet start (pos + 1 + unat len) name2 r name' \<Longrightarrow>
    reads packet start pos name r name'"
| bad_ref: "load8 packet pos = Some len \<Longrightarrow> 0xC0 \<le> len \<Longrightarrow> load8 packet (pos + 1) = Some low \<Longrightarrow>
    start \<le> ref_address len low \<Longrightarrow> reads packet start pos name None (name_mark name)"
| follow_ref: "load8 packet pos = Some len \<Longrightarrow> 0xC0 \<le> len \<Longrightarrow>
    load8 packet (pos + 1) = Some low \<Longrightarrow> ref_address len low < start \<Longrightarrow>
    reads packet (ref_address len low) (ref_address len low) (name_mark name) r name' \<Longrightarrow>
    reads packet start pos name (map_option (\<lambda>_. pos + 2) r) name'"

lemma read_labels_reads:
  "mdns_read_labels packet start pos name = Some (r, name') \<Longrightarrow> reads packet start pos name r name'"
proof (induction packet start pos name arbitrary: r name' rule: mdns_read_labels.induct)
  case (1 packet start pos name)
  from 1(3) obtain len where len: "load8 packet pos = Some len"
    by (subst (asm) mdns_read_labels.simps) (auto split: bind_splits)
  note ret = 1(3) [unfolded mdns_read_labels.simps [of packet start pos name] len Let_def, simplified]
  consider "len = 0" | "63 < len" "len < 0xC0" | "len \<noteq> 0" "len \<le> 63" | "0xC0 \<le> len"
    by (meson not_le)
  then show ?case
  proof cases
    case 3
    then have c: "len < 0xC0" "\<not> 63 < len" by (simp_all add: label_len_simps)
    with 3 ret obtain label name2 where l: "load_block packet (pos + 1) (unat len) = Some label"
      and n2: "name_add_label (name_mark name) label = Some name2"
      and rec: "mdns_read_labels packet start (pos + 1 + unat len) name2 = Some (r, name')"
      by (auto split: bind_splits)
    show ?thesis
      by (rule reads.label [OF len 3 l n2]) (rule 1(1) [OF len 3(1) refl c l n2 rec])
  next
    case 4
    then have c: "\<not> len < 0xC0" "len \<noteq> 0" by (simp_all add: label_len_simps)
    with ret obtain low where low: "load8 packet (pos + 1) = Some low"
      by (auto split: bind_splits)
    show ?thesis
    proof (cases "start \<le> ref_address len low")
      case True
      with c ret low 4 len show ?thesis by (auto intro: reads.bad_ref)
    next
      case False
      with c ret low obtain r2 where
        rec: "mdns_read_labels packet (ref_address len low) (ref_address len low) (name_mark name) =
          Some (r2, name')" and r: "r = map_option (\<lambda>_. pos + 2) r2"
        by (cases "mdns_read_labels packet (ref_address len low) (ref_address len low) (name_mark name)")
          (auto split: if_splits)
      have "reads packet (ref_address len low) (ref_address len low) (name_mark name) r2 name'"
        using 1(2) [OF len _ refl _ low refl _ rec] c False by auto
      with 4 len low False show ?thesis
        unfolding r by (intro reads.follow_ref) auto
    qed
  next
    case 1
    with ret len reads.finish [of packet pos start name] show ?thesis by simp
  next
    case 2
    with ret len reads.too_long [OF len] show ?thesis by (auto simp: label_len_simps)
  qed
qed

lemma reads_read_labels:
  "reads packet start pos name r name' \<Longrightarrow> mdns_read_labels packet start pos name = Some (r, name')"
proof (induction rule: reads.induct)
  case (follow_ref pos len low start name r name')
  then show ?case
    by (cases r) (subst mdns_read_labels.simps, simp add: Let_def label_len_simps)+
qed (subst mdns_read_labels.simps, simp add: Let_def label_len_simps)+

lemma read_labels_iff:
  "mdns_read_labels packet start pos name = Some (r, name') \<longleftrightarrow> reads packet start pos name r name'"
  using read_labels_reads reads_read_labels by blast

lemma name_ok_mark [simp]: "name_ok (name_mark name) = name_ok name"
  by (simp add: name_mark_def)

lemma reads_name_ok: "reads packet start pos name r name' \<Longrightarrow> name_ok name \<Longrightarrow> name_ok name'"
proof (induction rule: reads.induct)
  case (label pos len label name name2 start r name')
  have "length label \<le> 63"
    using length_load_block [OF label(4)] label(3) by (simp add: word_le_nat_alt)
  with label name_add_label_ok show ?case by (metis name_ok_mark)
qed simp_all

lemma reads_offset:
  "reads packet start pos name r name' \<Longrightarrow> r = Some q \<Longrightarrow> pos < q \<and> q \<le> length packet"
  by (induction arbitrary: q rule: reads.induct) (auto simp: load8_Some_iff)

lemma parse_fqdn_offset:
  assumes "mdns_parse_fqdn packet start = Some (Some q, name)"
  shows "start < q" "q \<le> length packet"
  using assms
  by (auto simp: mdns_parse_fqdn_def mdns_read_fqdn_def read_labels_iff Let_def
      split: bind_splits if_splits dest!: reads_offset)

lemmas [eval_simps] = mdns_find_fqdn.simps mdns_read_fqdn_def mdns_read_labels.simps name_init_def
  name_mark_def name_add_label_def name_set_field_def name_field_def ref_address_def
  MDNS_SUB_STR_def MDNS_DEFAULT_DOMAIN_def

end
