(* ===== verification/Mdns_Names.thy ===== *)
theory Mdns_Names
  imports Mdns_Fqdn
begin

unbundle bit_operations_syntax

text \<open>
  What the readers and the writer of domain names guarantee. A successful run of the reader is
  described by the labels it visits (\<open>labels_at\<close>) and by what they do to the list of name parts
  (\<open>add_part\<close>), which abstracts from the name struct; the writer is then shown to leave bytes with
  the right labels.
\<close>

section \<open>The labels of a name\<close>

text \<open>The labels that a successful run of the reader visits, and the offset behind the name.\<close>

inductive labels_at :: "u8 list \<Rightarrow> nat \<Rightarrow> nat \<Rightarrow> cstring list \<Rightarrow> nat \<Rightarrow> bool" for packet where
  at_end: "load8 packet pos = Some 0 \<Longrightarrow> labels_at packet start pos [] (pos + 1)"
| at_label: "load8 packet pos = Some len \<Longrightarrow> len \<noteq> 0 \<Longrightarrow> len \<le> 63 \<Longrightarrow>
    load_block packet (pos + 1) (unat len) = Some label \<Longrightarrow>
    labels_at packet start (pos + 1 + unat len) ls q \<Longrightarrow>
    labels_at packet start pos (cstr_of label # ls) q"
| at_ref: "load8 packet pos = Some len \<Longrightarrow> 0xC0 \<le> len \<Longrightarrow>
    load8 packet (pos + 1) = Some low \<Longrightarrow> ref_address len low < start \<Longrightarrow>
    labels_at packet (ref_address len low) (ref_address len low) ls q \<Longrightarrow>
    labels_at packet start pos ls (pos + 2)"

text \<open>A second label that is neither a service label nor a known domain is joined to the host
  name.\<close>

definition glued :: "cstring \<Rightarrow> bool" where
  "glued l \<longleftrightarrow> (l = [] \<or> hd l \<noteq> 0x5F) \<and> \<not> strcaseeq l MDNS_DEFAULT_DOMAIN \<and>
     \<not> strcaseeq l (lit ''ip6'') \<and> \<not> strcaseeq l (lit ''in-addr'')"

definition glue :: "cstring \<Rightarrow> cstring \<Rightarrow> cstring" where
  "glue h l = strlcat (strlcat h (lit ''.'') MDNS_NAME_BUF_LEN) l MDNS_NAME_BUF_LEN"

text \<open>What a label does to the list of name parts.\<close>

definition add_part :: "cstring list \<Rightarrow> cstring \<Rightarrow> cstring list" where
  "add_part ps l = (if length ps = 1 \<and> glued l then [glue (hd ps) l]
     else if strcaseeq l MDNS_SUB_STR then ps
     else if length ps < 4 then ps @ [l] else ps)"

definition name_parts :: "mdns_name_t \<Rightarrow> cstring list" where
  "name_parts n = map (name_field n) [0..<n_parts n]"

text \<open>Name structs that the reader can reach from the initial one.\<close>

definition name_wf :: "mdns_name_t \<Rightarrow> bool" where
  "name_wf n \<longleftrightarrow> n_parts n \<le> 4 \<and> (n_invalid n \<longrightarrow> n_parts n = 4)"

lemma length_name_parts [simp]: "length (name_parts n) = n_parts n"
  by (simp add: name_parts_def)

lemma name_wf_mark [simp]: "name_wf n \<Longrightarrow> name_wf (name_mark n)"
  by (simp add: name_wf_def name_mark_def)

lemma name_parts_mark [simp]: "name_parts (name_mark n) = name_parts n"
  by (simp add: name_parts_def name_mark_def)

lemma n_parts_mark [simp]: "n_parts (name_mark n) = n_parts n"
  by (simp add: name_mark_def)

lemma name_wf_init [simp]: "name_wf (name_init False)"
  by (simp add: name_wf_def name_init_def)

lemma name_parts_init [simp]: "name_parts (name_init b) = []"
  by (simp add: name_parts_def name_init_def)

lemma name_parts_1: "n_parts n = 1 \<Longrightarrow> name_parts n = [n_host n]"
  by (simp add: name_parts_def name_field_def)

lemma name_parts_snoc:
  assumes "n_parts n < 4"
  shows "name_parts ((name_set_field n (n_parts n) l)\<lparr>n_parts := Suc (n_parts n)\<rparr>) = name_parts n @ [l]"
  using assms by (auto simp: name_parts_def name_field_set)

lemma add_label_parts:
  assumes "name_wf n"
  shows "\<exists>n'. name_add_label (name_mark n) label = Some n' \<and> name_wf n' \<and>
    name_parts n' = add_part (name_parts n) (cstr_of label)"
proof -
  consider "n_parts n = 4" | "n_parts n < 4" "n_parts n = 1" "glued (cstr_of label)"
    | "n_parts n < 4" "\<not> (n_parts n = 1 \<and> glued (cstr_of label))"
    using assms by (force simp: name_wf_def)
  then show ?thesis
  proof cases
    case 1
    then show ?thesis
      by (simp add: name_add_label_def name_mark_def Let_def add_part_def name_wf_def name_parts_def)
  next
    case 2
    with assms show ?thesis
      by (simp add: name_add_label_def name_mark_def Let_def add_part_def name_wf_def glued_def
          name_parts_1 glue_def)
  next
    case 3
    then have "\<not> n_invalid n"
      using assms by (simp add: name_wf_def)
    with 3 show ?thesis
      by (auto simp: name_add_label_def name_mark_def Let_def add_part_def name_wf_def glued_def
          name_parts_snoc) (simp_all add: name_parts_def)
  qed
qed

lemma labels_reads:
  assumes "labels_at packet start pos ls q" "name_wf n"
  shows "\<exists>n'. reads packet start pos n (Some q) n' \<and> name_parts n' = foldl add_part (name_parts n) ls"
  using assms
proof (induction arbitrary: n rule: labels_at.induct)
  case (at_end pos start)
  then show ?case using reads.finish by fastforce
next
  case (at_label pos len label start ls q)
  obtain n1 where n1: "name_add_label (name_mark n) label = Some n1" "name_wf n1"
    "name_parts n1 = add_part (name_parts n) (cstr_of label)"
    using add_label_parts [OF at_label.prems] by blast
  obtain n' where "reads packet start (pos + 1 + unat len) n1 (Some q) n'"
    "name_parts n' = foldl add_part (name_parts n1) ls"
    using at_label.IH [OF n1(2)] by blast
  then show ?case
    using reads.label [OF at_label.hyps(1-4) n1(1)] n1(3) by auto
next
  case (at_ref pos len low start ls q)
  obtain n' where "reads packet (ref_address len low) (ref_address len low) (name_mark n) (Some q) n'"
    "name_parts n' = foldl add_part (name_parts n) ls"
    using at_ref.IH [of "name_mark n"] at_ref.prems by auto
  then show ?case
    using reads.follow_ref [OF at_ref.hyps(1-4)] by fastforce
qed

lemma reads_labels:
  assumes "reads packet start pos n r n'" "r = Some q"
  shows "\<exists>ls. labels_at packet start pos ls q"
  using assms
proof (induction arbitrary: q rule: reads.induct)
  case (finish pos start name)
  then show ?case using labels_at.at_end by fastforce
next
  case (label pos len label name name2 start r name')
  then show ?case using labels_at.at_label by blast
next
  case (follow_ref pos len low start name r name')
  then show ?case using labels_at.at_ref by fastforce
qed simp_all

lemma reads_fun: "reads p s a n r1 n1 \<Longrightarrow> reads p s a n r2 n2 \<Longrightarrow> r1 = r2 \<and> n1 = n2"
  unfolding read_labels_iff [symmetric] by simp

lemma labels_of_reads:
  assumes "reads packet start pos n (Some q) n'" "name_wf n"
  shows "\<exists>ls. labels_at packet start pos ls q \<and> name_parts n' = foldl add_part (name_parts n) ls"
  using reads_labels [OF assms(1) refl] labels_reads [OF _ assms(2)] reads_fun [OF assms(1)] by blast

text \<open>With the flag for invalid names set from the start the reader stores nothing.\<close>

lemma reads_invalid:
  "reads packet start pos n r n' \<Longrightarrow> n_invalid n \<Longrightarrow> n_parts n = 0 \<Longrightarrow> n_parts n' = 0"
  by (induction rule: reads.induct)
    (auto simp: name_mark_def name_add_label_def Let_def split: if_splits)

lemma foldl_add_hd:
  "ps \<noteq> [] \<Longrightarrow> length (hd ps) < MDNS_NAME_BUF_LEN \<Longrightarrow>
   foldl add_part ps ls \<noteq> [] \<and> length (hd ps) \<le> length (hd (foldl add_part ps ls)) \<and>
   length (hd (foldl add_part ps ls)) < MDNS_NAME_BUF_LEN \<and> length ps \<le> length (foldl add_part ps ls)"
proof (induction ls arbitrary: ps)
  case (Cons l ls)
  have "add_part ps l \<noteq> []" "length (hd (add_part ps l)) < MDNS_NAME_BUF_LEN"
    "length (hd ps) \<le> length (hd (add_part ps l))" "length ps \<le> length (add_part ps l)"
    using Cons.prems by (auto simp: add_part_def glue_def strlcat_def min_def)
  then show ?case
    using Cons.IH [of "add_part ps l"] by force
qed simp

text \<open>A part that is joined to the host name makes it longer.\<close>

lemma length_glue: "length h < 64 \<Longrightarrow> length h < length (glue h l)"
  by (auto simp: glue_def strlcat_def)

lemma foldl_add_append:
  assumes "ps \<noteq> []" "pre \<noteq> []" "length (hd ps) < 64"
    "length (hd (foldl add_part ps ls)) = length (hd ps)"
    "length pre + length (foldl add_part ps ls) \<le> 4"
  shows "foldl add_part (pre @ ps) ls = pre @ foldl add_part ps ls"
  using assms
proof (induction ls arbitrary: ps)
  case (Cons l ls)
  note grow = foldl_add_hd [of "add_part ps l" ls]
  have "\<not> (length ps = 1 \<and> glued l)"
  proof
    assume g: "length ps = 1 \<and> glued l"
    then have a: "add_part ps l = [glue (hd ps) l]"
      by (simp add: add_part_def)
    have "length (glue (hd ps) l) < MDNS_NAME_BUF_LEN"
      using Cons.prems(3) by (auto simp: glue_def strlcat_def)
    with grow a length_glue [OF Cons.prems(3), of l] Cons.prems(4) show False by simp
  qed
  moreover from this have hd: "hd (add_part ps l) = hd ps"
    using Cons.prems(1) by (auto simp: add_part_def)
  moreover have ne: "add_part ps l \<noteq> []"
    using Cons.prems(1) by (auto simp: add_part_def)
  moreover have "length pre + length (add_part ps l) \<le> 4"
    using grow ne hd Cons.prems(3,5) by simp
  ultimately have "add_part (pre @ ps) l = pre @ add_part ps l"
    using Cons.prems(1,2) by (cases pre; cases ps) (auto simp: add_part_def split: if_splits)
  then show ?case
    using Cons.IH [OF ne Cons.prems(2)] hd Cons.prems by simp
qed simp

text \<open>Labels as hosts and services have them: short and without control characters.\<close>

definition label_ok :: "cstring \<Rightarrow> bool" where
  "label_ok s \<longleftrightarrow> s \<noteq> [] \<and> length s < 32 \<and> (\<forall>c\<in>set s. 32 \<le> c) \<and> \<not> strcaseeq s MDNS_SUB_STR"

lemma label_ok_cstr: "label_ok s \<Longrightarrow> cstr_of s = s"
  by (rule cstr_of_id) (force simp: label_ok_def cstr_ok_def)

definition enc_labels :: "cstring list \<Rightarrow> u8 list" where
  "enc_labels ls = concat (map string_bytes ls)"

lemma string_bytes_ok: "label_ok s \<Longrightarrow> string_bytes s = of_nat (length s) # s"
  by (simp add: string_bytes_def label_ok_def)

lemma unat_of_nat_u8: "n < 256 \<Longrightarrow> unat (of_nat n :: u8) = n"
  by (simp add: unat_of_nat take_bit_eq_mod)

lemma of_nat_u8_inj: "m < 256 \<Longrightarrow> n < 256 \<Longrightarrow> (of_nat m :: u8) = of_nat n \<longleftrightarrow> m = n"
  using unat_of_nat_u8 by metis

text \<open>Among the bytes of written labels only a label itself is preceded by its length.\<close>

lemma enc_labels_find:
  assumes "\<forall>t\<in>set pre. label_ok t" "label_ok s" "k < length (enc_labels pre)"
    "enc_labels pre ! k = of_nat (length s)"
    "take (length s) (drop (Suc k) (enc_labels pre @ rest)) = s"
  shows "s \<in> set pre"
  using assms
proof (induction pre arbitrary: k)
  case (Cons t pre)
  have t: "label_ok t" and e: "enc_labels (t # pre) = of_nat (length t) # t @ enc_labels pre"
    using Cons.prems(1) by (simp_all add: enc_labels_def string_bytes_ok)
  consider "k = 0" | k' where "k = Suc k'" "k' < length t"
    | k' where "k = Suc (length t + k')"
    by (metis add_Suc_right not0_implies_Suc not_less le_iff_add add_Suc)
  then show ?case
  proof cases
    case 1
    with Cons.prems(4) e have "length t = length s"
      using t \<open>label_ok s\<close> by (simp add: of_nat_u8_inj label_ok_def)
    with 1 Cons.prems(5) e show ?thesis by simp
  next
    case (2 k')
    then have "t ! k' = of_nat (length s)"
      using Cons.prems(4) e by (simp add: nth_append)
    moreover have "32 \<le> t ! k'"
      using t 2 by (simp add: label_ok_def)
    moreover have "(of_nat (length s) :: u8) < 32"
      using \<open>label_ok s\<close> by (simp add: label_ok_def word_less_nat_alt unat_of_nat_u8)
    ultimately show ?thesis by simp
  next
    case (3 k')
    then show ?thesis
      using Cons.IH [of k'] Cons.prems e by (simp add: nth_append)
  qed
qed (simp add: enc_labels_def)

text \<open>The search loop stops at an occurrence of the first label that is the start of the name sought
  (\<open>Found\<close>) or of a name that cannot be read (\<open>Unreadable\<close>).\<close>

definition fqdn_match :: "cstring list \<Rightarrow> mdns_name_t \<Rightarrow> bool" where
  "fqdn_match ss n \<longleftrightarrow>
     n_parts n = length ss \<and> (\<forall>k < length ss. strcaseeq (ss ! k) (name_field n k))"

definition label_here :: "u8 list \<Rightarrow> nat \<Rightarrow> cstring \<Rightarrow> bool" where
  "label_here p loc s \<longleftrightarrow> p ! loc = of_nat (length s mod 256) \<and>
     load_block p (loc + 1) (length s mod 256) = Some (take (length s mod 256) s)"

lemma find_fqdn_hit:
  assumes "mdns_find_fqdn p i ss nm from = Some r" "r \<noteq> Not_found"
  shows "\<exists>loc b c n. loc < i \<and> label_here p loc (hd ss) \<and>
    mdns_read_fqdn p loc (name_init b) = Some (c, n) \<and>
    (r = Unreadable \<and> c = None \<or> r = Found loc \<and> c \<noteq> None \<and> fqdn_match ss n)"
  using assms
proof (induction p i ss nm "from" rule: mdns_find_fqdn.induct)
  case (1 p i ss nm "from")
  let ?l = "length (hd ss) mod 256"
  let ?ok = "\<lambda>n. n_parts n = length ss \<and>
    (\<forall>j \<in> set [0..<length ss]. strcaseeq (ss ! j) (name_field n j))"
  note run = "1.prems"(1) [unfolded mdns_find_fqdn.simps [of p i ss nm "from"] Let_def]
  obtain k where k: "memchr p (of_nat ?l) from i = Some k"
    using run "1.prems"(2) by (auto split: option.splits)
  obtain bl where bl: "load_block p (k + 1) ?l = Some bl"
    using run k by (auto split: bind_splits)
  show ?case
  proof (cases "memcmp bl (take ?l (hd ss)) = 0")
    case False
    with run k bl "1.IH"(1) [OF refl k bl False] "1.prems"(2) show ?thesis by simp
  next
    case True
    then have here: "label_here p k (hd ss)"
      using bl memchr_Some [OF k] length_load_block [OF bl]
        memcmp_eq_0_iff [of bl "take ?l (hd ss)"] by (simp add: label_here_def)
    obtain c n1 where r: "mdns_read_fqdn p k (name_init (n_invalid nm)) = Some (c, n1)"
      using run k bl True by (auto split: bind_splits)
    show ?thesis
    proof (cases "c = None \<or> ?ok n1")
      case stop: True
      then have "r = Unreadable \<and> c = None \<or> r = Found k \<and> c \<noteq> None \<and> fqdn_match ss n1"
        using run k bl True r by (auto simp: fqdn_match_def split: if_splits)
      with here r memchr_Some [OF k] show ?thesis by blast
    next
      case go: False
      then have "mdns_find_fqdn p i ss n1 (k + 1) = Some r"
        using run k bl True r by (auto split: if_splits)
      from "1.IH"(2) [OF refl k bl _ r _ _ _ this "1.prems"(2)] go True show ?thesis by blast
    qed
  qed
qed

lemma bit_low: "loc < 2 ^ 14 \<Longrightarrow> bit (loc :: nat) n \<Longrightarrow> n < 14"
  by (metis bit_take_bit_iff not_less take_bit_nat_eq_self_iff)

lemma ref_bytes:
  assumes "loc < 2 ^ 14"
  defines "v \<equiv> (of_nat loc OR 0xC000 :: u16)"
  shows "0xC0 \<le> (ucast (drop_bit 8 v) :: u8)" "ref_address (ucast (drop_bit 8 v)) (ucast v) = loc"
proof -
  have c: "(0xC000 :: u16) = push_bit 14 (mask 2)" "(0x3F :: u32) = mask 6"
    by (simp_all add: mask_eq_exp_minus_1 push_bit_eq_mult)
  have "(of_nat loc :: u16) AND 0xC000 = 0"
    by (rule bit_word_eqI) (auto simp: c bit_simps dest: bit_low [OF assms(1)])
  then have v: "v = of_nat (loc + 0xC000)"
    unfolding v_def by (metis disjunctive_add_eq_or of_nat_add of_nat_numeral)
  have uv: "unat v = loc + 0xC000"
    unfolding v using assms(1) by (simp only: unat_of_nat take_bit_eq_mod) simp
  have "unat (ucast (drop_bit 8 v) :: u8) = (loc + 0xC000) div 256"
    using assms(1)
    by (simp only: unsigned_ucast_eq unat_drop_bit_eq uv take_bit_eq_mod) (simp add: drop_bit_eq_div)
  then show "0xC0 \<le> (ucast (drop_bit 8 v) :: u8)"
    by (simp add: word_le_nat_alt)
  have "push_bit 8 ((ucast (ucast (drop_bit 8 v) :: u8) :: u32) AND 0x3F) OR ucast (ucast v :: u8) =
      (of_nat loc :: u32)"
    unfolding v_def c
    by (rule bit_word_eqI) (auto simp: bit_simps dest: bit_low [OF assms(1)])
  then show "ref_address (ucast (drop_bit 8 v)) (ucast v) = loc"
    using assms(1) by (simp add: ref_address_def unat_of_nat take_bit_eq_mod)
qed

text \<open>Every occurrence of one of the labels in the bytes written so far starts a name that ends
  there: the bytes behind do not matter.\<close>

definition names_complete :: "u8 list \<Rightarrow> cstring list \<Rightarrow> bool" where
  "names_complete b ss \<longleftrightarrow> (\<forall>loc l r. loc < length b \<longrightarrow> l \<in> set ss \<longrightarrow>
     take (Suc (length l)) (drop loc (b @ r)) = string_bytes l \<longrightarrow>
     (\<exists>ls q. \<forall>r'. length r' = length r \<longrightarrow> labels_at (b @ r') loc loc (l # ls) q))"

lemma names_completeD:
  assumes "names_complete b ss" "loc < length b" "l \<in> set ss" "label_ok l" "take (length b) p = b"
    "p ! loc = of_nat (length l)" "load_block p (loc + 1) (length l) = Some l"
  obtains ls q where
    "\<And>p'. length p' = length p \<Longrightarrow> take (length b) p' = b \<Longrightarrow> labels_at p' loc loc (l # ls) q"
proof -
  have p: "b @ drop (length b) p' = p'" if "take (length b) p' = b" for p'
    using append_take_drop_id [of "length b" p'] that by simp
  have "loc < length p"
    using assms(7) by (auto simp: load_block_def split: if_splits)
  then have "take (Suc (length l)) (drop loc (b @ drop (length b) p)) = string_bytes l"
    using assms(6,7) unfolding p [OF assms(5)] string_bytes_ok [OF assms(4)]
    by (simp add: Cons_nth_drop_Suc [symmetric] load_block_def split: if_splits)
  with assms(1-3) obtain ls q where
    "\<forall>r'. length r' = length (drop (length b) p) \<longrightarrow> labels_at (b @ r') loc loc (l # ls) q"
    unfolding names_complete_def by blast
  then show ?thesis
    using that p by (metis length_drop)
qed

fun fqdn_room :: "cstring list \<Rightarrow> nat" where
  "fqdn_room [] = 1"
| "fqdn_room (s # ss) = 1 + length s + fqdn_room ss"

lemma fqdn_room_pos: "0 < fqdn_room ss"
  by (cases ss) simp_all

text \<open>The names that the responder writes: at most four parts, no part twice, the second part a
  service label or a domain.\<close>

definition fqdn_ok :: "cstring list \<Rightarrow> bool" where
  "fqdn_ok ss \<longleftrightarrow> length ss \<le> 4 \<and> distinct ss \<and> (\<forall>s\<in>set ss. label_ok s) \<and>
     (2 \<le> length ss \<longrightarrow> \<not> glued (ss ! 1))"

lemma add_part_next:
  assumes "fqdn_ok (pre @ s # ss)"
  shows "add_part pre s = pre @ [s]"
  using assms by (auto simp: fqdn_ok_def add_part_def label_ok_def nth_append)

lemma take_prefix: "take i p = b @ x \<Longrightarrow> take (length b) p = b"
  by (metis append_eq_conv_conj append_take_drop_id append_assoc)

lemma label_here_ok:
  "label_ok s \<Longrightarrow> label_here p loc s \<longleftrightarrow>
     p ! loc = of_nat (length s) \<and> load_block p (loc + 1) (length s) = Some s"
  by (simp add: label_here_def label_ok_def)

lemma found_before:
  assumes "take i p = b @ enc_labels pre" "i \<le> length p" "loc < i" "label_here p loc s"
    "\<forall>t\<in>set (s # pre). label_ok t" "s \<notin> set pre"
  shows "loc < length b"
proof (rule ccontr)
  assume "\<not> loc < length b"
  then obtain k where k: "loc = length b + k"
    using le_Suc_ex not_less by blast
  have i: "i = length b + length (enc_labels pre)"
    using arg_cong [OF assms(1), of length] assms(2) by simp
  then have p: "p = b @ enc_labels pre @ drop i p"
    using assms(1) append_take_drop_id [of i p] by simp
  have here: "p ! loc = of_nat (length s)" "load_block p (loc + 1) (length s) = Some s"
    using assms(4,5) by (simp_all add: label_here_ok)
  have "take (length s) (drop (Suc k) (enc_labels pre @ drop i p)) = s"
    using here(2) by (subst (asm) p) (simp add: load_block_def k split: if_splits)
  moreover have "enc_labels pre ! k = of_nat (length s)"
    using assms(3) here(1) i by (subst (asm) p) (simp add: k nth_append)
  ultimately show False
    using enc_labels_find [of pre s k "drop i p"] assms(3,5,6) i k by simp
qed

text \<open>An occurrence of the next label in a packet that already holds the labels \<open>pre\<close> of the name
  lies before the name, and reading there succeeds whatever is written behind it.\<close>

lemma occurrence_complete:
  assumes "take i p = b @ enc_labels pre" "i \<le> length p" "loc < i" "label_here p loc s"
    "fqdn_ok (pre @ s # ss)" "names_complete b (pre @ s # ss)"
  obtains ls q where "loc < length b"
    "\<And>p'. length p' = length p \<Longrightarrow> take (length b) p' = b \<Longrightarrow> labels_at p' loc loc (s # ls) q"
proof -
  have s: "label_ok s" "s \<notin> set pre" "\<forall>t\<in>set (s # pre). label_ok t"
    using assms(5) by (auto simp: fqdn_ok_def)
  have loc: "loc < length b"
    by (rule found_before [OF assms(1-4) s(3,2)])
  have "s \<in> set (pre @ s # ss)"
    by simp
  with names_completeD [OF assms(6) loc _ s(1) take_prefix [OF assms(1)]] assms(4) that loc show ?thesis
    by (metis label_here_ok [OF s(1)])
qed

lemma nth_name_parts: "k < n_parts n \<Longrightarrow> name_parts n ! k = name_field n k"
  by (simp add: name_parts_def)

lemma fqdn_match_parts: "fqdn_match ss n \<longleftrightarrow> list_all2 strcaseeq ss (name_parts n)"
  by (auto simp: fqdn_match_def list_all2_conv_all_nth nth_name_parts)

lemma found_labels:
  assumes "mdns_find_fqdn p i (s # ss) nm 0 = Some (Found loc)" "label_ok s"
    "labels_at p loc loc (s # ls) q"
  shows "list_all2 strcaseeq (s # ss) (foldl add_part [s] ls)"
proof -
  from find_fqdn_hit [OF assms(1)] obtain j q' n where
    r: "reads p loc loc (name_init j) (Some q') n" and n: "fqdn_match (s # ss) n"
    by (auto simp: mdns_read_fqdn_def read_labels_iff)
  have "\<not> j"
    using reads_invalid [OF r] n by (auto simp: name_init_def fqdn_match_def)
  then have "name_parts n = foldl add_part [] (s # ls)"
    using labels_reads [OF assms(3), of "name_init False"] reads_fun [OF r] by auto
  moreover have "add_part [] s = [s]"
    using assms(2) by (simp add: add_part_def label_ok_def)
  ultimately show ?thesis
    using n by (simp add: fqdn_match_parts)
qed

text \<open>Whether a name can be read does not depend on the name struct.\<close>

lemma labels_reads_any:
  "labels_at packet start pos ls q \<Longrightarrow> n_parts n \<le> 4 \<Longrightarrow> \<exists>n'. reads packet start pos n (Some q) n'"
proof (induction arbitrary: n rule: labels_at.induct)
  case (at_end pos start)
  then show ?case using reads.finish by fastforce
next
  case (at_label pos len label start ls q)
  obtain n1 where "name_add_label (name_mark n) label = Some n1"
    using name_add_label_returns [of "name_mark n" label] at_label.prems
    by (cases "n_parts n = 4") (auto simp: name_mark_def)
  moreover from this have "n_parts n1 \<le> 4"
    using at_label.prems by (auto simp: name_mark_def name_add_label_def Let_def split: if_splits)
  ultimately show ?case
    using at_label.IH reads.label [OF at_label.hyps(1-4)] by blast
next
  case (at_ref pos len low start ls q)
  obtain n' where "reads packet (ref_address len low) (ref_address len low) (name_mark n) (Some q) n'"
    using at_ref.IH [of "name_mark n"] at_ref.prems by auto
  then show ?case
    using reads.follow_ref [OF at_ref.hyps(1-4)] by fastforce
qed

lemma labels_at_string:
  assumes "label_ok s" "take (i + Suc (length s)) p = take i p @ string_bytes s"
    "i + Suc (length s) \<le> length p" "labels_at p s0 (i + Suc (length s)) ls q"
  shows "labels_at p s0 i (s # ls) q"
proof -
  have p: "p = take i p @ (of_nat (length s) # s) @ drop (i + Suc (length s)) p"
    using append_take_drop_id [of "i + Suc (length s)" p]
    unfolding assms(2) string_bytes_ok [OF assms(1)] by (simp only: append_assoc)
  have u: "unat (of_nat (length s) :: u8) = length s"
    using assms(1) by (simp add: label_ok_def unat_of_nat_u8)
  have "load8 p i = Some (of_nat (length s))"
    using assms(3) by (subst p) (simp add: load8_def nth_append)
  moreover have "load_block p (i + 1) (unat (of_nat (length s) :: u8)) = Some s"
    unfolding u using assms(3) by (subst p) (simp add: load_block_def)
  moreover have "(of_nat (length s) :: u8) \<noteq> 0" "(of_nat (length s) :: u8) \<le> 63"
    using assms(1) u by (auto simp: label_ok_def word_le_nat_alt simp flip: unat_eq_0)
  ultimately show ?thesis
    using labels_at.at_label [of p i "of_nat (length s)" s s0 ls q] assms(1,4) u label_ok_cstr by simp
qed


text \<open>The writer in the middle of a name: the labels \<open>pre\<close> have been written behind the bytes
  \<open>b\<close>, the labels \<open>ss\<close> are still to come.\<close>

lemma append_fqdn_Found:
  assumes find: "mdns_find_fqdn p i (s # ss) nm 0 = Some (Found loc)"
    and pre: "take i p = b @ enc_labels pre" "i + 2 \<le> length p" "length p \<le> 2 ^ 14"
    and ok: "fqdn_ok (pre @ s # ss)" "names_complete b (pre @ s # ss)"
  defines "p' \<equiv> put p i (u16_bytes (of_nat loc OR MDNS_NAME_REF))"
  shows "\<exists>ls qs. labels_at p' (length b) i ls (i + 2) \<and> foldl add_part pre ls = pre @ qs \<and>
    list_all2 strcaseeq (s # ss) qs"
proof -
  have s: "label_ok s"
    using ok(1) by (auto simp: fqdn_ok_def)
  have hit: "loc < i" "label_here p loc s"
    using find_fqdn_hit [OF find] by auto
  have p': "length p' = length p" "take (length b) p' = b"
    using pre(2) arg_cong [OF pre(1), of length] take_prefix [OF pre(1)] by (simp_all add: p'_def)
  obtain ls q where loc: "loc < length b" and
    ls: "\<And>p'. length p' = length p \<Longrightarrow> take (length b) p' = b \<Longrightarrow> labels_at p' loc loc (s # ls) q"
    by (rule occurrence_complete [OF pre(1) _ hit ok]) (use pre(2) in auto)
  define qs where "qs = foldl add_part [s] ls"
  have qs: "list_all2 strcaseeq (s # ss) qs"
    unfolding qs_def using found_labels [OF find s ls] take_prefix [OF pre(1)] by simp
  have "labels_at p' loc loc (s # ls) q"
    by (rule ls [OF p'])
  moreover have "p' ! i = ucast (drop_bit 8 (of_nat loc OR MDNS_NAME_REF :: u16))"
    "p' ! (i + 1) = ucast (of_nat loc OR MDNS_NAME_REF :: u16)"
    using nth_put_mid [of 0 "u16_bytes (of_nat loc OR MDNS_NAME_REF)" i p]
      nth_put_mid [of 1 "u16_bytes (of_nat loc OR MDNS_NAME_REF)" i p] pre(2)
    by (simp_all add: p'_def u16_bytes_def)
  ultimately have "labels_at p' (length b) i (s # ls) (i + 2)"
    using labels_at.at_ref [of p' i _ _ "length b" "s # ls" q] ref_bytes [of loc] loc hit(1) pre(2,3) p'(1)
    by (simp add: load8_def)
  moreover have "foldl add_part pre (s # ls) = pre @ qs"
  proof (cases "pre = []")
    case True
    then show ?thesis using qs_def add_part_next [OF ok(1)] by simp
  next
    case False
    have "length (hd qs) = length s" "length qs = Suc (length ss)"
      using qs by (auto simp: list_all2_Cons1 dest: strcaseeq_length list_all2_lengthD)
    then show ?thesis
      using foldl_add_append [of "[s]" pre ls] False qs_def add_part_next [OF ok(1)] ok(1) s
      by (simp add: fqdn_ok_def label_ok_def)
  qed
  ultimately show ?thesis using qs by blast
qed


lemma append_fqdn_labels:
  assumes "mdns_append_fqdn jnk (p, i) ss = Some (n, p', i')"
    and "take i p = b @ enc_labels pre" "length p = MDNS_MAX_PACKET_SIZE"
    and "fqdn_ok (pre @ ss)" "names_complete b (pre @ ss)" "i + fqdn_room ss < MDNS_MAX_PACKET_SIZE"
  shows "length p' = length p \<and> take i p' = take i p \<and> i' = i + n \<and> n \<le> fqdn_room ss \<and>
    (\<exists>ls qs. labels_at p' (length b) i ls i' \<and> foldl add_part pre ls = pre @ qs \<and>
      list_all2 strcaseeq ss qs)"
  using assms
proof (induction ss arbitrary: p i pre n)
  case Nil
  then have "n = 1" "p' = put p i [0]" "i' = i + 1"
    by (simp_all add: wire_simps)
  moreover have "labels_at (put p i [0]) (length b) i [] (i + 1)"
    using Nil nth_put_mid [of 0 "[0]" i p] by (intro labels_at.at_end) (simp add: load8_def)
  ultimately show ?case
    using Nil by (auto intro!: exI [of _ "[]"])
next
  case (Cons s ss)
  have room: "i + length s + 2 \<le> i + fqdn_room (s # ss)"
    using fqdn_room_pos [of ss] by simp
  have s: "label_ok s" "length s mod 256 = length s"
    using Cons.prems(4) by (auto simp: fqdn_ok_def label_ok_def)
  obtain r where r: "mdns_find_fqdn p i (s # ss) (name_init (jnk p i (s # ss))) 0 = Some r"
    using Cons.prems(1) by (auto split: bind_splits)
  show ?case
  proof (cases r)
    case Unreadable
    with find_fqdn_hit [OF r] obtain loc j nm where hit: "loc < i" "label_here p loc s"
      "mdns_read_fqdn p loc (name_init j) = Some (None, nm)"
      by auto
    have "i \<le> length p"
      using Cons.prems(3,6) by simp
    then obtain ls q where "labels_at p loc loc (s # ls) q"
      using occurrence_complete [OF Cons.prems(2) _ hit(1,2) Cons.prems(4,5)]
        take_prefix [OF Cons.prems(2)] by metis
    from labels_reads_any [OF this, of "name_init j"] hit(3) have False
      by (auto simp: mdns_read_fqdn_def read_labels_iff name_init_def dest: reads_fun)
    then show ?thesis ..
  next
    case Not_found
    let ?p = "put p i (string_bytes s)" and ?i = "i + Suc (length s)"
    have len: "length (string_bytes s) = Suc (length s)"
      by (simp add: s)
    have w: "mdns_append_string (p, i) s = Some (Suc (length s), ?p, ?i)"
      using Cons.prems(3,6) room s by (subst append_string_put) (simp_all add: label_ok_def)
    obtain m where m: "mdns_append_fqdn jnk (?p, ?i) ss = Some (m, p', i')"
      "n = (Suc (length s) + m) mod 65536"
      using Cons.prems(1) r Not_found w by (auto split: bind_splits)
    have tk: "take ?i ?p = take i p @ string_bytes s" "length ?p = length p"
      using take_put_end [of i "string_bytes s" p] Cons.prems(3,6) room len by simp_all
    have "take ?i ?p = b @ enc_labels (pre @ [s])"
      using tk Cons.prems(2) by (simp add: enc_labels_def)
    from Cons.IH [OF m(1) this] Cons.prems tk(2)
    obtain ls qs where ih: "length p' = length p" "take ?i p' = take ?i ?p" "i' = ?i + m"
      "m \<le> fqdn_room ss" "labels_at p' (length b) ?i ls i'"
      "foldl add_part (pre @ [s]) ls = (pre @ [s]) @ qs" "list_all2 strcaseeq ss qs"
      by auto
    have ti: "take i p' = take i p"
      using arg_cong [OF ih(2), of "take i"] tk Cons.prems(3,6) by (simp add: min_def)
    have "labels_at p' (length b) i (s # ls) i'"
      using labels_at_string [OF s(1) _ _ ih(5)] ih(1,2) ti tk Cons.prems(3,6) room by simp
    moreover have "foldl add_part pre (s # ls) = pre @ s # qs"
      using add_part_next [of pre s ss] Cons.prems(4) ih(6) by simp
    moreover have "list_all2 strcaseeq (s # ss) (s # qs)"
      using ih(7) by simp
    ultimately have "\<exists>ls qs. labels_at p' (length b) i ls i' \<and> foldl add_part pre ls = pre @ qs \<and>
        list_all2 strcaseeq (s # ss) qs"
      by blast
    then show ?thesis
      using ih ti m(2) Cons.prems(3,6) by simp
  next
    case (Found loc)
    then have "n = 2" "p' = put p i (u16_bytes (of_nat loc OR MDNS_NAME_REF))" "i' = i + 2"
      using Cons.prems(1,3,6) room r by (simp_all add: wire_simps)
    then show ?thesis
      using append_fqdn_Found [OF r [unfolded Found] Cons.prems(2) _ _ Cons.prems(4,5)]
        Cons.prems(3,6) room s(1) fqdn_room_pos [of ss] by (auto simp: label_ok_def)
  qed
qed

text \<open>A buffer that has not been written from the offset \<open>i\<close> on.\<close>

definition fresh_from :: "u8 list \<Rightarrow> nat \<Rightarrow> bool" where
  "fresh_from p i \<longleftrightarrow> (\<forall>k < length p. i \<le> k \<longrightarrow> p ! k = 0)"

lemma n_parts_add_label:
  "name_add_label (name_mark n) label = Some n' \<Longrightarrow> n_parts n \<le> 4 \<Longrightarrow> n_parts n' \<le> 4"
  by (auto simp: name_mark_def name_add_label_def Let_def split: if_splits)

lemma add_label_total: "n_parts n \<le> 4 \<Longrightarrow> \<exists>n'. name_add_label (name_mark n) label = Some n'"
  using name_add_label_returns [of "name_mark n" label]
  by (cases "n_parts n = 4") (auto simp: name_mark_def)

lemma read_labels_fresh:
  assumes "fresh_from p i" "i + 63 < length p" "pos \<le> i + 63" "start \<le> i + 63" "n_parts n \<le> 4"
  shows "mdns_read_labels p start pos n \<noteq> None"
  using assms
proof (induction p start pos n rule: mdns_read_labels.induct)
  case (1 p start pos n)
  show ?case
  proof (cases "p ! pos = 0")
    case True
    then show ?thesis
      using 1 by (subst mdns_read_labels.simps) (simp add: load8_def)
  next
    case False
    then have pos: "pos < i" "load8 p pos = Some (p ! pos)"
      using "1.prems"(1-3) unfolding fresh_from_def load8_def by (metis le_less_trans not_le)+
    consider "63 < p ! pos" "p ! pos < 0xC0" | "p ! pos \<le> 63" | "0xC0 \<le> p ! pos"
      by (meson not_le)
    then show ?thesis
    proof cases
      case 1
      then show ?thesis
        using pos False by (subst mdns_read_labels.simps) (simp add: Let_def)
    next
      case 2
      then have u: "unat (p ! pos) \<le> 63" "p ! pos < 0xC0" "\<not> 63 < p ! pos"
        by (auto simp: word_le_nat_alt label_len_simps)
      then have "load_block p (pos + 1) (unat (p ! pos)) = Some (take (unat (p ! pos)) (drop (pos + 1) p))"
        using pos(1) "1.prems" by (simp add: load_block_def)
      moreover obtain n2 where
        "name_add_label (name_mark n) (take (unat (p ! pos)) (drop (pos + 1) p)) = Some n2"
        using add_label_total "1.prems" by blast
      ultimately show ?thesis
        using "1.IH"(1) [OF pos(2) False refl u(2,3)] "1.prems" pos u False n_parts_add_label
        by (subst mdns_read_labels.simps) (auto simp: Let_def)
    next
      case 3
      then have c: "\<not> p ! pos < 0xC0" by (simp add: label_len_simps)
      have low: "load8 p (pos + 1) = Some (p ! (pos + 1))"
        using pos(1) "1.prems" by (simp add: load8_def)
      show ?thesis
      proof (cases "ref_address (p ! pos) (p ! (pos + 1)) < start")
        case True
        then obtain r n2 where "mdns_read_labels p (ref_address (p ! pos) (p ! (pos + 1)))
            (ref_address (p ! pos) (p ! (pos + 1))) (name_mark n) = Some (r, n2)"
          using "1.IH"(2) [OF pos(2) False refl c low refl] "1.prems" by (auto simp: not_le)
        then show ?thesis
          using pos False c low True by (subst mdns_read_labels.simps) (simp add: Let_def)
      next
        case no: False
        then show ?thesis
          using pos False c low by (subst mdns_read_labels.simps) (simp add: Let_def)
      qed
    qed
  qed
qed

lemma find_fqdn_fresh:
  assumes "fresh_from p i" "i + 63 < length p" "ss \<noteq> []" "label_ok (hd ss)"
  shows "mdns_find_fqdn p i ss nm from \<noteq> None"
  using assms
proof (induction p i ss nm "from" rule: mdns_find_fqdn.induct)
  case (1 p i ss nm "from")
  have l: "length (hd ss) mod 256 = length (hd ss)" "length (hd ss) < 32"
    using "1.prems"(4) by (auto simp: label_ok_def)
  show ?case
  proof (cases "memchr p (of_nat (length (hd ss))) from i")
    case None
    then show ?thesis by (subst mdns_find_fqdn.simps) (simp add: l)
  next
    case (Some k)
    have k: "k < i" by (rule memchr_Some(2) [OF Some])
    then have bl: "load_block p (k + 1) (length (hd ss)) = Some (take (length (hd ss)) (drop (k + 1) p))"
      using "1.prems"(2) l(2) by (simp add: load_block_def)
    obtain c n1 where r: "mdns_read_fqdn p k (name_init (n_invalid nm)) = Some (c, n1)"
      using read_labels_fresh [OF "1.prems"(1,2), of k k "name_init (n_invalid nm)"] k
      by (auto simp: mdns_read_fqdn_def name_init_def)
    show ?thesis
      using Some bl r "1.IH"(1) [OF refl _ _ _ "1.prems"] "1.IH"(2) [OF refl _ _ _ r refl _ _ "1.prems"] 
      by (subst mdns_find_fqdn.simps) (auto simp: l Let_def)
  qed
qed

lemma append_fqdn_fresh:
  assumes "fresh_from p i" "length p = MDNS_MAX_PACKET_SIZE" "\<forall>s\<in>set ss. label_ok s"
    "i + fqdn_room ss + 63 \<le> MDNS_MAX_PACKET_SIZE"
  shows "mdns_append_fqdn jnk (p, i) ss \<noteq> None"
  using assms
proof (induction ss arbitrary: p i)
  case Nil
  then show ?case by (simp add: wire_simps)
next
  case (Cons s ss)
  have s: "label_ok s" "length s mod 256 = length s" "(length s + 1) mod 256 \<noteq> 0"
    using Cons.prems(3) by (auto simp: label_ok_def)
  obtain r where r: "mdns_find_fqdn p i (s # ss) (name_init (jnk p i (s # ss))) 0 = Some r"
    using find_fqdn_fresh [OF Cons.prems(1), of "s # ss"] Cons.prems s(1) by force
  let ?p = "put p i (string_bytes s)" and ?i = "i + Suc (length s)"
  have w: "mdns_append_string (p, i) s = Some (Suc (length s) mod 256, ?p, ?i)"
    using Cons.prems s by (subst append_string_put) simp_all
  have "fresh_from ?p ?i"
    using Cons.prems s by (auto simp: fresh_from_def put_def nth_append)
  then have "mdns_append_fqdn jnk (?p, ?i) ss \<noteq> None"
    using Cons.prems s by (intro Cons.IH) simp_all
  then show ?case
    using r w s Cons.prems by (cases r) (auto simp: wire_simps)
qed

section \<open>Properties\<close>

text \<open>C5: names survive the compressing writer. If the parts of a name are printable labels, all
  different, with a service label or a domain in the second place, and every occurrence of one of
  the labels earlier in the packet starts a complete name, then, whatever the buffer holds behind
  the write offset, the bytes that \<^verbatim>\<open>_mdns_append_fqdn\<close> writes (labels, compression
  pointers or both) are read back by \<^verbatim>\<open>_mdns_read_fqdn\<close> as the same parts up to case, the reader
  stops exactly at the new write offset, the reported length is the number of bytes written, and
  the bytes before the name are untouched.\<close>

theorem append_fqdn_read_back:
  assumes "length p = MDNS_MAX_PACKET_SIZE" "i + fqdn_room ss < MDNS_MAX_PACKET_SIZE" "fqdn_ok ss"
    "names_complete (take i p) ss" "mdns_append_fqdn jnk (p, i) ss = Some (n, p', i')"
  shows "i' = i + n \<and> take i p' = take i p \<and>
    (\<exists>name. mdns_read_fqdn p' i (name_init False) = Some (Some i', name) \<and> fqdn_match ss name)"
proof -
  have i: "length (take i p) = i"
    using assms(1,2) by simp
  have "take i p = take i p @ enc_labels []"
    by (simp add: enc_labels_def)
  from append_fqdn_labels [OF assms(5) this assms(1) _ _ assms(2)] assms(3,4) obtain ls qs where
    w: "take i p' = take i p" "i' = i + n" and
    l: "labels_at p' i i ls i'" "foldl add_part [] ls = qs" "list_all2 strcaseeq ss qs"
    unfolding i by auto
  obtain name where name: "reads p' i i (name_init False) (Some i') name" "name_parts name = qs"
    using labels_reads [OF l(1), of "name_init False"] l(2) by auto
  have "fqdn_match ss name"
    using l(3) name(2) by (simp add: fqdn_match_parts)
  with w name(1) show ?thesis
    by (auto simp: mdns_read_fqdn_def read_labels_iff)
qed

text \<open>on a buffer that has not been written behind the offset the writer returns: the search for
  an earlier occurrence stays inside the buffer, as long as 63 bytes are left behind the name.\<close>

theorem append_fqdn_returns:
  assumes "length p = MDNS_MAX_PACKET_SIZE" "fresh_from p i" "\<forall>s\<in>set ss. label_ok s"
    "i + fqdn_room ss + 63 \<le> MDNS_MAX_PACKET_SIZE"
  shows "\<exists>n p' i'. mdns_append_fqdn jnk (p, i) ss = Some (n, p', i')"
  using append_fqdn_fresh [OF assms(2,1,3,4), of jnk] by auto

lemma names_complete_zero: "(\<forall>s\<in>set ss. label_ok s) \<Longrightarrow> names_complete (replicate n 0) ss"
  unfolding names_complete_def
proof (intro allI impI)
  fix loc l r
  assume a: "\<forall>s\<in>set ss. label_ok s" "l \<in> set ss" "loc < length (replicate n (0::u8))"
    "take (Suc (length l)) (drop loc (replicate n 0 @ r)) = string_bytes l"
  then have l: "label_ok l" by simp
  have "hd (take (Suc (length l)) (drop loc (replicate n 0 @ r))) = 0"
    using a(3) by (cases "n - loc") (auto simp: hd_append)
  moreover have "hd (string_bytes l) \<noteq> 0"
    using l by (simp add: string_bytes_ok label_ok_def word_unat_eq_iff unat_of_nat_u8)
  ultimately show "\<exists>ls q. \<forall>r'. length r' = length r \<longrightarrow> labels_at (replicate n 0 @ r') loc loc (l # ls) q"
    using a(4) by simp
qed

lemma demo_labels:
  "fqdn_ok [lit ''esp'', MDNS_DEFAULT_DOMAIN]" "label_ok (lit ''esp'')" "label_ok MDNS_DEFAULT_DOMAIN"
  by (simp_all add: fqdn_ok_def label_ok_def lit_def MDNS_DEFAULT_DOMAIN_def MDNS_SUB_STR_def
      strcaseeq_def tolower_def glued_def of_char_def)

theorem append_fqdn_returns_witness:
  "\<exists>n p' i'. mdns_append_fqdn (\<lambda>_ _ _. False) (replicate 1460 0, 12)
     [lit ''esp'', MDNS_DEFAULT_DOMAIN] = Some (n, p', i')"
  using append_fqdn_returns [of "replicate 1460 0" 12 "[lit ''esp'', MDNS_DEFAULT_DOMAIN]"] demo_labels
  by (simp add: fresh_from_def MDNS_DEFAULT_DOMAIN_def)

theorem append_fqdn_read_back_witness:
  "\<exists>n p' i' name. mdns_append_fqdn (\<lambda>_ _ _. False) (replicate 1460 0, 12)
       [lit ''esp'', MDNS_DEFAULT_DOMAIN] = Some (n, p', i') \<and>
     mdns_read_fqdn p' 12 (name_init False) = Some (Some i', name) \<and>
     fqdn_match [lit ''esp'', MDNS_DEFAULT_DOMAIN] name"
proof -
  let ?ss = "[lit ''esp'', MDNS_DEFAULT_DOMAIN]"
  obtain n p' i' where w: "mdns_append_fqdn (\<lambda>_ _ _. False) (replicate 1460 0, 12) ?ss = Some (n, p', i')"
    using append_fqdn_fresh [of "replicate 1460 0" 12 ?ss "\<lambda>_ _ _. False"] demo_labels
    by (auto simp: fresh_from_def MDNS_DEFAULT_DOMAIN_def)
  have "names_complete (take 12 (replicate 1460 0)) ?ss"
    using names_complete_zero [of ?ss 12] demo_labels by simp
  from append_fqdn_read_back [OF _ _ demo_labels(1) this w] w show ?thesis
    by (auto simp: MDNS_DEFAULT_DOMAIN_def)
qed

text \<open>The step of the search loop at the first occurrence of the length byte.\<close>

lemma find_fqdn_step:
  assumes "memchr p (of_nat (length s)) from i = Some k" "label_ok s" "label_here p k s"
    "mdns_read_fqdn p k (name_init (n_invalid nm)) = Some (Some q, n)" "fqdn_match (s # ss) n"
  shows "mdns_find_fqdn p i (s # ss) nm from = Some (Found k)"
  using assms by (subst mdns_find_fqdn.simps)
    (auto simp: Let_def label_here_ok label_ok_def memcmp_eq_0_iff fqdn_match_def)

lemma memchr_first:
  assumes "from \<le> k" "k < to" "p ! k = c" "\<forall>j. from \<le> j \<longrightarrow> j < k \<longrightarrow> p ! j \<noteq> c"
  shows "memchr p c from to = Some k"
  unfolding memchr_def find_Some_iff using assms
  by (intro exI [of _ "k - from"]) (auto simp: less_diff_conv)

lemma memchr_none: "\<forall>j. from \<le> j \<longrightarrow> j < to \<longrightarrow> p ! j \<noteq> c \<Longrightarrow> memchr p c from to = None"
  by (auto simp: memchr_def find_None_iff)

text \<open>An empty packet in which one label has been written.\<close>

definition one_label :: "cstring \<Rightarrow> u8 list" where
  "one_label s = put (replicate 1460 0) 12 (string_bytes s)"

lemma one_label_facts:
  assumes "label_ok s"
  shows "length (one_label s) = 1460" "take 12 (one_label s) = replicate 12 0"
    "take (13 + length s) (one_label s) = replicate 12 0 @ string_bytes s"
    "label_here (one_label s) 12 s" "one_label s ! (13 + length s) = 0"
proof -
  have s: "length s < 32"
    using assms by (simp add: label_ok_def)
  then have p: "one_label s = replicate 12 0 @ (of_nat (length s) # s) @ replicate (1447 - length s) 0"
    by (simp add: one_label_def put_def string_bytes_ok [OF assms])
  show "length (one_label s) = 1460" "take 12 (one_label s) = replicate 12 0"
    "take (13 + length s) (one_label s) = replicate 12 0 @ string_bytes s"
    "label_here (one_label s) 12 s" "one_label s ! (13 + length s) = 0"
    using s by (simp_all add: p label_here_ok assms load_block_def nth_append string_bytes_ok)
qed

lemma find_own_label:
  assumes "label_ok s"
  shows "mdns_find_fqdn (one_label s) (13 + length s) [s] (name_init False) 0 = Some (Found 12)"
proof -
  note p1 = one_label_facts [OF assms]
  have s: "length s < 32" "(of_nat (length s) :: u8) \<noteq> 0"
    using assms by (auto simp: label_ok_def word_unat_eq_iff unat_of_nat_u8)
  have "labels_at (one_label s) 12 (13 + length s) [] (14 + length s)"
    using labels_at.at_end [of "one_label s" "13 + length s" 12] p1 s by (simp add: load8_def)
  then have l1: "labels_at (one_label s) 12 12 [s] (14 + length s)"
    using labels_at_string [OF assms, of 12 "one_label s" 12 "[]" "14 + length s"] p1 s by simp
  obtain n where n: "mdns_read_fqdn (one_label s) 12 (name_init False) = Some (Some (14 + length s), n)"
    "name_parts n = [s]"
    using labels_reads [OF l1, of "name_init False"] assms
    by (auto simp: mdns_read_fqdn_def read_labels_iff add_part_def label_ok_def)
  have m: "fqdn_match [s] n"
    by (simp add: fqdn_match_parts n(2))
  have "one_label s ! j = 0" if "j < 12" for j
    using that by (simp add: one_label_def nth_put_low)
  then have "memchr (one_label s) (of_nat (length s)) 0 (13 + length s) = Some 12"
    using p1(4) s(2) by (intro memchr_first) (auto simp: label_here_ok assms)
  then show ?thesis
    using n(1) m by (intro find_fqdn_step [OF _ assms p1(4)]) (simp_all add: name_init_def)
qed

lemma read_own_reference:
  assumes "label_ok s"
  defines "p2 \<equiv> put (one_label s) (13 + length s) (u16_bytes (of_nat 12 OR MDNS_NAME_REF))"
  shows "\<exists>n. reads p2 12 12 (name_init False) None n"
proof -
  note p1 = one_label_facts [OF assms(1)]
  have s: "length s < 32" "length s \<noteq> 0"
    using assms(1) by (auto simp: label_ok_def)
  have p2: "length p2 = 1460" "p2 ! (13 + length s) = 0xC0" "p2 ! (14 + length s) = 12"
    "take (13 + length s) p2 = replicate 12 0 @ of_nat (length s) # s"
    using nth_put_mid [of 0 "u16_bytes (of_nat 12 OR MDNS_NAME_REF)" "13 + length s" "one_label s"]
      nth_put_mid [of 1 "u16_bytes (of_nat 12 OR MDNS_NAME_REF)" "13 + length s" "one_label s"] s p1
    by (simp_all add: p2_def u16_bytes_def string_bytes_ok assms(1))
  have b: "p2 = replicate 12 0 @ (of_nat (length s) # s) @ drop (13 + length s) p2"
    using append_take_drop_id [of "13 + length s" p2] unfolding p2(4) by simp
  obtain n where n: "name_add_label (name_mark (name_init False)) s = Some n"
    using add_label_total [of "name_init False" s] by (auto simp: name_init_def)
  have "reads p2 12 (13 + length s) n None (name_mark n)"
    using reads.bad_ref [of p2 "13 + length s" "0xC0" 12 12 n] p2 s
    by (simp add: load8_def ref_address_def)
  moreover have "load8 p2 12 = Some (of_nat (length s))"
    using p2(1) by (subst b) (simp add: load8_def nth_append)
  moreover have "load_block p2 13 (length s) = Some s"
    using p2(1) s by (subst b) (simp add: load_block_def)
  ultimately show ?thesis
    using reads.label [of p2 12 "of_nat (length s)" s "name_init False" n 12 None "name_mark n"] n s
    by (auto simp: unat_of_nat_u8 word_le_nat_alt word_unat_eq_iff)
qed

text \<open>the condition that the labels differ cannot be dropped. When a name has the same label
  twice in a row (a host that is itself called \<open>local\<close>), the writer compresses the second label
  to a pointer to the first one, that is to the very name it is writing, and the reader refuses
  such a name.\<close>

theorem append_fqdn_self_reference:
  assumes "label_ok s"
  shows "\<exists>p' name. mdns_append_fqdn (\<lambda>_ _ _. False) (replicate 1460 0, 12) [s, s] =
      Some (length s + 3, p', length s + 15) \<and>
    mdns_read_fqdn p' 12 (name_init False) = Some (None, name)"
proof -
  have s: "length s < 32" "(of_nat (length s) :: u8) \<noteq> 0"
    using assms by (auto simp: label_ok_def word_unat_eq_iff unat_of_nat_u8)
  then have "mdns_find_fqdn (replicate 1460 0) 12 [s, s] (name_init False) 0 = Some Not_found"
    by (subst mdns_find_fqdn.simps) (simp add: memchr_none)
  moreover have "mdns_append_string (replicate 1460 0, 12) s =
      Some (Suc (length s), one_label s, 13 + length s)"
    using s by (subst append_string_put) (simp_all add: one_label_def)
  ultimately have "mdns_append_fqdn (\<lambda>_ _ _. False) (replicate 1460 0, 12) [s, s] =
      Some (length s + 3, put (one_label s) (13 + length s) (u16_bytes (of_nat 12 OR MDNS_NAME_REF)),
        length s + 15)"
    using find_own_label [OF assms] one_label_facts(1) [OF assms] s
    by (simp add: append_u16_put)
  then show ?thesis
    using read_own_reference [OF assms] by (auto simp: mdns_read_fqdn_def read_labels_iff)
qed

theorem append_fqdn_self_reference_witness:
  "\<exists>p' name. mdns_append_fqdn (\<lambda>_ _ _. False) (replicate 1460 0, 12)
       [MDNS_DEFAULT_DOMAIN, MDNS_DEFAULT_DOMAIN] = Some (8, p', 20) \<and>
     mdns_read_fqdn p' 12 (name_init False) = Some (None, name)"
  using append_fqdn_self_reference [OF demo_labels(3)] by (simp add: MDNS_DEFAULT_DOMAIN_def)

lemma all_name_fields:
  "(\<forall>i < 4. P (name_field n i)) \<longleftrightarrow> P (n_host n) \<and> P (n_service n) \<and> P (n_proto n) \<and> P (n_domain n)"
  by (auto simp: name_field_def numeral_eq_Suc All_less_Suc)

lemma name_ok_format: "name_ok n \<Longrightarrow> name_ok (name_format n)"
  unfolding name_ok_def all_name_fields [of cstr_ok] all_name_fields [of "\<lambda>s. length s < MDNS_NAME_BUF_LEN"]
  by (auto simp: name_format_def cstr_ok_def)

text \<open>Reading is monotone: what can be read in a packet is read in the same way when more bytes follow.\<close>

lemma load8_append: "load8 p i = Some v \<Longrightarrow> load8 (p @ z) i = Some v"
  by (auto simp: load8_def nth_append split: if_splits)

lemma load_block_append: "load_block p i n = Some v \<Longrightarrow> load_block (p @ z) i n = Some v"
  by (auto simp: load_block_def split: if_splits)

lemma reads_append: "reads p start pos name r name' \<Longrightarrow> reads (p @ z) start pos name r name'"
proof (induction rule: reads.induct)
  case (finish pos start name)
  then show ?case by (rule reads.finish [OF load8_append])
next
  case (too_long pos len start name)
  then show ?case by (intro reads.too_long load8_append)
next
  case (label pos len label name name2 start r name')
  then show ?case by (blast intro: reads.label load8_append load_block_append)
next
  case (bad_ref pos len low start name)
  then show ?case by (blast intro: reads.bad_ref load8_append)
next
  case (follow_ref pos len low start name r name')
  then show ?case by (intro reads.follow_ref load8_append)
qed

lemma read_fqdn_append:
  "mdns_read_fqdn p start name = Some (r, name') \<Longrightarrow> mdns_read_fqdn (p @ z) start name = Some (r, name')"
  unfolding mdns_read_fqdn_def read_labels_iff by (rule reads_append)

lemma parse_fqdn_append:
  assumes "mdns_parse_fqdn p start = Some x"
  shows "mdns_parse_fqdn (p @ z) start = Some x"
proof -
  obtain r n where r: "mdns_read_fqdn p start (name_init False) = Some (r, n)"
    using assms by (auto simp: mdns_parse_fqdn_def split: bind_splits)
  show ?thesis
    using assms r read_fqdn_append [OF r, of z] by (simp add: mdns_parse_fqdn_def)
qed

text \<open>C13: parsing a name comes back on every packet, also on one with cyclic compression pointers or with more
  parts than a name has room for. The packet is followed here by 64 zero bytes, which the code may read:
  then \<^verbatim>\<open>_mdns_parse_fqdn\<close> always has a result, with at most four parts, each of which fits its buffer with the
  terminating zero. On the packet alone the result is the same one, unless the name leads out of
  the packet, which the code does not check; and then the offset behind the name lies behind its
  start and inside the packet.\<close>

theorem parse_fqdn_safe:
  assumes "start \<le> length packet"
  shows "\<exists>r name. mdns_parse_fqdn (packet @ replicate 64 0) start = Some (r, name) \<and>
    (mdns_parse_fqdn packet start = None \<or>
     mdns_parse_fqdn packet start = Some (r, name) \<and> (\<forall>q. r = Some q \<longrightarrow> start < q \<and> q \<le> length packet)) \<and>
    n_parts name \<le> 4 \<and> (\<forall>i < 4. length (name_field name i) < MDNS_NAME_BUF_LEN \<and> cstr_ok (name_field name i))"
proof -
  let ?p = "packet @ replicate 64 0"
  have "fresh_from ?p (length packet)"
    by (auto simp: fresh_from_def nth_append)
  then obtain r0 n0 where r0: "mdns_read_fqdn ?p start (name_init False) = Some (r0, n0)"
    using read_labels_fresh [of ?p "length packet" start start "name_init False"] assms
    by (auto simp: mdns_read_fqdn_def name_init_def)
  then have "\<exists>r name. mdns_parse_fqdn ?p start = Some (r, name) \<and> (name = n0 \<or> name = name_format n0)"
    by (simp add: mdns_parse_fqdn_def Let_def split: if_split)
  then obtain r name where run: "mdns_parse_fqdn ?p start = Some (r, name)" and n: "name = n0 \<or> name = name_format n0"
    by blast
  have "name_ok n0"
    using r0 reads_name_ok [of ?p start start "name_init False" r0 n0] by (simp add: mdns_read_fqdn_def read_labels_iff)
  with n name_ok_format have "name_ok name" by blast
  moreover have "mdns_parse_fqdn packet start = None \<or> mdns_parse_fqdn packet start = Some (r, name)"
    using parse_fqdn_append [of packet start _ "replicate 64 0"] run by (cases "mdns_parse_fqdn packet start") auto
  ultimately show ?thesis
    using run parse_fqdn_offset [of packet start] by (auto simp: name_ok_def)
qed

theorem parse_fqdn_safe_witness:
  "\<exists>r name. mdns_parse_fqdn ([4, 97, 97, 97, 97, 0xC0, 0] @ replicate 64 0) 0 = Some (r, name) \<and> n_parts name \<le> 4"
  using parse_fqdn_safe [of 0 "[4, 97, 97, 97, 97, 0xC0, 0]"] by auto

end
