(* ===== verification/Mdns_Records.thy ===== *)
theory Mdns_Records
  imports Mdns_Names
begin

text \<open>
  Resource records, questions and whole packets: \<^verbatim>\<open>_mdns_append_ptr_record\<close>,
  \<^verbatim>\<open>_mdns_append_sdptr_record\<close>, \<^verbatim>\<open>_mdns_append_txt_record\<close>, \<^verbatim>\<open>_mdns_append_srv_record\<close>,
  \<^verbatim>\<open>_mdns_append_a_record\<close>, \<^verbatim>\<open>_mdns_append_aaaa_record\<close>, \<^verbatim>\<open>_mdns_append_question\<close>,
  \<^verbatim>\<open>_mdns_append_answer\<close>, \<^verbatim>\<open>_mdns_dispatch_tx_packet\<close> of \<^verbatim>\<open>src/src/mdns.c\<close> and
  \<^verbatim>\<open>_mdns_udp_pcb_write\<close> of \<^verbatim>\<open>src/src/mdns_networking.c\<close>. The lemmas show that none of them
  writes outside the 1460-byte buffer or moves the write offset past its end.
\<close>

section \<open>Services as the writers see them\<close>

definition mdns_get_service_instance_name :: "mdns_world \<Rightarrow> mdns_service_t option \<Rightarrow> cptr option" where
  "mdns_get_service_instance_name w service =
     (case service of
        Some s \<Rightarrow> if \<not> str_null_or_empty (s_instance s) then s_instance s
          else if \<not> str_null_or_empty (server_instance w) then server_instance w
          else if \<not> str_null_or_empty (hostname w) then hostname w else None
      | None \<Rightarrow> if \<not> str_null_or_empty (server_instance w) then server_instance w
          else if \<not> str_null_or_empty (hostname w) then hostname w else None)"

definition mdns_get_other_if :: "tcpip_adapter_if_t \<Rightarrow> tcpip_adapter_if_t" where
  "mdns_get_other_if tcpip_if =
     (if tcpip_if = TCPIP_ADAPTER_IF_STA then TCPIP_ADAPTER_IF_ETH
      else if tcpip_if = TCPIP_ADAPTER_IF_ETH then TCPIP_ADAPTER_IF_STA
      else TCPIP_ADAPTER_IF_MAX)"

definition mdns_if_is_dup :: "mdns_world \<Rightarrow> tcpip_adapter_if_t \<Rightarrow> bool" where
  "mdns_if_is_dup w tcpip_if =
     (let other_if = mdns_get_other_if tcpip_if in
      if other_if = TCPIP_ADAPTER_IF_MAX then False
      else pcb_state (interfaces w tcpip_if MDNS_IP_PROTOCOL_V4) = PCB_DUP \<or>
           pcb_state (interfaces w tcpip_if MDNS_IP_PROTOCOL_V6) = PCB_DUP \<or>
           pcb_state (interfaces w other_if MDNS_IP_PROTOCOL_V4) = PCB_DUP \<or>
           pcb_state (interfaces w other_if MDNS_IP_PROTOCOL_V6) = PCB_DUP)"

definition ipv6_address_is_zero :: "u8 list \<Rightarrow> bool" where
  "ipv6_address_is_zero ip6 \<longleftrightarrow> list_all (\<lambda>b. b = 0) (take MDNS_ANSWER_AAAA_SIZE ip6)"

section \<open>Records\<close>

text \<open>The idiom \<open>uint8_t part_length = ...; if (!part_length) { return 0; }\<close>: the result of
  a writer is cut to one byte and a zero ends the record.\<close>

definition on_written ::
  "(nat \<times> wbuf) option \<Rightarrow> (nat \<Rightarrow> wbuf \<Rightarrow> (nat \<times> wbuf) option) \<Rightarrow> (nat \<times> wbuf) option" where
  "on_written m k = do {
     (n, b) \<leftarrow> m;
     if n mod 256 = 0 then Some (0, b) else k (n mod 256) b
   }"

definition mdns_append_ptr_record ::
  "mdns_world \<Rightarrow> wbuf \<Rightarrow> cptr option \<Rightarrow> cptr option \<Rightarrow> cptr option \<Rightarrow> bool \<Rightarrow> bool \<Rightarrow>
   (nat \<times> wbuf) option" where
  "mdns_append_ptr_record w b inst service proto flush bye =
     (case service of
        None \<Rightarrow> Some (0, b)
      | Some (_, srv) \<Rightarrow> do {
          (_, pro) \<leftarrow> proto;
          on_written (mdns_append_fqdn (junk w) b [srv, pro, MDNS_DEFAULT_DOMAIN]) (\<lambda>n1 b1.
          on_written (mdns_append_type b1 MDNS_ANSWER_PTR False
                        (if bye then 0 else MDNS_ANSWER_PTR_TTL)) (\<lambda>n2 b2. do {
            (_, ins) \<leftarrow> inst;
            on_written (mdns_append_fqdn (junk w) b2 [ins, srv, pro, MDNS_DEFAULT_DOMAIN]) (\<lambda>n3 b3. do {
              packet \<leftarrow> mdns_set_u16 (fst b3) (snd b2 - 2) (of_nat n3);
              Some (n1 + n2 + n3, packet, snd b3)
            })
          }))
        })"

definition mdns_append_sdptr_record ::
  "mdns_world \<Rightarrow> wbuf \<Rightarrow> srv_ptr option \<Rightarrow> bool \<Rightarrow> bool \<Rightarrow> (nat \<times> wbuf) option" where
  "mdns_append_sdptr_record w b service flush bye =
     (case service of
        None \<Rightarrow> Some (0, b)
      | Some ptr \<Rightarrow> do {
          s \<leftarrow> srv_heap w ptr;
          (n1, b1) \<leftarrow> mdns_append_fqdn (junk w) b
             [lit ''_services'', lit ''_dns-sd'', lit ''_udp'', MDNS_DEFAULT_DOMAIN];
          on_written (mdns_append_type b1 MDNS_ANSWER_PTR flush MDNS_ANSWER_PTR_TTL) (\<lambda>n2 b2.
          on_written (mdns_append_fqdn (junk w) b2
             [snd (s_service s), snd (s_proto s), MDNS_DEFAULT_DOMAIN]) (\<lambda>n3 b3. do {
            packet \<leftarrow> mdns_set_u16 (fst b3) (snd b2 - 2) (of_nat n3);
            Some (n1 mod 256 + n2 + n3, packet, snd b3)
          }))
        })"

text \<open>The loop over the TXT items; an item whose temporary string cannot be allocated is left
  out. The second component of the result says that \<^verbatim>\<open>_mdns_append_string\<close> reported 0.\<close>

fun mdns_append_txt_items ::
  "mdns_world \<Rightarrow> wbuf \<Rightarrow> mdns_txt_item list \<Rightarrow> nat \<Rightarrow> (nat \<times> bool \<times> wbuf \<times> mdns_world) option" where
  "mdns_append_txt_items w b [] data_len = Some (data_len, True, b, w)"
| "mdns_append_txt_items w b ((key, val) # txt) data_len =
     (let (ok, w1) = malloc w in
      if ok then do {
        (l, b1) \<leftarrow> mdns_append_string b (key @ lit ''='' @ val);
        if l = 0 then Some (data_len, False, b1, w1)
        else mdns_append_txt_items w1 b1 txt ((data_len + l) mod 65536)
      }
      else mdns_append_txt_items w1 b txt data_len)"

definition mdns_append_txt_record ::
  "mdns_world \<Rightarrow> wbuf \<Rightarrow> srv_ptr option \<Rightarrow> bool \<Rightarrow> bool \<Rightarrow> (nat \<times> wbuf \<times> mdns_world) option" where
  "mdns_append_txt_record w b service flush bye =
     (case service of
        None \<Rightarrow> Some (0, b, w)
      | Some ptr \<Rightarrow> do {
          s \<leftarrow> srv_heap w ptr;
          case mdns_get_service_instance_name w (Some s) of
            None \<Rightarrow> Some (0, b, w)
          | Some (_, ins) \<Rightarrow> do {
              (n1, b1) \<leftarrow> mdns_append_fqdn (junk w) b
                 [ins, snd (s_service s), snd (s_proto s), MDNS_DEFAULT_DOMAIN];
              if n1 mod 256 = 0 then Some (0, b1, w)
              else do {
                (n2, b2) \<leftarrow> mdns_append_type b1 MDNS_ANSWER_TXT flush
                   (if bye then 0 else MDNS_ANSWER_TXT_TTL);
                if n2 = 0 then Some (0, b2, w)
                else do {
                  (data_len, ok, b3, w1) \<leftarrow> mdns_append_txt_items w b2 (s_txt s) 0;
                  if \<not> ok then Some (0, b3, w1)
                  else do {
                    (len, b4) \<leftarrow> (if data_len = 0
                      then do {
                        packet \<leftarrow> store8 (fst b3) (snd b3) 0;
                        Some (1, packet, snd b3 + 1)
                      }
                      else Some (data_len, b3));
                    packet \<leftarrow> mdns_set_u16 (fst b4) (snd b2 - 2) (of_nat len);
                    Some ((n1 mod 256 + n2 + len) mod 65536, (packet, snd b4), w1)
                  }
                }
              }
            }
        })"

definition mdns_append_srv_record ::
  "mdns_world \<Rightarrow> wbuf \<Rightarrow> srv_ptr option \<Rightarrow> bool \<Rightarrow> bool \<Rightarrow> (nat \<times> wbuf) option" where
  "mdns_append_srv_record w b service flush bye =
     (case service of
        None \<Rightarrow> Some (0, b)
      | Some ptr \<Rightarrow> do {
          s \<leftarrow> srv_heap w ptr;
          case mdns_get_service_instance_name w (Some s) of
            None \<Rightarrow> Some (0, b)
          | Some (_, ins) \<Rightarrow>
              on_written (mdns_append_fqdn (junk w) b
                 [ins, snd (s_service s), snd (s_proto s), MDNS_DEFAULT_DOMAIN]) (\<lambda>n1 b1.
              on_written (mdns_append_type b1 MDNS_ANSWER_SRV flush
                            (if bye then 0 else MDNS_ANSWER_SRV_TTL)) (\<lambda>n2 b2. do {
                (p1, b3) \<leftarrow> mdns_append_u16 b2 (s_priority s);
                (p2, b4) \<leftarrow> mdns_append_u16 b3 (s_weight s);
                (p3, b5) \<leftarrow> mdns_append_u16 b4 (s_port s);
                if p1 + p2 + p3 \<noteq> 6 then Some (0, b5)
                else case hostname w of
                  None \<Rightarrow> Some (0, b5)
                | Some (_, host) \<Rightarrow>
                    if host = [] then Some (0, b5)
                    else on_written (mdns_append_fqdn (junk w) b5 [host, MDNS_DEFAULT_DOMAIN])
                      (\<lambda>n3 b6. do {
                        packet \<leftarrow> mdns_set_u16 (fst b6) (snd b2 - 2) (of_nat (n3 + 6));
                        Some (n1 + n2 + n3 + 6, packet, snd b6)
                      })
              }))
        })"

definition mdns_append_a_record :: "mdns_world \<Rightarrow> wbuf \<Rightarrow> u32 \<Rightarrow> bool \<Rightarrow> bool \<Rightarrow> (nat \<times> wbuf) option" where
  "mdns_append_a_record w b ip flush bye =
     (case hostname w of
        None \<Rightarrow> Some (0, b)
      | Some (_, host) \<Rightarrow>
          if host = [] then Some (0, b)
          else on_written (mdns_append_fqdn (junk w) b [host, MDNS_DEFAULT_DOMAIN]) (\<lambda>n1 b1.
            on_written (mdns_append_type b1 MDNS_ANSWER_A flush
                          (if bye then 0 else MDNS_ANSWER_A_TTL)) (\<lambda>n2 b2.
              if snd b2 + 3 \<ge> MDNS_MAX_PACKET_SIZE then Some (0, b2)
              else do {
                (_, b3) \<leftarrow> mdns_append_u8 b2 (ucast (ip AND 0xFF));
                (_, b4) \<leftarrow> mdns_append_u8 b3 (ucast (drop_bit 8 ip AND 0xFF));
                (_, b5) \<leftarrow> mdns_append_u8 b4 (ucast (drop_bit 16 ip AND 0xFF));
                (_, b6) \<leftarrow> mdns_append_u8 b5 (ucast (drop_bit 24 ip AND 0xFF));
                packet \<leftarrow> mdns_set_u16 (fst b6) (snd b2 - 2) 4;
                Some (n1 + n2 + 4, packet, snd b6)
              })))"

definition mdns_append_aaaa_record ::
  "mdns_world \<Rightarrow> wbuf \<Rightarrow> u8 list \<Rightarrow> bool \<Rightarrow> bool \<Rightarrow> (nat \<times> wbuf) option" where
  "mdns_append_aaaa_record w b ipv6 flush bye =
     (case hostname w of
        None \<Rightarrow> Some (0, b)
      | Some (_, host) \<Rightarrow>
          if host = [] then Some (0, b)
          else on_written (mdns_append_fqdn (junk w) b [host, MDNS_DEFAULT_DOMAIN]) (\<lambda>n1 b1.
            on_written (mdns_append_type b1 MDNS_ANSWER_AAAA flush
                          (if bye then 0 else MDNS_ANSWER_AAAA_TTL)) (\<lambda>n2 b2.
              if snd b2 + MDNS_ANSWER_AAAA_SIZE > MDNS_MAX_PACKET_SIZE then Some (0, b2)
              else do {
                addr \<leftarrow> load_block ipv6 0 MDNS_ANSWER_AAAA_SIZE;
                packet1 \<leftarrow> store_block (fst b2) (snd b2) addr;
                packet2 \<leftarrow> mdns_set_u16 packet1 (snd b2 - 2) (of_nat MDNS_ANSWER_AAAA_SIZE);
                Some (n1 + n2 + MDNS_ANSWER_AAAA_SIZE, packet2, snd b2 + MDNS_ANSWER_AAAA_SIZE)
              })))"

definition question_strings :: "mdns_out_question_t \<Rightarrow> cstring list" where
  "question_strings q =
     map snd (List.map_filter id [oq_host q, oq_service q, oq_proto q, oq_domain q])"

definition mdns_append_question ::
  "mdns_world \<Rightarrow> mdns_out_question_t \<Rightarrow> wbuf \<Rightarrow> (nat \<times> wbuf) option" where
  "mdns_append_question w q b =
     on_written (mdns_append_fqdn (junk w) b (question_strings q)) (\<lambda>n1 b1. do {
       (n2, b2) \<leftarrow> mdns_append_u16 b1 (oq_type q);
       (n3, b3) \<leftarrow> mdns_append_u16 b2 (if oq_unicast q then 0x8001 else 0x0001);
       Some ((n1 + n2 + n3) mod 256, b3)
     })"

text \<open>The two address branches of \<^verbatim>\<open>_mdns_append_answer\<close>, which also append the address of the
  interface on the same subnet.\<close>

definition mdns_append_answer_a ::
  "mdns_world \<Rightarrow> wbuf \<Rightarrow> mdns_out_answer_t \<Rightarrow> tcpip_adapter_if_t \<Rightarrow> (nat \<times> wbuf) option" where
  "mdns_append_answer_a w b answer tcpip_if =
     (if \<not> pcb_pcb (interfaces w tcpip_if MDNS_IP_PROTOCOL_V4) \<and>
         pcb_state (interfaces w tcpip_if MDNS_IP_PROTOCOL_V4) \<noteq> PCB_DUP
      then Some (0, b)
      else case ip_info w tcpip_if of
        None \<Rightarrow> Some (0, b)
      | Some ip \<Rightarrow> do {
          (n1, b1) \<leftarrow> mdns_append_a_record w b ip (oa_flush answer) (oa_bye answer);
          if n1 = 0 then Some (0, b1)
          else if \<not> mdns_if_is_dup w tcpip_if then Some (1, b1)
          else case ip_info w (mdns_get_other_if tcpip_if) of
            None \<Rightarrow> Some (1, b1)
          | Some ip2 \<Rightarrow> do {
              (n2, b2) \<leftarrow> mdns_append_a_record w b1 ip2 (oa_flush answer) (oa_bye answer);
              Some (if n2 > 0 then 2 else 1, b2)
            }
        })"

definition mdns_append_answer_aaaa ::
  "mdns_world \<Rightarrow> wbuf \<Rightarrow> mdns_out_answer_t \<Rightarrow> tcpip_adapter_if_t \<Rightarrow> (nat \<times> wbuf) option" where
  "mdns_append_answer_aaaa w b answer tcpip_if =
     (if \<not> pcb_pcb (interfaces w tcpip_if MDNS_IP_PROTOCOL_V6) \<and>
         pcb_state (interfaces w tcpip_if MDNS_IP_PROTOCOL_V6) \<noteq> PCB_DUP
      then Some (0, b)
      else case ip6_linklocal w tcpip_if of
        None \<Rightarrow> Some (0, b)
      | Some ip6 \<Rightarrow>
          if ipv6_address_is_zero ip6 then Some (0, b)
          else do {
            (n1, b1) \<leftarrow> mdns_append_aaaa_record w b ip6 (oa_flush answer) (oa_bye answer);
            if n1 = 0 then Some (0, b1)
            else if \<not> mdns_if_is_dup w tcpip_if then Some (1, b1)
            else case ip6_linklocal w (mdns_get_other_if tcpip_if) of
              None \<Rightarrow> Some (1, b1)
            | Some ip62 \<Rightarrow> do {
                (n2, b2) \<leftarrow> mdns_append_aaaa_record w b1 ip62 (oa_flush answer) (oa_bye answer);
                Some (if n2 > 0 then 2 else 1, b2)
              }
          })"

text \<open>A record writer that leaves the environment alone and reports success as \<open>> 0\<close>.\<close>

definition counted :: "mdns_world \<Rightarrow> (nat \<times> wbuf) option \<Rightarrow> (nat \<times> wbuf \<times> mdns_world) option" where
  "counted w m = map_option (\<lambda>(n, b). (if n > 0 then 1 else 0, b, w)) m"

definition mdns_append_answer ::
  "mdns_world \<Rightarrow> wbuf \<Rightarrow> mdns_out_answer_t \<Rightarrow> tcpip_adapter_if_t \<Rightarrow>
   (nat \<times> wbuf \<times> mdns_world) option" where
  "mdns_append_answer w b answer tcpip_if =
     (if oa_type answer = MDNS_TYPE_PTR then
        (case oa_service answer of
           Some ptr \<Rightarrow> do {
             s \<leftarrow> srv_heap w ptr;
             counted w (mdns_append_ptr_record w b (mdns_get_service_instance_name w (Some s))
               (Some (s_service s)) (Some (s_proto s)) (oa_flush answer) (oa_bye answer))
           }
         | None \<Rightarrow> counted w (mdns_append_ptr_record w b (oa_custom_instance answer)
               (oa_custom_service answer) (oa_custom_proto answer) (oa_flush answer) (oa_bye answer)))
      else if oa_type answer = MDNS_TYPE_SRV then
        counted w (mdns_append_srv_record w b (oa_service answer) (oa_flush answer) (oa_bye answer))
      else if oa_type answer = MDNS_TYPE_TXT then do {
        (n, b1, w1) \<leftarrow> mdns_append_txt_record w b (oa_service answer) (oa_flush answer) (oa_bye answer);
        Some (if n > 0 then 1 else 0, b1, w1)
      }
      else if oa_type answer = MDNS_TYPE_SDPTR then
        counted w (mdns_append_sdptr_record w b (oa_service answer) (oa_flush answer) (oa_bye answer))
      else if oa_type answer = MDNS_TYPE_A then
        map_option (\<lambda>(n, b1). (n, b1, w)) (mdns_append_answer_a w b answer tcpip_if)
      else if oa_type answer = MDNS_TYPE_AAAA then
        map_option (\<lambda>(n, b1). (n, b1, w)) (mdns_append_answer_aaaa w b answer tcpip_if)
      else Some (0, b, w))"

section \<open>Whole packets\<close>

text \<open>The loops of \<^verbatim>\<open>_mdns_dispatch_tx_packet\<close>; the counter is a \<open>uint8_t\<close>.\<close>

fun append_questions ::
  "mdns_world \<Rightarrow> wbuf \<Rightarrow> mdns_out_question_t list \<Rightarrow> nat \<Rightarrow> (nat \<times> wbuf) option" where
  "append_questions w b [] count = Some (count, b)"
| "append_questions w b (q # qs) count = do {
     (n, b1) \<leftarrow> mdns_append_question w q b;
     append_questions w b1 qs (if n \<noteq> 0 then (count + 1) mod 256 else count)
   }"

fun append_answers ::
  "mdns_world \<Rightarrow> wbuf \<Rightarrow> mdns_out_answer_t list \<Rightarrow> tcpip_adapter_if_t \<Rightarrow> nat \<Rightarrow>
   (nat \<times> wbuf \<times> mdns_world) option" where
  "append_answers w b [] tcpip_if count = Some (count, b, w)"
| "append_answers w b (a # as) tcpip_if count = do {
     (n, b1, w1) \<leftarrow> mdns_append_answer w b a tcpip_if;
     append_answers w1 b1 as tcpip_if ((count + n) mod 256)
   }"

text \<open>Handing a datagram to lwIP; it is dropped when no buffer can be allocated or the interface
  is unknown.\<close>

definition mdns_udp_pcb_write ::
  "mdns_world \<Rightarrow> tcpip_adapter_if_t \<Rightarrow> mdns_ip_protocol_t \<Rightarrow> ip_addr_t \<Rightarrow> u16 \<Rightarrow> u8 list \<Rightarrow> nat \<Rightarrow>
   mdns_world option" where
  "mdns_udp_pcb_write w tcpip_if ip_protocol ip port data len =
     (let (ok, w1) = malloc w in
      if \<not> ok then Some w1
      else do {
        payload \<leftarrow> load_block data 0 len;
        if netif_error w1 tcpip_if then Some w1
        else Some (w1\<lparr>sent := \<lparr>dg_if = tcpip_if, dg_protocol = ip_protocol, dg_dst = ip,
               dg_port = port, dg_data = payload\<rparr> # sent w1\<rparr>)
      })"

definition mdns_dispatch_tx_packet :: "mdns_world \<Rightarrow> mdns_tx_packet_t \<Rightarrow> mdns_world option" where
  "mdns_dispatch_tx_packet w p = do {
     packet0 \<leftarrow> store_block (tx_buffer w) 0 (replicate MDNS_HEAD_LEN 0);
     packet1 \<leftarrow> mdns_set_u16 packet0 MDNS_HEAD_FLAGS_OFFSET (tx_flags p);
     (qn, b1) \<leftarrow> append_questions w (packet1, MDNS_HEAD_LEN) (tx_questions p) 0;
     packet2 \<leftarrow> mdns_set_u16 (fst b1) MDNS_HEAD_QUESTIONS_OFFSET (of_nat qn);
     (an, b2, w1) \<leftarrow> append_answers w (packet2, snd b1) (tx_answers p) (tx_if p) 0;
     packet3 \<leftarrow> mdns_set_u16 (fst b2) MDNS_HEAD_ANSWERS_OFFSET (of_nat an);
     (sn, b3, w2) \<leftarrow> append_answers w1 (packet3, snd b2) (tx_servers p) (tx_if p) 0;
     packet4 \<leftarrow> mdns_set_u16 (fst b3) MDNS_HEAD_SERVERS_OFFSET (of_nat sn);
     (xn, b4, w3) \<leftarrow> append_answers w2 (packet4, snd b3) (tx_additional p) (tx_if p) 0;
     packet5 \<leftarrow> mdns_set_u16 (fst b4) MDNS_HEAD_ADDITIONAL_OFFSET (of_nat xn);
     mdns_udp_pcb_write (w3\<lparr>tx_buffer := packet5\<rparr>) (tx_if p) (tx_protocol p) (tx_dst p)
       (tx_port p) packet5 (snd b4)
   }"

section \<open>Writers stay inside the buffer\<close>

text \<open>A writer that was started on the packet \<open>b\<close> only extends it.\<close>

definition grows :: "wbuf \<Rightarrow> (nat \<times> wbuf) option \<Rightarrow> bool" where
  "grows b m \<longleftrightarrow> (\<forall>n b'. m = Some (n, b') \<longrightarrow> extends b b')"

lemma growsD: "grows b m \<Longrightarrow> m = Some (n, b') \<Longrightarrow> extends b b'"
  unfolding grows_def by blast

lemma grows_Some: "extends b b' \<Longrightarrow> grows b (Some (n, b'))"
  by (auto simp: grows_def)

lemma grows_trans: "extends b b1 \<Longrightarrow> grows b1 m \<Longrightarrow> grows b m"
  using extends_trans by (auto simp: grows_def)

lemma grows_None [simp]: "grows b None"
  by (simp add: grows_def)

lemma grows_on_written:
  assumes "grows b m" "\<And>n b1. m = Some (n, b1) \<Longrightarrow> extends b b1 \<Longrightarrow> n mod 256 \<noteq> 0 \<Longrightarrow> grows b (k (n mod 256) b1)"
  shows "grows b (on_written m k)"
  using assms by (auto simp: on_written_def grows_def split: bind_splits if_splits)

lemma grows_bind:
  assumes "grows b m" "\<And>n b1. m = Some (n, b1) \<Longrightarrow> extends b b1 \<Longrightarrow> grows b (k (n, b1))"
  shows "grows b (m \<bind> k)"
  using assms by (cases m) (auto simp: grows_def)

text \<open>Patching a field that was reserved behind the start of the writer.\<close>

lemma extends_set_u16:
  assumes "mdns_set_u16 (fst b1) j v = Some p" "extends b b1" "snd b \<le> j"
  shows "extends b (p, snd b1)"
  using assms
  by (auto simp: extends_def mdns_set_u16_def store8_def split: if_splits bind_splits)

interpretation w32: safe_writer "\<lambda>v b. mdns_append_u32 b v"
proof unfold_locales
  fix b :: wbuf and v n b'
  assume ok: "wbuf_ok b"
  obtain p i where b: "b = (p, i)" by (cases b)
  have c: "mdns_append_u32 b v = Some (if i + 3 < MDNS_MAX_PACKET_SIZE
      then (4, put p i (u32_bytes v), i + 4) else (0, p, i))"
    using ok by (simp add: b wbuf_ok_def wire_simps)
  show "mdns_append_u32 b v = Some (n, b') \<Longrightarrow> extends b b'"
    using c ok extends_put [of i "u32_bytes v" p] by (auto simp: b wbuf_ok_def extends_refl split: if_splits)
  show "mdns_append_u32 b v \<noteq> None"
    using c by simp
qed

lemma append_type_Some:
  assumes "wbuf_ok b" "mdns_append_type b t f ttl = Some (n, b')"
  shows "extends b b'" "n = 0 \<and> b' = b \<or> n = 10 \<and> snd b' = snd b + 10 \<and> snd b' < MDNS_MAX_PACKET_SIZE"
proof -
  obtain p i where b: "b = (p, i)" by (cases b)
  have "extends b b' \<and> (n = 0 \<and> b' = b \<or> n = 10 \<and> snd b' = snd b + 10 \<and> snd b' < MDNS_MAX_PACKET_SIZE)"
  proof (cases "answer_rrtype t")
    case None
    then show ?thesis
      using assms by (auto simp: b mdns_append_type_def answer_rrtype_def Let_def wbuf_ok_refl split: if_splits)
  next
    case (Some rr)
    then show ?thesis
      using assms extends_put [of i "type_bytes rr f ttl" p]
      by (auto simp: b append_type_cases wbuf_ok_refl split: if_splits) (auto simp: wbuf_ok_def)
  qed
  then show "extends b b'" "n = 0 \<and> b' = b \<or> n = 10 \<and> snd b' = snd b + 10 \<and> snd b' < MDNS_MAX_PACKET_SIZE" by auto
qed

lemma append_type_returns: "wbuf_ok b \<Longrightarrow> mdns_append_type b t f ttl \<noteq> None"
proof (cases b; cases "answer_rrtype t")
  fix p i assume "wbuf_ok b" "b = (p, i)" "answer_rrtype t = None"
  then show ?thesis
    by (auto simp: mdns_append_type_def answer_rrtype_def Let_def split: if_splits)
next
  fix p i rr assume "wbuf_ok b" "b = (p, i)" "answer_rrtype t = Some rr"
  then show ?thesis by (simp add: append_type_cases)
qed

interpretation wtype: safe_writer "\<lambda>(t, f, ttl) b. mdns_append_type b t f ttl"
proof unfold_locales
  fix b :: wbuf and x :: "u8 \<times> bool \<times> u32" and n b'
  obtain t f ttl where x: "x = (t, f, ttl)" by (cases x)
  assume "wbuf_ok b"
  then show "(case x of (t, f, ttl) \<Rightarrow> \<lambda>b. mdns_append_type b t f ttl) b \<noteq> None"
    and "(case x of (t, f, ttl) \<Rightarrow> \<lambda>b. mdns_append_type b t f ttl) b = Some (n, b') \<Longrightarrow> extends b b'"
    using append_type_returns append_type_Some(1) by (simp_all add: x del: not_None_eq)
qed

text \<open>The four ways through \<^verbatim>\<open>_mdns_append_fqdn\<close> for a name with a first label.\<close>

lemma append_fqdn_ConsE:
  assumes "mdns_append_fqdn jnk b (s # ss) = Some (n, b')"
  obtains (unreadable) "b' = b" "n = 0"
    | (found) v where "mdns_append_u16 b v = Some (n, b')"
    | (full) "mdns_append_string b s = Some (0, b')" "n = 0"
    | (label) m b1 k where "mdns_append_string b s = Some (m, b1)" "m \<noteq> 0"
        "mdns_append_fqdn jnk b1 ss = Some (k, b')" "n = (m + k) mod 65536"
proof -
  obtain p i where b: "b = (p, i)" by (cases b)
  from assms obtain r where
    r: "mdns_find_fqdn p i (s # ss) (name_init (jnk p i (s # ss))) 0 = Some r"
    by (cases "mdns_find_fqdn p i (s # ss) (name_init (jnk p i (s # ss))) 0") (simp_all add: b)
  note run = assms [unfolded b mdns_append_fqdn.simps(2) r Option.bind.simps]
  show thesis
  proof (cases r)
    case Unreadable
    with run unreadable show thesis by (simp add: b)
  next
    case (Found loc)
    with run found show thesis by (simp add: b)
  next
    case Not_found
    with run obtain m b1 where m: "mdns_append_string b s = Some (m, b1)"
      by (cases "mdns_append_string b s") (auto simp: b)
    show thesis
    proof (cases "m = 0")
      case True
      with run Not_found m full show thesis by (simp add: b)
    next
      case False
      with run Not_found m obtain k b2 where "mdns_append_fqdn jnk b1 ss = Some (k, b2)"
        by (cases "mdns_append_fqdn jnk b1 ss") (auto simp: b)
      with run Not_found m False label show thesis by (simp add: b)
    qed
  qed
qed

lemma append_fqdn_extends:
  "wbuf_ok b \<Longrightarrow> mdns_append_fqdn jnk b ss = Some (n, b') \<Longrightarrow> extends b b'"
proof (induction ss arbitrary: b n b')
  case Nil
  then show ?case using w8.wr_extends by simp
next
  case (Cons s ss)
  from Cons.prems(2) show ?case
  proof (cases rule: append_fqdn_ConsE)
    case unreadable
    then show ?thesis using Cons.prems(1) wbuf_ok_refl by simp
  next
    case found
    then show ?thesis using w16.wr_extends Cons.prems(1) by blast
  next
    case full
    then show ?thesis using wstr.wr_extends Cons.prems(1) by blast
  next
    case label
    then show ?thesis
      using wstr.wr_extends [OF Cons.prems(1)] wstr.wr_ok [OF Cons.prems(1)] Cons.IH extends_trans by blast
  qed
qed

interpretation wfqdn: packet_writer "\<lambda>(jnk, ss) b. mdns_append_fqdn jnk b ss"
  by unfold_locales (auto dest: append_fqdn_extends)

text \<open>The writers as rules for \<open>grows\<close>: started on \<open>b\<close>, now at \<open>b1\<close>.\<close>

lemma grows_writer:
  assumes "wbuf_ok b" "extends b b1"
  shows "grows b (mdns_append_u8 b1 v8)" "grows b (mdns_append_u16 b1 v16)"
    "grows b (mdns_append_string b1 s)" "grows b (mdns_append_type b1 t f ttl)"
    "grows b (mdns_append_fqdn jnk b1 ss)"
proof -
  have ok: "wbuf_ok b1" by (rule wbuf_ok_extends [OF assms])
  show "grows b (mdns_append_u8 b1 v8)" "grows b (mdns_append_u16 b1 v16)"
    "grows b (mdns_append_string b1 s)" "grows b (mdns_append_type b1 t f ttl)"
    "grows b (mdns_append_fqdn jnk b1 ss)"
    using w8.wr_extends [OF ok] w16.wr_extends [OF ok] wstr.wr_extends [OF ok]
      append_type_Some(1) [OF ok] append_fqdn_extends [OF ok] extends_trans [OF assms(2)]
    by (auto simp: grows_def)
qed

text \<open>The last two bytes of a type header lie behind the start of the writer.\<close>

lemma type_len_field:
  assumes "mdns_append_type b1 t f ttl = Some (n, b2)" "n mod 256 \<noteq> 0" "extends b b1" "wbuf_ok b"
  shows "snd b \<le> snd b2 - 2"
  using append_type_Some(2) [OF wbuf_ok_extends [OF assms(4,3)] assms(1)] assms(2,3)
  by (auto simp: extends_def)

lemma type_len_field_0:
  assumes "mdns_append_type b1 t f ttl = Some (n, b2)" "n \<noteq> 0" "extends b b1" "wbuf_ok b"
  shows "snd b \<le> snd b2 - 2"
  using append_type_Some(2) [OF wbuf_ok_extends [OF assms(4,3)] assms(1)] assms(2,3)
  by (auto simp: extends_def)

section \<open>The record writers\<close>

text \<open>Structural rules: strings, services, buffers and case distinctions.\<close>

lemma grows_bind_string: "(\<And>a s. m = Some (a, s) \<Longrightarrow> grows b (k a s)) \<Longrightarrow> grows b ((m :: cptr option) \<bind> (\<lambda>(a, s). k a s))"
  by (cases m) auto

lemma grows_bind_service: "(\<And>s. m = Some s \<Longrightarrow> grows b (k s)) \<Longrightarrow> grows b ((m :: mdns_service_t option) \<bind> k)"
  by (cases m) auto

lemma grows_bind_bytes: "(\<And>s. m = Some s \<Longrightarrow> grows b (k s)) \<Longrightarrow> grows b ((m :: u8 list option) \<bind> k)"
  by (cases m) auto

lemma grows_bind_writer:
  assumes "grows b m" "\<And>n b1. m = Some (n, b1) \<Longrightarrow> extends b b1 \<Longrightarrow> grows b (k n b1)"
  shows "grows b (m \<bind> (\<lambda>(n, b1). k n b1))"
  using assms by (cases m) (auto simp: grows_def)

lemma grows_option: "(x = None \<Longrightarrow> grows b m) \<Longrightarrow> (\<And>y. x = Some y \<Longrightarrow> grows b (k y)) \<Longrightarrow>
    grows b (case x of None \<Rightarrow> m | Some y \<Rightarrow> k y)"
  by (cases x) auto

lemma grows_prod: "(\<And>y z. x = (y, z) \<Longrightarrow> grows b (k y z)) \<Longrightarrow> grows b (case x of (y, z) \<Rightarrow> k y z)"
  by (cases x) auto

lemma grows_if: "(c \<Longrightarrow> grows b m) \<Longrightarrow> (\<not> c \<Longrightarrow> grows b k) \<Longrightarrow> grows b (if c then m else k)"
  by simp

lemmas grows_intros = grows_option grows_prod grows_if grows_on_written grows_bind_writer
  grows_bind_string grows_bind_service grows_bind_bytes grows_Some
  grows_writer extends_set_u16

lemma grows_ptr_record:
  assumes "wbuf_ok b"
  shows "grows b (mdns_append_ptr_record w b inst service proto flush bye)"
  unfolding mdns_append_ptr_record_def
  by (intro grows_intros wbuf_ok_refl) (assumption | rule assms type_len_field)+

lemma grows_sdptr_record:
  assumes "wbuf_ok b"
  shows "grows b (mdns_append_sdptr_record w b service flush bye)"
  unfolding mdns_append_sdptr_record_def
  by (intro grows_intros wbuf_ok_refl) (assumption | rule assms type_len_field)+

lemma grows_srv_record:
  assumes "wbuf_ok b"
  shows "grows b (mdns_append_srv_record w b service flush bye)"
  unfolding mdns_append_srv_record_def
  by (intro grows_intros wbuf_ok_refl) (assumption | rule assms type_len_field)+

lemma grows_a_record:
  assumes "wbuf_ok b"
  shows "grows b (mdns_append_a_record w b ip flush bye)"
  unfolding mdns_append_a_record_def
  by (intro grows_intros wbuf_ok_refl) (assumption | rule assms type_len_field)+

lemma grows_question:
  assumes "wbuf_ok b"
  shows "grows b (mdns_append_question w q b)"
  unfolding mdns_append_question_def
  by (intro grows_intros wbuf_ok_refl) (assumption | rule assms type_len_field)+

lemma extends_store_block:
  assumes "extends b b1" "store_block (fst b1) (snd b1) bs = Some p" "wbuf_ok b"
    "snd b1 + length bs \<le> MDNS_MAX_PACKET_SIZE"
  shows "extends b (p, snd b1 + length bs)"
proof -
  have "p = put (fst b1) (snd b1) bs" "MDNS_MAX_PACKET_SIZE \<le> length (fst b1)"
    using assms(1-3) by (auto simp: store_block_Some_iff put_def extends_def wbuf_ok_def)
  then show ?thesis
    using extends_put [of "snd b1" bs "fst b1"] extends_trans [OF assms(1)] assms(4) by simp
qed

lemma grows_aaaa_record:
  assumes "wbuf_ok b"
  shows "grows b (mdns_append_aaaa_record w b ip flush bye)"
  unfolding mdns_append_aaaa_record_def
proof (intro grows_intros)
  fix b1 n2 b2 addr p1 p2
  assume "extends b b2" "load_block ip 0 16 = Some addr" "store_block (fst b2) (snd b2) addr = Some p1"
    and room: "\<not> MDNS_MAX_PACKET_SIZE < snd b2 + 16"
    and t: "mdns_append_type b1 16 flush (if bye then 0 else 120) = Some (n2, b2)" "extends b b1" "n2 mod 256 \<noteq> 0"
    and s: "mdns_set_u16 p1 (snd b2 - 2) (of_nat 16) = Some p2"
  then have "extends b (p1, snd b2 + 16)"
    using extends_store_block [OF _ _ assms, of b2 addr p1] length_load_block [of ip 0 16 addr] room by simp
  then show "extends b (p2, snd b2 + 16)"
    using extends_set_u16 [of "(p1, snd b2 + 16)" "snd b2 - 2" _ p2 b] type_len_field [OF t(1,3,2) assms] s by simp
qed (assumption | rule assms wbuf_ok_refl)+

text \<open>What a writer may change of the world: only outcomes of allocations are consumed.\<close>

definition same_server :: "mdns_world \<Rightarrow> mdns_world \<Rightarrow> bool" where
  "same_server w w' \<longleftrightarrow> (\<exists>k. w' = w\<lparr>alloc_script := drop k (alloc_script w)\<rparr>)"

lemma same_server_refl [simp]: "same_server w w"
  by (auto simp: same_server_def intro: exI [of _ 0])

lemma same_server_trans: "same_server w w1 \<Longrightarrow> same_server w1 w2 \<Longrightarrow> same_server w w2"
  by (auto simp: same_server_def)

lemma malloc_same: "malloc w = (ok, w') \<Longrightarrow> same_server w w'"
  by (auto simp: malloc_def same_server_def intro: exI [of _ 0] exI [of _ 1] split: list.splits)

lemma append_txt_items_extends:
  assumes "mdns_append_txt_items w b items n = Some (m, ok, b', w')" "wbuf_ok b"
  shows "extends b b' \<and> same_server w w'"
  using assms
proof (induction w b items n rule: mdns_append_txt_items.induct)
  case (1 w b n)
  then show ?case by (auto simp: wbuf_ok_refl)
next
  case (2 w b key val items n)
  obtain ok1 w1 where ma: "malloc w = (ok1, w1)" by (cases "malloc w")
  note same = malloc_same [OF ma]
  show ?case
  proof (cases ok1)
    case True
    with 2(3) ma obtain l b1 where l: "mdns_append_string b (key @ lit ''='' @ val) = Some (l, b1)"
      and rest: "l = 0 \<and> b' = b1 \<and> w' = w1 \<or>
        l \<noteq> 0 \<and> mdns_append_txt_items w1 b1 items ((n + l) mod 65536) = Some (m, ok, b', w')"
      by (auto split: bind_splits if_splits)
    have e: "extends b b1" "wbuf_ok b1"
      using wstr.wr_extends [OF 2(4) l] wstr.wr_ok [OF 2(4) l] .
    show ?thesis
      using rest e same 2(1) [OF refl ma [symmetric] True l refl] extends_trans same_server_trans by blast
  next
    case False
    with 2 ma same same_server_trans show ?thesis by fastforce
  qed
qed

text \<open>The length of the items is the number of bytes by which they move the write offset.\<close>

lemma append_string_written:
  assumes "mdns_append_string b s = Some (n, b')" "n \<noteq> 0"
  shows "snd b' = snd b + n"
proof -
  obtain p i where b: "b = (p, i)" by (cases b)
  have "n = (length s mod 256 + 1) mod 256" "snd b' = i + 1 + length s mod 256"
    using assms by (auto simp: b mdns_append_string_def mdns_append_u8_def Let_def split: if_splits bind_splits)
  moreover have "length s mod 256 + 1 < 256"
    using calculation(1) assms(2) by (cases "length s mod 256 = 255") auto
  ultimately show ?thesis by (simp add: b)
qed

lemma append_txt_items_count:
  assumes "mdns_append_txt_items w b items n = Some (m, True, b', w')" "n < 65536"
  shows "snd b \<le> snd b' \<and> m = (n + (snd b' - snd b)) mod 65536"
  using assms
proof (induction w b items n rule: mdns_append_txt_items.induct)
  case (2 w b key val items n)
  obtain ok1 w1 where ma: "malloc w = (ok1, w1)" by (cases "malloc w")
  show ?case
  proof (cases ok1)
    case True
    with 2(3) ma obtain l b1 where l: "mdns_append_string b (key @ lit ''='' @ val) = Some (l, b1)" "l \<noteq> 0"
      and rest: "mdns_append_txt_items w1 b1 items ((n + l) mod 65536) = Some (m, True, b', w')"
      by (auto split: bind_splits if_splits)
    have "snd b1 \<le> snd b' \<and> m = ((n + l) mod 65536 + (snd b' - snd b1)) mod 65536"
      by (rule 2(1) [OF refl ma [symmetric] True l(1) refl l(2) rest]) simp
    with append_string_written [OF l] show ?thesis by (auto simp: mod_simps)
  next
    case False
    with 2 ma show ?thesis by fastforce
  qed
qed simp

text \<open>The same for writers that can allocate memory.\<close>

definition growsw :: "wbuf \<Rightarrow> mdns_world \<Rightarrow> (nat \<times> wbuf \<times> mdns_world) option \<Rightarrow> bool" where
  "growsw b w m \<longleftrightarrow> (\<forall>n b' w'. m = Some (n, b', w') \<longrightarrow> extends b b' \<and> same_server w w')"

lemma growswD: "growsw b w m \<Longrightarrow> m = Some (n, b', w') \<Longrightarrow> extends b b' \<and> same_server w w'"
  unfolding growsw_def by blast

lemma growsw_Some: "extends b b' \<Longrightarrow> same_server w w' \<Longrightarrow> growsw b w (Some (n, b', w'))"
  by (auto simp: growsw_def)

lemma growsw_None [simp]: "growsw b w None"
  by (simp add: growsw_def)

lemma growsw_bind_writer:
  assumes "grows b m" "\<And>n b1. m = Some (n, b1) \<Longrightarrow> extends b b1 \<Longrightarrow> growsw b w (k n b1)"
  shows "growsw b w (m \<bind> (\<lambda>(n, b1). k n b1))"
  using assms by (cases m) (auto simp: grows_def)

lemma growsw_bind_service: "(\<And>s. m = Some s \<Longrightarrow> growsw b w (k s)) \<Longrightarrow> growsw b w ((m :: mdns_service_t option) \<bind> k)"
  by (cases m) auto

lemma growsw_bind_bytes: "(\<And>s. m = Some s \<Longrightarrow> growsw b w (k s)) \<Longrightarrow> growsw b w ((m :: u8 list option) \<bind> k)"
  by (cases m) auto

lemma growsw_option: "(x = None \<Longrightarrow> growsw b w m) \<Longrightarrow> (\<And>y. x = Some y \<Longrightarrow> growsw b w (k y)) \<Longrightarrow>
    growsw b w (case x of None \<Rightarrow> m | Some y \<Rightarrow> k y)"
  by (cases x) auto

lemma growsw_prod: "(\<And>y z. x = (y, z) \<Longrightarrow> growsw b w (k y z)) \<Longrightarrow> growsw b w (case x of (y, z) \<Rightarrow> k y z)"
  by (cases x) auto

lemma growsw_if: "(c \<Longrightarrow> growsw b w m) \<Longrightarrow> (\<not> c \<Longrightarrow> growsw b w k) \<Longrightarrow> growsw b w (if c then m else k)"
  by simp

lemma growsw_bind_items:
  assumes "wbuf_ok b" "extends b b1"
    "\<And>n ok b2 w2. extends b b2 \<Longrightarrow> same_server w w2 \<Longrightarrow> ok \<longrightarrow> n = (snd b2 - snd b1) mod 65536 \<and> snd b1 \<le> snd b2 \<Longrightarrow>
      growsw b w (k n ok b2 w2)"
  shows "growsw b w (mdns_append_txt_items w b1 txt 0 \<bind> (\<lambda>(n, ok, b2, w2). k n ok b2 w2))"
proof (cases "mdns_append_txt_items w b1 txt 0")
  case (Some r)
  obtain n ok b2 w2 where r: "r = (n, ok, b2, w2)" by (cases r)
  note items = Some [unfolded r]
  have "extends b b2" "same_server w w2"
    using append_txt_items_extends [OF items wbuf_ok_extends [OF assms(1,2)]] extends_trans [OF assms(2)] by auto
  moreover have "ok \<longrightarrow> n = (snd b2 - snd b1) mod 65536 \<and> snd b1 \<le> snd b2"
    using append_txt_items_count [of w b1 "txt" 0 n b2 w2] items by auto
  ultimately show ?thesis using assms(3) by (simp add: Some r)
qed simp

text \<open>The empty item is stored without a test of the room: the type header left at least one byte.\<close>

lemma txt_empty_room:
  assumes "mdns_append_type b1 t f ttl = Some (n2, b2)" "n2 \<noteq> 0" "extends b b1" "wbuf_ok b" "extends b b3"
    "ok \<longrightarrow> n = (snd b3 - snd b2) mod 65536 \<and> snd b2 \<le> snd b3" "\<not> \<not> ok" "n = 0"
  shows "snd b3 < MDNS_MAX_PACKET_SIZE"
proof -
  have "snd b2 < MDNS_MAX_PACKET_SIZE"
    using append_type_Some(2) [OF wbuf_ok_extends [OF assms(4,3)] assms(1)] assms(2) by auto
  moreover have "snd b3 \<le> MDNS_MAX_PACKET_SIZE" using assms(5) by (simp add: extends_def)
  ultimately show ?thesis using assms(6-8) by auto
qed

lemmas growsw_intros = growsw_option growsw_prod growsw_if growsw_bind_writer growsw_bind_service
  growsw_bind_bytes growsw_bind_items growsw_Some

lemma extends_store8:
  assumes "store8 (fst b1) (snd b1) v = Some p" "extends b b1" "wbuf_ok b" "snd b1 < MDNS_MAX_PACKET_SIZE"
  shows "extends b (p, snd b1 + 1)"
  using extends_store_block [OF assms(2) _ assms(3), of "[v]" p] assms(1,4)
  by (simp add: store8_def store_block_def upd_conv_take_nth_drop split: if_splits)

lemma growsw_txt_record:
  assumes "wbuf_ok b"
  shows "growsw b w (mdns_append_txt_record w b service flush bye)"
  unfolding mdns_append_txt_record_def
  by (intro growsw_intros grows_intros wbuf_ok_refl)
    (assumption | rule assms same_server_refl type_len_field_0 extends_store8 txt_empty_room)+

lemma grows_answer_a:
  assumes "wbuf_ok b"
  shows "grows b (mdns_append_answer_a w b answer i)"
proof -
  have rec: "grows b (mdns_append_a_record w b1 ip f y)" if "extends b b1" for b1 ip f y
    using grows_trans [OF that grows_a_record] wbuf_ok_extends [OF assms that] by blast
  show ?thesis
    unfolding mdns_append_answer_a_def
    by (intro grows_intros rec wbuf_ok_refl) (assumption | rule assms)+
qed

lemma grows_answer_aaaa:
  assumes "wbuf_ok b"
  shows "grows b (mdns_append_answer_aaaa w b answer i)"
proof -
  have rec: "grows b (mdns_append_aaaa_record w b1 ip f y)" if "extends b b1" for b1 ip f y
    using grows_trans [OF that grows_aaaa_record] wbuf_ok_extends [OF assms that] by blast
  show ?thesis
    unfolding mdns_append_answer_aaaa_def
    by (intro grows_intros rec wbuf_ok_refl) (assumption | rule assms)+
qed

lemma growsw_counted: "grows b m \<Longrightarrow> growsw b w (counted w m)"
  by (auto simp: growsw_def grows_def counted_def)

lemma growsw_map: "grows b m \<Longrightarrow> growsw b w (map_option (\<lambda>(n, b1). (n, b1, w)) m)"
  by (auto simp: growsw_def grows_def)

lemma growsw_bind_txt:
  assumes "growsw b w m"
  shows "growsw b w (m \<bind> (\<lambda>(n, b1, w1). Some (f n, b1, w1)))"
  using assms by (cases m) (auto simp: growsw_def)

lemma growsw_answer:
  assumes "wbuf_ok b"
  shows "growsw b w (mdns_append_answer w b answer i)"
  unfolding mdns_append_answer_def
  by (intro growsw_if growsw_option growsw_bind_service growsw_counted growsw_map growsw_bind_txt
      growsw_Some growsw_txt_record grows_ptr_record grows_srv_record grows_sdptr_record
      grows_answer_a grows_answer_aaaa assms wbuf_ok_refl same_server_refl)

lemma append_questions_extends:
  assumes "append_questions w b qs n = Some (m, b')" "wbuf_ok b"
  shows "extends b b'"
  using assms
proof (induction qs arbitrary: b n)
  case Nil
  then show ?case by (simp add: wbuf_ok_refl)
next
  case (Cons q qs)
  then obtain k b1 n1 where q: "mdns_append_question w q b = Some (k, b1)"
    "append_questions w b1 qs n1 = Some (m, b')"
    by (auto split: bind_splits)
  have e: "extends b b1"
    by (rule growsD [OF grows_question [OF Cons.prems(2)] q(1)])
  then show ?case
    using Cons.IH [OF q(2)] wbuf_ok_extends [OF Cons.prems(2)] extends_trans by blast
qed

lemma append_answers_extends:
  assumes "append_answers w b as i n = Some (m, b', w')" "wbuf_ok b"
  shows "extends b b' \<and> same_server w w'"
  using assms
proof (induction as arbitrary: w b n)
  case Nil
  then show ?case by (auto simp: wbuf_ok_refl)
next
  case (Cons a as)
  then obtain k b1 w1 n1 where a: "mdns_append_answer w b a i = Some (k, b1, w1)"
    "append_answers w1 b1 as i n1 = Some (m, b', w')"
    by (auto split: bind_splits)
  have e: "extends b b1 \<and> same_server w w1"
    by (rule growswD [OF growsw_answer [OF Cons.prems(2)] a(1)])
  then show ?case
    using Cons.IH [OF a(2)] wbuf_ok_extends [OF Cons.prems(2)] extends_trans same_server_trans by blast
qed

section \<open>Writers return\<close>

text \<open>The memory behind the packet buffer: a guard zone of zero bytes. The search for an earlier occurrence of a
  name may read there, because the reader of names does not test the end of the buffer; it then stops at a zero.\<close>

definition GUARD_LEN :: nat where
  "GUARD_LEN = 256"

definition guarded :: "wbuf \<Rightarrow> bool" where
  "guarded b \<longleftrightarrow> wbuf_ok b \<and> drop MDNS_MAX_PACKET_SIZE (fst b) = replicate GUARD_LEN 0"

lemma guarded_ok: "guarded b \<Longrightarrow> wbuf_ok b"
  by (simp add: guarded_def)

lemma guarded_extends: "guarded b \<Longrightarrow> extends b b' \<Longrightarrow> guarded b'"
  using wbuf_ok_extends [of b b'] by (simp add: guarded_def) (simp add: extends_def)

lemma guarded_fresh:
  assumes "guarded (p, i)"
  shows "fresh_from p MDNS_MAX_PACKET_SIZE" "length p = MDNS_MAX_PACKET_SIZE + GUARD_LEN" "i \<le> MDNS_MAX_PACKET_SIZE"
proof -
  have d: "drop 1460 p = replicate GUARD_LEN 0" "1460 \<le> length p"
    using assms by (simp_all add: guarded_def wbuf_ok_def)
  show "length p = MDNS_MAX_PACKET_SIZE + GUARD_LEN"
    using arg_cong [OF d(1), of length] d(2) by simp
  then show "fresh_from p MDNS_MAX_PACKET_SIZE"
    unfolding fresh_from_def
  proof (intro allI impI)
    fix k assume "k < length p" "MDNS_MAX_PACKET_SIZE \<le> k"
    then show "p ! k = 0"
      using d \<open>length p = _\<close> nth_drop [of 1460 p "k - 1460"] by simp
  qed
  show "i \<le> MDNS_MAX_PACKET_SIZE"
    using assms by (simp add: guarded_def wbuf_ok_def)
qed

lemma find_fqdn_guarded:
  assumes "guarded (p, i)"
  shows "mdns_find_fqdn p i ss nm from \<noteq> None"
  using assms
proof (induction p i ss nm "from" rule: mdns_find_fqdn.induct)
  case (1 p i ss nm "from")
  let ?l = "length (hd ss) mod 256"
  note g = guarded_fresh [OF "1.prems"]
  show ?case
  proof (cases "memchr p (of_nat ?l) from i")
    case None
    then show ?thesis by (subst mdns_find_fqdn.simps) (simp add: Let_def)
  next
    case (Some k)
    have k: "k < i" by (rule memchr_Some(2) [OF Some])
    have "?l < 256" by simp
    then have bl: "load_block p (k + 1) ?l = Some (take ?l (drop (k + 1) p))"
      using k g(2,3) by (simp add: load_block_def GUARD_LEN_def)
    obtain c n1 where r: "mdns_read_fqdn p k (name_init (n_invalid nm)) = Some (c, n1)"
      using read_labels_fresh [OF g(1), of k k "name_init (n_invalid nm)"] k g(2,3)
      by (auto simp: mdns_read_fqdn_def name_init_def GUARD_LEN_def)
    show ?thesis
      using Some bl r "1.IH"(1) [OF refl _ _ _ "1.prems"] "1.IH"(2) [OF refl _ _ _ r refl _ _ "1.prems"]
      by (subst mdns_find_fqdn.simps) (auto simp: Let_def)
  qed
qed

lemma append_fqdn_guarded: "guarded b \<Longrightarrow> mdns_append_fqdn jnk b ss \<noteq> None"
proof (induction ss arbitrary: b)
  case Nil
  then show ?case using w8.wr_returns guarded_ok by (simp del: not_None_eq)
next
  case (Cons s ss)
  obtain p i where b: "b = (p, i)" by (cases b)
  obtain r where r: "mdns_find_fqdn p i (s # ss) (name_init (jnk p i (s # ss))) 0 = Some r"
    using find_fqdn_guarded [OF Cons.prems [unfolded b], of "s # ss" "name_init (jnk p i (s # ss))" 0] by blast
  obtain n b1 where st: "mdns_append_string b s = Some (n, b1)" "extends b b1"
    using wstr.wr_total [OF guarded_ok [OF Cons.prems]] by blast
  have "mdns_append_fqdn jnk b1 ss \<noteq> None"
    by (rule Cons.IH [OF guarded_extends [OF Cons.prems st(2)]])
  moreover have "mdns_append_u16 b v \<noteq> None" for v
    using w16.wr_returns guarded_ok [OF Cons.prems] .
  ultimately show ?case
    using r st(1) by (cases r) (auto simp: b)
qed

text \<open>Started on a guarded packet \<open>b\<close> a writer returns and extends it.\<close>

definition runs :: "wbuf \<Rightarrow> (nat \<times> wbuf) option \<Rightarrow> bool" where
  "runs b m \<longleftrightarrow> grows b m \<and> m \<noteq> None"

lemma runs_Some: "extends b b' \<Longrightarrow> runs b (Some (n, b'))"
  by (auto simp: runs_def grows_def)

lemma runs_on_written:
  assumes "runs b m" "\<And>n b1. m = Some (n, b1) \<Longrightarrow> extends b b1 \<Longrightarrow> n mod 256 \<noteq> 0 \<Longrightarrow> runs b (k (n mod 256) b1)"
  shows "runs b (on_written m k)"
  using assms by (auto simp: on_written_def runs_def grows_def split: bind_splits)

lemma runs_bind_writer:
  assumes "runs b m" "\<And>n b1. m = Some (n, b1) \<Longrightarrow> extends b b1 \<Longrightarrow> runs b (k n b1)"
  shows "runs b (m \<bind> (\<lambda>(n, b1). k n b1))"
  using assms by (auto simp: runs_def grows_def)

lemma runs_bind_bytes: "m \<noteq> None \<Longrightarrow> (\<And>s. m = Some s \<Longrightarrow> runs b (k s)) \<Longrightarrow> runs b ((m :: u8 list option) \<bind> k)"
  by (cases m) auto

lemma runs_bind_service: "m \<noteq> None \<Longrightarrow> (\<And>s. m = Some s \<Longrightarrow> runs b (k s)) \<Longrightarrow> runs b ((m :: mdns_service_t option) \<bind> k)"
  by (cases m) auto

lemma runs_bind_string: "m \<noteq> None \<Longrightarrow> (\<And>a s. m = Some (a, s) \<Longrightarrow> runs b (k a s)) \<Longrightarrow> runs b ((m :: cptr option) \<bind> (\<lambda>(a, s). k a s))"
  by (cases m) auto

lemma runs_option: "(x = None \<Longrightarrow> runs b m) \<Longrightarrow> (\<And>y. x = Some y \<Longrightarrow> runs b (k y)) \<Longrightarrow>
    runs b (case x of None \<Rightarrow> m | Some y \<Rightarrow> k y)"
  by (cases x) auto

lemma runs_prod: "(\<And>y z. x = (y, z) \<Longrightarrow> runs b (k y z)) \<Longrightarrow> runs b (case x of (y, z) \<Rightarrow> k y z)"
  by (cases x) auto

lemma runs_if: "(c \<Longrightarrow> runs b m) \<Longrightarrow> (\<not> c \<Longrightarrow> runs b k) \<Longrightarrow> runs b (if c then m else k)"
  by simp

lemma runs_writer:
  assumes "guarded b" "extends b b1"
  shows "runs b (mdns_append_u8 b1 v8)" "runs b (mdns_append_u16 b1 v16)"
    "runs b (mdns_append_type b1 t f ttl)" "runs b (mdns_append_fqdn jnk b1 ss)"
proof -
  note g = guarded_extends [OF assms] and grow = grows_writer [OF guarded_ok [OF assms(1)] assms(2)]
  show "runs b (mdns_append_u8 b1 v8)" "runs b (mdns_append_u16 b1 v16)"
    "runs b (mdns_append_type b1 t f ttl)" "runs b (mdns_append_fqdn jnk b1 ss)"
    unfolding runs_def
    by (intro conjI grow w8.wr_returns w16.wr_returns append_type_returns append_fqdn_guarded guarded_ok g)+
qed

lemma set_u16_guarded: "guarded b \<Longrightarrow> extends b b1 \<Longrightarrow> mdns_set_u16 (fst b1) j v \<noteq> None"
  using guarded_ok [OF guarded_extends] by (fastforce simp: mdns_set_u16_def store8_def wbuf_ok_def)

lemma append_txt_items_returns:
  "wbuf_ok b \<Longrightarrow> mdns_append_txt_items w b items n \<noteq> None"
proof (induction w b items n rule: mdns_append_txt_items.induct)
  case (2 w b key val items n)
  obtain ok1 w1 where ma: "malloc w = (ok1, w1)" by (cases "malloc w")
  obtain l b1 where l: "mdns_append_string b (key @ lit ''='' @ val) = Some (l, b1)" "wbuf_ok b1"
    using wstr.wr_total [OF 2(3)] by blast
  show ?case
    using 2(1) [OF refl ma [symmetric] _ l(1) refl _ l(2)] 2(2) [OF refl ma [symmetric] _ 2(3)] ma l(1)
    by (cases ok1) auto
qed simp

lemmas runs_intros = runs_option runs_prod runs_if runs_on_written runs_bind_writer
  runs_bind_string runs_bind_service runs_bind_bytes runs_Some runs_writer extends_set_u16 set_u16_guarded

lemma runs_ptr_record:
  assumes "guarded b" "service \<noteq> None \<Longrightarrow> proto \<noteq> None" "service \<noteq> None \<Longrightarrow> inst \<noteq> None"
  shows "runs b (mdns_append_ptr_record w b inst service proto flush bye)"
proof (cases service)
  case (Some sp)
  note ok = guarded_ok [OF assms(1)] and pi = assms(2,3) [OF option.discI [OF Some]]
  show ?thesis
    unfolding mdns_append_ptr_record_def
    by (intro runs_intros wbuf_ok_refl) (assumption | rule ok assms(1) pi type_len_field)+
qed (simp add: mdns_append_ptr_record_def runs_Some wbuf_ok_refl guarded_ok assms(1))

lemma runs_sdptr_record:
  assumes "guarded b" "\<And>a. service = Some a \<Longrightarrow> srv_heap w a \<noteq> None"
  shows "runs b (mdns_append_sdptr_record w b service flush bye)"
  unfolding mdns_append_sdptr_record_def
  by (intro runs_intros wbuf_ok_refl) (assumption | rule assms guarded_ok type_len_field)+

lemma runs_srv_record:
  assumes "guarded b" "\<And>a. service = Some a \<Longrightarrow> srv_heap w a \<noteq> None"
  shows "runs b (mdns_append_srv_record w b service flush bye)"
  unfolding mdns_append_srv_record_def
  by (intro runs_intros wbuf_ok_refl) (assumption | rule assms guarded_ok type_len_field)+

lemma runs_a_record:
  assumes "guarded b"
  shows "runs b (mdns_append_a_record w b ip flush bye)"
  unfolding mdns_append_a_record_def
  by (intro runs_intros wbuf_ok_refl) (assumption | rule assms guarded_ok type_len_field)+

lemma runs_question:
  assumes "guarded b"
  shows "runs b (mdns_append_question w q b)"
  unfolding mdns_append_question_def
  by (intro runs_intros wbuf_ok_refl) (assumption | rule assms guarded_ok type_len_field)+

lemma runs_aaaa_record:
  assumes "guarded b" "MDNS_ANSWER_AAAA_SIZE \<le> length ip6"
  shows "runs b (mdns_append_aaaa_record w b ip6 flush bye)"
proof -
  have "mdns_append_aaaa_record w b ip6 flush bye \<noteq> None"
  proof (cases "str_null_or_empty (hostname w)")
    case False
    then obtain a host where h: "hostname w = Some (a, host)" "host \<noteq> []"
      by (auto simp: str_null_or_empty_def split: option.splits)
    have room: "store_block (fst b2) (snd b2) addr \<noteq> None" "length addr = 16" "\<And>q. length q = length (fst b2) \<Longrightarrow> mdns_set_u16 q j v \<noteq> None"
      if "extends b b2" "\<not> MDNS_MAX_PACKET_SIZE < snd b2 + MDNS_ANSWER_AAAA_SIZE" "load_block ip6 0 MDNS_ANSWER_AAAA_SIZE = Some addr" for b2 addr j v
      using guarded_ok [OF guarded_extends [OF assms(1) that(1)]] that(2) length_load_block [OF that(3)]
      by (auto simp: wbuf_ok_def store_block_def mdns_set_u16_def store8_def)
    have rest: "runs b (do {
                addr \<leftarrow> load_block ip6 0 MDNS_ANSWER_AAAA_SIZE;
                packet1 \<leftarrow> store_block (fst b2) (snd b2) addr;
                packet2 \<leftarrow> mdns_set_u16 packet1 (snd b2 - 2) (of_nat MDNS_ANSWER_AAAA_SIZE);
                Some (n, packet2, snd b2 + MDNS_ANSWER_AAAA_SIZE)
              })" if "extends b b2" "\<not> MDNS_MAX_PACKET_SIZE < snd b2 + MDNS_ANSWER_AAAA_SIZE" "snd b \<le> snd b2 - 2" for b2 n
    proof (intro runs_bind_bytes)
      show "load_block ip6 0 MDNS_ANSWER_AAAA_SIZE \<noteq> None"
        using assms(2) by (simp add: load_block_def)
      fix addr p1
      assume l: "load_block ip6 0 MDNS_ANSWER_AAAA_SIZE = Some addr"
      note rm = room [OF that(1,2) l]
      show "store_block (fst b2) (snd b2) addr \<noteq> None" by (rule rm(1))
      assume p1: "store_block (fst b2) (snd b2) addr = Some p1"
      show "mdns_set_u16 p1 (snd b2 - 2) (of_nat MDNS_ANSWER_AAAA_SIZE) \<noteq> None"
        by (rule rm(3)) (rule length_store_block [OF p1])
      fix p2
      assume p2: "mdns_set_u16 p1 (snd b2 - 2) (of_nat MDNS_ANSWER_AAAA_SIZE) = Some p2"
      have e: "extends b (p1, snd b2 + 16)"
        using extends_store_block [OF that(1) p1 guarded_ok [OF assms(1)]] that(2) rm(2) by simp
      show "runs b (Some (n, p2, snd b2 + MDNS_ANSWER_AAAA_SIZE))"
        using extends_set_u16 [of "(p1, snd b2 + 16)", OF _ e that(3)] p2 by (intro runs_Some) simp
    qed
    have "runs b (mdns_append_aaaa_record w b ip6 flush bye)"
      unfolding mdns_append_aaaa_record_def h option.case prod.case if_not_P [OF h(2)]
      by (intro runs_on_written runs_if rest runs_writer runs_Some)
        (assumption | rule assms(1) wbuf_ok_refl guarded_ok type_len_field)+
    then show ?thesis by (simp add: runs_def)
  qed (auto simp: mdns_append_aaaa_record_def str_null_or_empty_def split: option.splits)
  then show ?thesis
    unfolding runs_def using grows_aaaa_record [OF guarded_ok [OF assms(1)]] by blast
qed

text \<open>The writers that can allocate memory, and all writers together.\<close>

definition runsw :: "wbuf \<Rightarrow> mdns_world \<Rightarrow> (nat \<times> wbuf \<times> mdns_world) option \<Rightarrow> bool" where
  "runsw b w m \<longleftrightarrow> growsw b w m \<and> m \<noteq> None"

lemma bind_returns: "m \<noteq> None \<Longrightarrow> (\<And>x. m = Some x \<Longrightarrow> k x \<noteq> None) \<Longrightarrow> m \<bind> k \<noteq> None"
  by (cases m) auto

lemma txt_record_returns:
  assumes "guarded b" "\<And>a. service = Some a \<Longrightarrow> srv_heap w a \<noteq> None"
  shows "mdns_append_txt_record w b service flush bye \<noteq> None"
proof (cases service)
  case (Some ptr)
  then obtain s where s: "srv_heap w ptr = Some s" using assms(2) by blast
  show ?thesis
  proof (cases "mdns_get_service_instance_name w (Some s)")
    case (Some ins)
    obtain a i where i: "ins = (a, i)" by (cases ins)
    let ?ss = "[i, snd (s_service s), snd (s_proto s), MDNS_DEFAULT_DOMAIN]"
    obtain n1 b1 where f: "mdns_append_fqdn (junk w) b ?ss = Some (n1, b1)" "guarded b1"
      using append_fqdn_guarded [OF assms(1), of "junk w" ?ss]
        guarded_extends [OF assms(1) append_fqdn_extends [OF guarded_ok [OF assms(1)]]] by (metis not_None_eq surj_pair)
    let ?ttl = "if bye then 0 else MDNS_ANSWER_TXT_TTL"
    obtain n2 b2 where t: "mdns_append_type b1 MDNS_ANSWER_TXT flush ?ttl = Some (n2, b2)"
      using append_type_returns [OF guarded_ok [OF f(2)]] by (metis not_None_eq surj_pair)
    note t2 = append_type_Some [OF guarded_ok [OF f(2)] t] and g2 = guarded_extends [OF f(2) append_type_Some(1) [OF guarded_ok [OF f(2)] t]]
    obtain m ok b3 w1 where it: "mdns_append_txt_items w b2 (s_txt s) 0 = Some (m, ok, b3, w1)"
      using append_txt_items_returns [OF guarded_ok [OF g2], of w "s_txt s" 0] by (metis not_None_eq prod_cases4)
    have e3: "extends b2 b3" using append_txt_items_extends [OF it guarded_ok [OF g2]] by simp
    note g3 = guarded_extends [OF g2 e3]
    obtain q where z: "store8 (fst b3) (snd b3) 0 = Some q" "length q = length (fst b3)"
      using guarded_fresh [of "fst b3" "snd b3"] g3 by (simp add: store8_def GUARD_LEN_def)
    have u: "mdns_set_u16 q' j v \<noteq> None" if "length q' = length (fst b3)" for q' j v
      using guarded_ok [OF g3] that by (auto simp: mdns_set_u16_def store8_def wbuf_ok_def)
    obtain q1 q2 where q: "mdns_set_u16 q (snd b2 - 2) (of_nat 1) = Some q1" "mdns_set_u16 (fst b3) (snd b2 - 2) (of_nat m) = Some q2"
      using u [OF z(2)] u [OF refl] by blast
    have run: "mdns_append_txt_record w b (Some ptr) flush bye = (if n1 mod 256 = 0 then Some (0, b1, w) else
        if n2 = 0 then Some (0, b2, w) else if \<not> ok then Some (0, b3, w1) else
        if m = 0 then Some ((n1 mod 256 + n2 + 1) mod 65536, (q1, snd b3 + 1), w1)
        else Some ((n1 mod 256 + n2 + m) mod 65536, (q2, snd b3), w1))"
      using q(1) by (simp add: mdns_append_txt_record_def s Some i f(1) t it z(1) q)
    show ?thesis unfolding \<open>service = Some ptr\<close> run by simp
  qed (simp add: mdns_append_txt_record_def Some s)
qed (simp add: mdns_append_txt_record_def)

lemma runsw_counted: "runs b m \<Longrightarrow> runsw b w (counted w m)"
  using growsw_counted by (auto simp: runsw_def runs_def counted_def)

lemma runsw_map: "runs b m \<Longrightarrow> runsw b w (map_option (\<lambda>(n, b1). (n, b1, w)) m)"
  using growsw_map by (auto simp: runsw_def runs_def)

text \<open>What an answer needs so that its record can be written: its service exists and, for a pointer record, has an
  instance name; a record without a service has all of its names. The addresses of the adapter have sixteen bytes.\<close>

definition answer_ready :: "mdns_world \<Rightarrow> mdns_out_answer_t \<Rightarrow> bool" where
  "answer_ready w a \<longleftrightarrow> (case oa_service a of
     Some ptr \<Rightarrow> (case srv_heap w ptr of
         Some s \<Rightarrow> oa_type a = MDNS_TYPE_PTR \<longrightarrow> mdns_get_service_instance_name w (Some s) \<noteq> None
       | None \<Rightarrow> False)
   | None \<Rightarrow> oa_type a = MDNS_TYPE_PTR \<and> oa_custom_service a \<noteq> None \<longrightarrow>
       oa_custom_proto a \<noteq> None \<and> oa_custom_instance a \<noteq> None)"

definition ip6_ok :: "mdns_world \<Rightarrow> bool" where
  "ip6_ok w \<longleftrightarrow> (\<forall>i ip6. ip6_linklocal w i = Some ip6 \<longrightarrow> length ip6 = MDNS_ANSWER_AAAA_SIZE)"

lemma answer_ready_same [simp]: "same_server w w' \<Longrightarrow> answer_ready w' a = answer_ready w a"
  by (auto simp: same_server_def answer_ready_def mdns_get_service_instance_name_def cong: option.case_cong)

lemma ip6_ok_same: "same_server w w' \<Longrightarrow> ip6_ok w' = ip6_ok w"
  by (auto simp: same_server_def ip6_ok_def)

lemma runs_answer_a:
  assumes "guarded b"
  shows "runs b (mdns_append_answer_a w b answer i)"
proof -
  have rec: "runs b (mdns_append_a_record w b1 ip f y)" if "extends b b1" for b1 ip f y
    using runs_a_record [OF guarded_extends [OF assms that]] grows_trans [OF that] by (simp add: runs_def)
  show ?thesis
    unfolding mdns_append_answer_a_def
    by (intro runs_intros rec wbuf_ok_refl) (assumption | rule assms guarded_ok)+
qed

lemma runs_answer_aaaa:
  assumes "guarded b" "ip6_ok w"
  shows "runs b (mdns_append_answer_aaaa w b answer i)"
proof -
  have rec: "runs b (mdns_append_aaaa_record w b1 ip6 f y)" if "extends b b1" "ip6_linklocal w k = Some ip6" for b1 ip6 f y k
    using runs_aaaa_record [OF guarded_extends [OF assms(1) that(1)]] grows_trans [OF that(1)] assms(2) that(2)
    by (simp add: runs_def ip6_ok_def)
  show ?thesis
    unfolding mdns_append_answer_aaaa_def
    by (intro runs_intros rec wbuf_ok_refl) (assumption | rule assms guarded_ok)+
qed

lemma runsw_answer:
  assumes "guarded b" "answer_ready w a" "ip6_ok w"
  shows "runsw b w (mdns_append_answer w b a i)"
proof -
  have srv: "srv_heap w ptr \<noteq> None" if "oa_service a = Some ptr" for ptr
    using assms(2) that by (auto simp: answer_ready_def split: option.splits)
  have "runsw b w (mdns_append_txt_record w b (oa_service a) f y)" for f y
    using txt_record_returns [OF assms(1), of "oa_service a" w] srv growsw_txt_record [OF guarded_ok [OF assms(1)]]
    by (simp add: runsw_def)
  then have "runsw b w (mdns_append_txt_record w b (oa_service a) f y \<bind> (\<lambda>(n, b1, w1). Some (g n, b1, w1)))" for f y g
    using growsw_bind_txt by (fastforce simp: runsw_def)
  moreover have "runsw b w (Some (0, b, w))"
    using wbuf_ok_refl [OF guarded_ok [OF assms(1)]] by (auto simp add: runsw_def growsw_def)
  moreover have "runsw b w (case oa_service a of
           Some ptr \<Rightarrow> do {
             s \<leftarrow> srv_heap w ptr;
             counted w (mdns_append_ptr_record w b (mdns_get_service_instance_name w (Some s))
               (Some (s_service s)) (Some (s_proto s)) (oa_flush a) (oa_bye a))
           }
         | None \<Rightarrow> counted w (mdns_append_ptr_record w b (oa_custom_instance a)
               (oa_custom_service a) (oa_custom_proto a) (oa_flush a) (oa_bye a)))" if "oa_type a = MDNS_TYPE_PTR"
    using assms(2) that
    by (auto simp: answer_ready_def intro!: runsw_counted runs_ptr_record assms(1) split: option.splits)
  ultimately show ?thesis
    unfolding mdns_append_answer_def
    using srv assms(1,3) by (auto intro!: runsw_counted runsw_map runs_srv_record runs_sdptr_record runs_answer_a runs_answer_aaaa)
qed

lemma append_questions_returns: "guarded b \<Longrightarrow> append_questions w b qs n \<noteq> None"
proof (induction qs arbitrary: b n)
  case (Cons q qs)
  obtain k b1 where q: "mdns_append_question w q b = Some (k, b1)" "extends b b1"
    using runs_question [OF Cons.prems, of w q] by (auto simp: runs_def grows_def)
  show ?case
    using Cons.IH [OF guarded_extends [OF Cons.prems q(2)]] by (simp add: q(1))
qed simp

lemma append_answers_returns:
  assumes "guarded b" "list_all (answer_ready w) as" "ip6_ok w"
  shows "append_answers w b as i n \<noteq> None"
  using assms
proof (induction as arbitrary: w b n)
  case (Cons a as)
  obtain k b1 w1 where a: "mdns_append_answer w b a i = Some (k, b1, w1)" "extends b b1" "same_server w w1"
    using runsw_answer [OF Cons.prems(1) _ Cons.prems(3), of a i] Cons.prems(2) by (auto simp: runsw_def growsw_def)
  have "list_all (answer_ready w1) as"
    using Cons.prems(2) by (simp add: answer_ready_same [OF a(3)] list_all_iff)
  then show ?case
    using Cons.IH [OF guarded_extends [OF Cons.prems(1) a(2)], of w1] Cons.prems(3) by (simp add: a(1) ip6_ok_same [OF a(3)])
qed simp

section \<open>Whole packets\<close>

text \<open>The buffer while a packet is assembled: the first four bytes are the id and the flags; \<open>z\<close> is the memory behind
  it.\<close>

definition packet_ok :: "u16 \<Rightarrow> u8 list \<Rightarrow> wbuf \<Rightarrow> bool" where
  "packet_ok flags z b \<longleftrightarrow> wbuf_ok b \<and> MDNS_HEAD_LEN \<le> snd b \<and> take 4 (fst b) = [0, 0] @ u16_bytes flags \<and>
     drop MDNS_MAX_PACKET_SIZE (fst b) = z"

lemma packet_ok_extends: "packet_ok flags z b \<Longrightarrow> extends b b' \<Longrightarrow> packet_ok flags z b'"
proof -
  assume b: "packet_ok flags z b" and e: "extends b b'"
  have "take 4 (take (snd b) (fst b')) = take 4 (take (snd b) (fst b))"
    using e by (simp add: extends_def)
  then have "take 4 (fst b') = take 4 (fst b)"
    using b by (simp add: packet_ok_def min_def)
  with b e show "packet_ok flags z b'"
    by (auto simp: packet_ok_def extends_def intro: wbuf_ok_extends)
qed

lemma packet_ok_set_u16:
  "packet_ok flags z b \<Longrightarrow> mdns_set_u16 (fst b) j v = Some p \<Longrightarrow> 4 \<le> j \<Longrightarrow> packet_ok flags z (p, snd b)"
  by (auto simp: packet_ok_def wbuf_ok_def mdns_set_u16_def store8_def split: if_splits bind_splits)

lemma packet_start:
  assumes "MDNS_MAX_PACKET_SIZE \<le> length t" "store_block t 0 (replicate MDNS_HEAD_LEN 0) = Some p0"
    "mdns_set_u16 p0 MDNS_HEAD_FLAGS_OFFSET flags = Some p1"
  shows "packet_ok flags (drop MDNS_MAX_PACKET_SIZE t) (p1, MDNS_HEAD_LEN)"
proof -
  have p0: "p0 = replicate 12 0 @ drop 12 t"
    using assms(2) by (simp add: store_block_Some_iff)
  then have p1: "p1 = put p0 2 (u16_bytes flags)" "1460 \<le> length p0" "drop 1460 p0 = drop 1460 t"
    using assms(1,3) by (simp_all add: set_u16_put)
  moreover have "take 2 p0 = [0, 0]"
    by (simp add: p0 numeral_eq_Suc)
  ultimately show ?thesis
    using take_put_end [of 2 "u16_bytes flags" p0] drop_put [of 2 "u16_bytes flags" 1460 p0]
    by (simp add: packet_ok_def wbuf_ok_def)
qed

lemma packet_ok_returns:
  assumes "packet_ok flags (replicate GUARD_LEN 0) b" "list_all (answer_ready w) as" "ip6_ok w"
  shows "append_questions w b qs n \<noteq> None" "append_answers w b as i n \<noteq> None" "mdns_set_u16 (fst b) j v \<noteq> None"
proof -
  have g: "guarded b" using assms(1) by (simp add: packet_ok_def guarded_def)
  show "append_questions w b qs n \<noteq> None" "append_answers w b as i n \<noteq> None" "mdns_set_u16 (fst b) j v \<noteq> None"
    by (rule append_questions_returns [OF g] append_answers_returns [OF g assms(2,3)]
        set_u16_guarded [OF g wbuf_ok_refl [OF guarded_ok [OF g]]])+
qed

lemma packet_ok_answers:
  assumes "packet_ok flags z b" "append_answers w b as i n = Some (m, b', w')"
  shows "packet_ok flags z b' \<and> same_server w w'"
  using append_answers_extends [OF assms(2)] packet_ok_extends [OF assms(1)] assms(1)
  by (simp add: packet_ok_def)

lemma udp_pcb_write_Some:
  assumes "mdns_udp_pcb_write w i j ip port data len = Some w'"
  shows "\<exists>k. w' = w\<lparr>alloc_script := drop k (alloc_script w)\<rparr> \<or> len \<le> length data \<and>
    w' = w\<lparr>alloc_script := drop k (alloc_script w), sent := \<lparr>dg_if = i, dg_protocol = j, dg_dst = ip, dg_port = port,
      dg_data = take len data\<rparr> # sent w\<rparr>"
proof -
  obtain ok w1 where m: "malloc w = (ok, w1)" by (cases "malloc w")
  obtain k where "w1 = w\<lparr>alloc_script := drop k (alloc_script w)\<rparr>"
    using malloc_same [OF m] by (auto simp: same_server_def)
  with m assms show ?thesis
    by (intro exI [of _ k])
      (auto simp: mdns_udp_pcb_write_def load_block_Some_iff Let_def split: if_splits bind_splits)
qed

lemma packet_ok_flags:
  assumes "packet_ok flags z b"
  shows "mdns_read_u16 (take (snd b) (fst b)) 2 = Some flags"
proof -
  let ?d = "take (snd b) (fst b)"
  have t: "take 4 ?d = [0, 0] @ u16_bytes flags" and l: "12 \<le> length ?d"
    using assms by (auto simp: packet_ok_def wbuf_ok_def min_def)
  have "?d = [0, 0] @ u16_bytes flags @ drop 4 ?d"
    using append_take_drop_id [of 4 ?d] unfolding t by simp
  then have "?d ! 2 = ucast (drop_bit 8 flags)" "?d ! 3 = ucast flags"
    by (metis (no_types, lifting) append_Cons append_Nil nth_Cons_0 nth_Cons_Suc numeral_2_eq_2
        numeral_3_eq_3 u16_bytes_def)+
  then show ?thesis
    using l by (simp add: mdns_read_u16_def load8_def)
qed

lemma dispatch_buffer:
  assumes "mdns_dispatch_tx_packet w p = Some w'" "MDNS_MAX_PACKET_SIZE \<le> length (tx_buffer w)"
  obtains t n w3 where "packet_ok (tx_flags p) (drop MDNS_MAX_PACKET_SIZE (tx_buffer w)) (t, n)" "same_server w w3"
    "mdns_udp_pcb_write (w3\<lparr>tx_buffer := t\<rparr>) (tx_if p) (tx_protocol p) (tx_dst p) (tx_port p) t n = Some w'"
proof -
  from assms(1) obtain p0 p1 qn b1 p2 an b2 w1 p3 sn b3 w2 p4 xn b4 w3 p5 where
    p0: "store_block (tx_buffer w) 0 (replicate MDNS_HEAD_LEN 0) = Some p0" and
    p1: "mdns_set_u16 p0 MDNS_HEAD_FLAGS_OFFSET (tx_flags p) = Some p1" and
    b1: "append_questions w (p1, MDNS_HEAD_LEN) (tx_questions p) 0 = Some (qn, b1)" and
    p2: "mdns_set_u16 (fst b1) MDNS_HEAD_QUESTIONS_OFFSET (of_nat qn) = Some p2" and
    b2: "append_answers w (p2, snd b1) (tx_answers p) (tx_if p) 0 = Some (an, b2, w1)" and
    p3: "mdns_set_u16 (fst b2) MDNS_HEAD_ANSWERS_OFFSET (of_nat an) = Some p3" and
    b3: "append_answers w1 (p3, snd b2) (tx_servers p) (tx_if p) 0 = Some (sn, b3, w2)" and
    p4: "mdns_set_u16 (fst b3) MDNS_HEAD_SERVERS_OFFSET (of_nat sn) = Some p4" and
    b4: "append_answers w2 (p4, snd b3) (tx_additional p) (tx_if p) 0 = Some (xn, b4, w3)" and
    p5: "mdns_set_u16 (fst b4) MDNS_HEAD_ADDITIONAL_OFFSET (of_nat xn) = Some p5" and
    wr: "mdns_udp_pcb_write (w3\<lparr>tx_buffer := p5\<rparr>) (tx_if p) (tx_protocol p) (tx_dst p) (tx_port p) p5
      (snd b4) = Some w'"
    unfolding mdns_dispatch_tx_packet_def
    by (elim bind_SomeE prod_SomeE) (hypsubst, rule that; assumption)
  let ?ok = "packet_ok (tx_flags p) (drop MDNS_MAX_PACKET_SIZE (tx_buffer w))"
  have ok1: "?ok (p1, MDNS_HEAD_LEN)"
    by (rule packet_start [OF assms(2) p0 p1])
  have q: "?ok b1"
    by (rule packet_ok_extends [OF ok1 append_questions_extends [OF b1]]) (use ok1 in \<open>simp add: packet_ok_def\<close>)
  have ok2: "?ok (p2, snd b1)"
    by (rule packet_ok_set_u16 [OF q p2]) simp
  note a1 = packet_ok_answers [OF ok2 b2]
  have ok3: "?ok (p3, snd b2)"
    by (rule packet_ok_set_u16 [OF conjunct1 [OF a1] p3]) simp
  note a2 = packet_ok_answers [OF ok3 b3]
  have ok4: "?ok (p4, snd b3)"
    by (rule packet_ok_set_u16 [OF conjunct1 [OF a2] p4]) simp
  note a3 = packet_ok_answers [OF ok4 b4]
  have ok5: "?ok (p5, snd b4)"
    by (rule packet_ok_set_u16 [OF conjunct1 [OF a3] p5]) simp
  have "same_server w w3"
    using a1 a2 a3 same_server_trans by blast
  then show ?thesis
    using that ok5 wr by simp
qed

lemma dispatch_returns:
  assumes "drop MDNS_MAX_PACKET_SIZE (tx_buffer w) = replicate GUARD_LEN 0"
    "list_all (answer_ready w) (tx_answers p @ tx_servers p @ tx_additional p)" "ip6_ok w"
  shows "mdns_dispatch_tx_packet w p \<noteq> None"
proof -
  have len: "MDNS_MAX_PACKET_SIZE \<le> length (tx_buffer w)"
    using arg_cong [OF assms(1), of length] by (simp add: GUARD_LEN_def)
  let ?ok = "packet_ok (tx_flags p) (replicate GUARD_LEN 0)"
  note as = assms(2) [unfolded list_all_append]
  obtain p0 where p0: "store_block (tx_buffer w) 0 (replicate MDNS_HEAD_LEN 0) = Some p0"
    using len by (simp add: store_block_def)
  obtain p1 where p1: "mdns_set_u16 p0 MDNS_HEAD_FLAGS_OFFSET (tx_flags p) = Some p1"
    using len length_store_block [OF p0] by (simp add: mdns_set_u16_def store8_def)
  have ok1: "?ok (p1, MDNS_HEAD_LEN)"
    using packet_start [OF len p0 p1] assms(1) by simp
  obtain qn b1 where b1: "append_questions w (p1, MDNS_HEAD_LEN) (tx_questions p) 0 = Some (qn, b1)"
    using packet_ok_returns(1) [OF ok1 conjunct1 [OF as] assms(3)] by (metis not_None_eq surj_pair)
  have q: "?ok b1"
    by (rule packet_ok_extends [OF ok1 append_questions_extends [OF b1]]) (use ok1 in \<open>simp add: packet_ok_def\<close>)
  obtain p2 where p2: "mdns_set_u16 (fst b1) MDNS_HEAD_QUESTIONS_OFFSET (of_nat qn) = Some p2"
    using packet_ok_returns(3) [OF q conjunct1 [OF as] assms(3)] by blast
  have ok2: "?ok (p2, snd b1)" by (rule packet_ok_set_u16 [OF q p2]) simp
  have step: "\<exists>k b' w' q. append_answers w1 b xs (tx_if p) 0 = Some (k, b', w') \<and> mdns_set_u16 (fst b') j (of_nat k) = Some q \<and>
      ?ok (q, snd b') \<and> same_server w w'"
    if "?ok b" "list_all (answer_ready w) xs" "same_server w w1" "4 \<le> j" for b xs w1 j
  proof -
    note b = that(1)
    have l: "list_all (answer_ready w1) xs" "ip6_ok w1"
      using that(2) assms(3) by (simp_all add: list_all_iff answer_ready_same [OF that(3)] ip6_ok_same [OF that(3)])
    obtain k b' w' where a: "append_answers w1 b xs (tx_if p) 0 = Some (k, b', w')"
      using packet_ok_returns(2) [OF b l, of "tx_if p" 0] by (metis not_None_eq prod_cases3)
    note ok = packet_ok_answers [OF b a]
    obtain q where "mdns_set_u16 (fst b') j (of_nat k) = Some q"
      using packet_ok_returns(3) [OF conjunct1 [OF ok] l] by blast
    with a ok that(3,4) packet_ok_set_u16 same_server_trans show ?thesis by blast
  qed
  obtain an b2 w1 p3 where a2: "append_answers w (p2, snd b1) (tx_answers p) (tx_if p) 0 = Some (an, b2, w1)"
    "mdns_set_u16 (fst b2) MDNS_HEAD_ANSWERS_OFFSET (of_nat an) = Some p3" "?ok (p3, snd b2)" "same_server w w1"
    using step [OF ok2 _ same_server_refl, of "tx_answers p" MDNS_HEAD_ANSWERS_OFFSET] as by auto
  obtain sn b3 w2 p4 where a3: "append_answers w1 (p3, snd b2) (tx_servers p) (tx_if p) 0 = Some (sn, b3, w2)"
    "mdns_set_u16 (fst b3) MDNS_HEAD_SERVERS_OFFSET (of_nat sn) = Some p4" "?ok (p4, snd b3)" "same_server w w2"
    using step [OF a2(3) _ a2(4), of "tx_servers p" MDNS_HEAD_SERVERS_OFFSET] as by auto
  obtain xn b4 w3 p5 where a4: "append_answers w2 (p4, snd b3) (tx_additional p) (tx_if p) 0 = Some (xn, b4, w3)"
    "mdns_set_u16 (fst b4) MDNS_HEAD_ADDITIONAL_OFFSET (of_nat xn) = Some p5" "?ok (p5, snd b4)" "same_server w w3"
    using step [OF a3(3) _ a3(4), of "tx_additional p" MDNS_HEAD_ADDITIONAL_OFFSET] as by auto
  have "snd b4 \<le> length p5"
    using a4(3) by (simp add: packet_ok_def wbuf_ok_def)
  then show ?thesis
    by (simp add: mdns_dispatch_tx_packet_def p0 p1 b1 p2 a2 a3 a4 mdns_udp_pcb_write_def load_block_def
        split: prod.split)
qed

text \<open>C12: assembling and sending a packet comes back and never writes outside the 1460-byte packet buffer,
  however much the packet holds. The buffer is followed here by memory of 256 zero bytes: the search for earlier names
  may read there, a store there would be seen. If the records of the packet can be written (their services
  exist and have names), then \<^verbatim>\<open>_mdns_dispatch_tx_packet\<close> returns and leaves the memory behind the
  buffer as it was; the datagram, if one is sent, is a prefix of the 1460 bytes with at least the
  twelve header bytes, carries the flags of the packet and goes to its interface, protocol, address
  and port; apart from the buffer, the allocator and the datagram nothing of the world changes.\<close>

theorem dispatch_tx_packet_safe:
  assumes "length buf = MDNS_MAX_PACKET_SIZE" "tx_buffer w = buf @ replicate GUARD_LEN 0"
    "list_all (answer_ready w) (tx_answers p @ tx_servers p @ tx_additional p)" "ip6_ok w"
  shows "\<exists>w' a t n. mdns_dispatch_tx_packet w p = Some w' \<and> length t = MDNS_MAX_PACKET_SIZE \<and>
    MDNS_HEAD_LEN \<le> n \<and> n \<le> MDNS_MAX_PACKET_SIZE \<and>
    mdns_read_u16 (take n t) MDNS_HEAD_FLAGS_OFFSET = Some (tx_flags p) \<and>
    (w' = w\<lparr>tx_buffer := t @ replicate GUARD_LEN 0, alloc_script := a\<rparr> \<or>
     w' = w\<lparr>tx_buffer := t @ replicate GUARD_LEN 0, alloc_script := a, sent := \<lparr>dg_if = tx_if p,
        dg_protocol = tx_protocol p, dg_dst = tx_dst p, dg_port = tx_port p, dg_data = take n t\<rparr> # sent w\<rparr>)"
proof -
  have z: "drop MDNS_MAX_PACKET_SIZE (tx_buffer w) = replicate GUARD_LEN 0" "MDNS_MAX_PACKET_SIZE \<le> length (tx_buffer w)"
    using assms(1,2) by simp_all
  obtain w' where w': "mdns_dispatch_tx_packet w p = Some w'"
    using dispatch_returns [OF z(1) assms(3,4)] by blast
  obtain t' n w3 where ok: "packet_ok (tx_flags p) (replicate GUARD_LEN 0) (t', n)" and w3: "same_server w w3" and
    wr: "mdns_udp_pcb_write (w3\<lparr>tx_buffer := t'\<rparr>) (tx_if p) (tx_protocol p) (tx_dst p) (tx_port p) t' n =
      Some w'"
    using dispatch_buffer [OF w' z(2)] unfolding z(1) by blast
  define t where "t = take MDNS_MAX_PACKET_SIZE t'"
  have t: "t' = t @ replicate GUARD_LEN 0" "length t = MDNS_MAX_PACKET_SIZE" "n \<le> MDNS_MAX_PACKET_SIZE" "take n t' = take n t"
    using ok append_take_drop_id [of MDNS_MAX_PACKET_SIZE t'] by (auto simp: t_def packet_ok_def wbuf_ok_def min_def)
  obtain k where w3: "w3 = w\<lparr>alloc_script := drop k (alloc_script w)\<rparr>"
    using w3 unfolding same_server_def by blast
  from udp_pcb_write_Some [OF wr] obtain a where
    "w' = w\<lparr>tx_buffer := t', alloc_script := a\<rparr> \<or>
     w' = w\<lparr>tx_buffer := t', alloc_script := a, sent := \<lparr>dg_if = tx_if p, dg_protocol = tx_protocol p,
        dg_dst = tx_dst p, dg_port = tx_port p, dg_data = take n t\<rparr> # sent w\<rparr>"
    unfolding w3 t(4) [symmetric] by (simp) blast
  then show ?thesis
    using w' packet_ok_flags [OF ok] ok t
    by (intro exI [of _ w'] exI [of _ a] exI [of _ t] exI [of _ n]) (simp add: packet_ok_def)
qed

theorem dispatch_tx_packet_safe_witness:
  "\<exists>w' a t n. mdns_dispatch_tx_packet (demo_world\<lparr>tx_buffer := replicate MDNS_MAX_PACKET_SIZE 0 @ replicate GUARD_LEN 0\<rparr>)
       demo_packet = Some w' \<and> length t = MDNS_MAX_PACKET_SIZE \<and> n \<le> MDNS_MAX_PACKET_SIZE \<and>
     mdns_read_u16 (take n t) MDNS_HEAD_FLAGS_OFFSET = Some MDNS_FLAGS_AUTHORITATIVE"
proof -
  let ?w = "demo_world\<lparr>tx_buffer := replicate MDNS_MAX_PACKET_SIZE 0 @ replicate GUARD_LEN 0\<rparr>"
  have "list_all (answer_ready ?w) (tx_answers demo_packet @ tx_servers demo_packet @ tx_additional demo_packet)"
    by (simp add: demo_packet_def answer_ready_def mdns_get_service_instance_name_def demo_service_def
        str_null_or_empty_def lit_def)
  moreover have "ip6_ok ?w"
    by (simp add: ip6_ok_def demo_world_def boot_world_def)
  moreover have "tx_flags demo_packet = MDNS_FLAGS_AUTHORITATIVE"
    by (simp add: demo_packet_def)
  ultimately show ?thesis
    using dispatch_tx_packet_safe [of "replicate MDNS_MAX_PACKET_SIZE 0" ?w demo_packet] by auto
qed

text \<open>A packet without questions and answers can always be sent.\<close>

lemma dispatch_empty_packet:
  assumes "tx_questions p = []" "tx_answers p = []" "tx_servers p = []" "tx_additional p = []"
    "MDNS_MAX_PACKET_SIZE \<le> length (tx_buffer w)"
  shows "mdns_dispatch_tx_packet w p \<noteq> None"
  using assms by (simp add: mdns_dispatch_tx_packet_def store_block_def set_u16_put
      mdns_udp_pcb_write_def load_block_def split: prod.split)

section \<open>Lengths of names and records\<close>

text \<open>The number that \<^verbatim>\<open>_mdns_append_fqdn\<close> reports is the number of bytes by which it moves the
  write offset, as long as no string has 255 bytes or more.\<close>

lemma append_string_count:
  assumes "mdns_append_string b s = Some (n, b')" "length s < 255"
  shows "snd b' = snd b + n" "n \<le> length s + 1"
  using assms
  by (auto simp: mdns_append_string_def mdns_append_u8_def Let_def split: prod.splits if_splits bind_splits)

lemma append_u8_count: "mdns_append_u8 b v = Some (n, b') \<Longrightarrow> snd b' = snd b + n \<and> n \<le> 1"
  by (auto simp: mdns_append_u8_def split: prod.splits if_splits bind_splits)

lemma append_u16_count: "mdns_append_u16 b v = Some (n, b') \<Longrightarrow> snd b' = snd b + n \<and> n \<le> 2 \<and> n \<noteq> 1"
  by (auto simp: mdns_append_u16_def mdns_append_u8_def split: prod.splits if_splits bind_splits)

lemma append_fqdn_count:
  assumes "mdns_append_fqdn jnk b ss = Some (n, b')" "\<forall>s\<in>set ss. length s < 255" "fqdn_room ss < 65535"
  shows "snd b' = snd b + n \<and> n \<le> fqdn_room ss + 1"
  using assms
proof (induction ss arbitrary: b n)
  case Nil
  then show ?case using append_u8_count by fastforce
next
  case (Cons s ss)
  from Cons.prems(1) show ?case
  proof (cases rule: append_fqdn_ConsE)
    case unreadable
    then show ?thesis by simp
  next
    case found
    then show ?thesis using append_u16_count by fastforce
  next
    case full
    then show ?thesis using append_string_count [OF full(1)] Cons.prems(2) by simp
  next
    case (label m b1 k)
    have s: "snd b1 = snd b + m" "m \<le> length s + 1"
      using append_string_count [OF label(1)] Cons.prems(2) by auto
    with Cons.IH [OF label(3)] label(4) Cons.prems(2,3) show ?thesis by auto
  qed
qed

text \<open>the length field of a PTR record is the number of bytes of its data. For names of at most
  64 bytes, whenever the writer reports success, the two bytes before the record data hold the
  distance from there to the end of the record, so a receiver finds the next record.\<close>

theorem ptr_record_length:
  assumes "wbuf_ok b"
    "mdns_append_ptr_record w b (Some ins) (Some srv) (Some pro) flush bye = Some (n, b')" "n \<noteq> 0"
    "length (snd ins) \<le> 64" "length (snd srv) \<le> 64" "length (snd pro) \<le> 64"
  shows "\<exists>d. snd b \<le> d \<and> d + 2 \<le> snd b' \<and>
    mdns_read_u16 (fst b') d = Some (of_nat (snd b' - (d + 2)))"
proof -
  from assms(2,3) obtain n1 b1 n2 b2 n3 b3 p where
    b1: "mdns_append_fqdn (junk w) b [snd srv, snd pro, MDNS_DEFAULT_DOMAIN] = Some (n1, b1)" and
    b2: "mdns_append_type b1 MDNS_ANSWER_PTR False (if bye then 0 else MDNS_ANSWER_PTR_TTL) = Some (n2, b2)" and
    n2: "n2 mod 256 \<noteq> 0" and
    b3: "mdns_append_fqdn (junk w) b2 [snd ins, snd srv, snd pro, MDNS_DEFAULT_DOMAIN] = Some (n3, b3)" and
    p: "mdns_set_u16 (fst b3) (snd b2 - 2) (of_nat (n3 mod 256)) = Some p" and b': "b' = (p, snd b3)"
    by (cases srv; cases pro; cases ins)
      (auto simp: mdns_append_ptr_record_def on_written_def split: bind_splits if_splits)
  have ok1: "wbuf_ok b1" "extends b b1"
    using append_fqdn_extends [OF assms(1) b1] wbuf_ok_extends [OF assms(1)] by auto
  have t: "extends b1 b2" "snd b2 = snd b1 + 10"
    using append_type_Some [OF ok1(1) b2] n2 by auto
  have ok2: "wbuf_ok b2" by (rule wbuf_ok_extends [OF ok1(1) t(1)])
  have e3: "extends b2 b3" by (rule append_fqdn_extends [OF ok2 b3])
  have c: "snd b3 = snd b2 + n3" "n3 < 256"
    using append_fqdn_count [OF b3] assms(4-6) by (auto simp: MDNS_DEFAULT_DOMAIN_def)
  have l: "1460 \<le> length (fst b3)" "snd b3 \<le> 1460"
    using wbuf_ok_extends [OF ok2 e3] by (simp_all add: wbuf_ok_def)
  then have "p = put (fst b3) (snd b2 - 2) (u16_bytes (of_nat n3))"
    using p c t(2) by (simp add: set_u16_put)
  then have "mdns_read_u16 p (snd b2 - 2) = Some (of_nat n3)"
    using l c t(2) by (simp add: read_u16_put)
  then show ?thesis
    using c t ok1(2) by (intro exI [of _ "snd b2 - 2"]) (auto simp: b' extends_def)
qed

theorem ptr_record_length_witness:
  "\<exists>n b' d. mdns_append_ptr_record boot_world (replicate 12 0 @ replicate 1448 0, 12)
       (Some (1, lit ''esp'')) (Some (2, lit ''_http'')) (Some (3, lit ''_tcp'')) False False = Some (n, b') \<and>
     n \<noteq> 0 \<and> 12 \<le> d \<and> mdns_read_u16 (fst b') d = Some (of_nat (snd b' - (d + 2)))"
proof -
  have "\<exists>n b'. mdns_append_ptr_record boot_world (replicate 12 0 @ replicate 1448 0, 12)
       (Some (1, lit ''esp'')) (Some (2, lit ''_http'')) (Some (3, lit ''_tcp'')) False False = Some (n, b') \<and>
     n \<noteq> 0"
    by (simp cong: eval_congs add: eval_simps mdns_append_ptr_record_def on_written_def boot_world_def
        del: One_nat_def)
  then obtain n b' where w: "mdns_append_ptr_record boot_world (replicate 12 0 @ replicate 1448 0, 12)
       (Some (1, lit ''esp'')) (Some (2, lit ''_http'')) (Some (3, lit ''_tcp'')) False False = Some (n, b')"
      "n \<noteq> 0"
    by blast
  then show ?thesis
    using ptr_record_length [OF _ w] by (fastforce simp: wbuf_ok_def)
qed

section \<open>Labels that are too long\<close>

lemma read_long_label:
  assumes "i < length p" "p ! i = of_nat n" "64 \<le> n" "n < 192"
  shows "mdns_read_fqdn p i (name_init b) = Some (None, name_init b)"
proof -
  have l: "load8 p i = Some (of_nat n)" using assms(1,2) by (simp add: load8_def)
  have "63 < (of_nat n :: u8)" "(of_nat n :: u8) < 0xC0"
    using assms(3,4) by (simp_all add: word_less_nat_alt unat_of_nat_u8)
  from reads.too_long [OF l this, of i "name_init b"] show ?thesis
    by (simp add: mdns_read_fqdn_def read_labels_iff name_mark_def name_init_def)
qed

text \<open>a label of 64 or more characters. The interface accepts a host name of 64 characters, but
  a label may have 63 at most. Such a name is never sent readably: either the writer gives up and leaves
  the packet as it was, or it writes bytes that every reader, its own included, refuses as a name.\<close>

theorem long_label_unreadable:
  assumes "64 \<le> length s" "length s < 192" "length p = MDNS_MAX_PACKET_SIZE" "i + length s + 1 < MDNS_MAX_PACKET_SIZE"
    "mdns_append_fqdn jnk (p, i) (s # ss) = Some (n, q, k)"
  shows "n = 0 \<and> q = p \<and> k = i \<or> mdns_parse_fqdn q i = Some (None, name_init False)"
proof -
  have len: "length s mod 256 = length s" using assms(2) by simp
  have put: "mdns_append_string (p, i) s = Some (length s + 1, put p i (string_bytes s), i + length s + 1)"
    using assms(2-4) len by (subst append_string_put) simp_all
  obtain r where r: "mdns_find_fqdn p i (s # ss) (name_init (jnk p i (s # ss))) 0 = Some r"
    using assms(5) by (cases "mdns_find_fqdn p i (s # ss) (name_init (jnk p i (s # ss))) 0") simp_all
  show ?thesis
  proof (cases r)
    case (Found loc)
    then obtain b c m where "loc < i" "label_here p loc s" "mdns_read_fqdn p loc (name_init b) = Some (c, m)" "c \<noteq> None"
      using find_fqdn_hit [OF r] by auto
    moreover from this have "mdns_read_fqdn p loc (name_init b) = Some (None, name_init b)"
      using assms(1-4) len by (intro read_long_label [of _ _ "length s"]) (simp_all add: label_here_def)
    ultimately show ?thesis by simp
  next
    case Unreadable
    with assms(5) r show ?thesis by simp
  next
    case Not_found
    with assms(5) r put obtain m where m: "mdns_append_fqdn jnk (put p i (string_bytes s), i + length s + 1) ss = Some (m, q, k)"
      by (auto split: bind_splits)
    have "wbuf_ok (put p i (string_bytes s), i + length s + 1)"
      using assms(2-4) len by (simp add: wbuf_ok_def)
    from append_fqdn_extends [OF this m] have
      t: "take (i + length s + 1) q = take (i + length s + 1) (put p i (string_bytes s))" "length q = MDNS_MAX_PACKET_SIZE"
      using assms(2-4) len by (auto simp: extends_def wbuf_ok_def)
    have "q ! i = put p i (string_bytes s) ! i"
      using arg_cong [OF t(1), of "\<lambda>x. x ! i"] by simp
    also have "\<dots> = of_nat (length s)"
      using assms(3,4) len by (simp add: put_def nth_append string_bytes_def)
    finally have "mdns_read_fqdn q i (name_init False) = Some (None, name_init False)"
      using assms(1,2,4) t(2) by (intro read_long_label) simp_all
    then show ?thesis by (simp add: mdns_parse_fqdn_def)
  qed
qed

theorem long_label_unreadable_witness:
  "mdns_parse_fqdn (put (put (replicate 1460 0) 12 (string_bytes (replicate 64 97))) 77 [0]) 12 = Some (None, name_init False)"
proof -
  let ?s = "replicate 64 (97 :: u8)" and ?p = "replicate 1460 (0 :: u8)"
  have "mdns_find_fqdn ?p 12 [?s] (name_init False) 0 = Some Not_found"
    by (subst mdns_find_fqdn.simps) (simp add: memchr_none)
  moreover have "mdns_append_string (?p, 12) ?s = Some (65, put ?p 12 (string_bytes ?s), 77)"
    by (subst append_string_put) simp_all
  ultimately have "mdns_append_fqdn (\<lambda>_ _ _. False) (?p, 12) [?s] =
      Some (66, put (put ?p 12 (string_bytes ?s)) 77 [0], 78)"
    by (simp add: append_u8_put)
  from long_label_unreadable [OF _ _ _ _ this] show ?thesis by simp
qed

end
