(* ===== verification/Mdns_TxQueue.thy ===== *)
theory Mdns_TxQueue
  imports Mdns_Records
begin

text \<open>
  The queue of packets scheduled for sending and the answer lists of a packet:
  \<^verbatim>\<open>_mdns_schedule_tx_packet\<close>, \<^verbatim>\<open>_mdns_clear_tx_queue_head\<close>, \<^verbatim>\<open>_mdns_clear_pcb_tx_queue_head\<close>,
  \<^verbatim>\<open>_mdns_get_next_pcb_packet\<close>, \<^verbatim>\<open>_mdns_remove_scheduled_answer\<close>, \<^verbatim>\<open>_mdns_dealloc_answer\<close>,
  \<^verbatim>\<open>_mdns_alloc_answer\<close>, \<^verbatim>\<open>_mdns_alloc_packet_default\<close>,
  \<^verbatim>\<open>_mdns_dealloc_scheduled_service_answers\<close> and \<^verbatim>\<open>_mdns_remove_scheduled_service_packets\<close> of
  \<^verbatim>\<open>src/src/mdns.c\<close>. The queue is kept sorted by the send time; the locale \<open>timed_queue\<close> states
  what its clients rely on.
\<close>

section \<open>Scheduling\<close>

fun tx_insert_after :: "mdns_tx_packet_t \<Rightarrow> mdns_tx_packet_t list \<Rightarrow> mdns_tx_packet_t list" where
  "tx_insert_after packet [] = [packet]"
| "tx_insert_after packet (q # qs) =
     (if tx_send_at q \<le> tx_send_at packet then q # tx_insert_after packet qs
      else packet # q # qs)"

fun tx_insert :: "mdns_tx_packet_t \<Rightarrow> mdns_tx_packet_t list \<Rightarrow> mdns_tx_packet_t list" where
  "tx_insert packet [] = [packet]"
| "tx_insert packet (q # qs) =
     (if tx_send_at q > tx_send_at packet then packet # q # qs
      else q # tx_insert_after packet qs)"

definition mdns_schedule_tx_packet :: "mdns_world \<Rightarrow> mdns_tx_packet_t \<Rightarrow> u32 \<Rightarrow> mdns_world" where
  "mdns_schedule_tx_packet w packet ms_after =
     (let (now, w1) = now_ms w;
          packet1 = packet\<lparr>tx_send_at := now + ms_after\<rparr>
      in w1\<lparr>tx_queue := tx_insert packet1 (tx_queue w1)\<rparr>)"

definition mdns_clear_tx_queue_head :: "mdns_world \<Rightarrow> mdns_world" where
  "mdns_clear_tx_queue_head w = w\<lparr>tx_queue := []\<rparr>"

text \<open>The two-loop idiom that unlinks every matching element: first at the head, then behind an
  element that stays.\<close>

fun unlink_after :: "('a \<Rightarrow> bool) \<Rightarrow> 'a list \<Rightarrow> 'a list" where
  "unlink_after P [] = []"
| "unlink_after P (x # xs) = (if P x then unlink_after P xs else x # unlink_after P xs)"

definition unlink_all :: "('a \<Rightarrow> bool) \<Rightarrow> 'a list \<Rightarrow> 'a list" where
  "unlink_all P xs = (case dropWhile P xs of [] \<Rightarrow> [] | y # ys \<Rightarrow> y # unlink_after P ys)"

definition tx_on :: "tcpip_adapter_if_t \<Rightarrow> mdns_ip_protocol_t \<Rightarrow> mdns_tx_packet_t \<Rightarrow> bool" where
  "tx_on tcpip_if ip_protocol q \<longleftrightarrow> tx_if q = tcpip_if \<and> tx_protocol q = ip_protocol"

definition mdns_clear_pcb_tx_queue_head ::
  "mdns_world \<Rightarrow> tcpip_adapter_if_t \<Rightarrow> mdns_ip_protocol_t \<Rightarrow> mdns_world" where
  "mdns_clear_pcb_tx_queue_head w tcpip_if ip_protocol =
     w\<lparr>tx_queue := unlink_all (tx_on tcpip_if ip_protocol) (tx_queue w)\<rparr>"

definition mdns_get_next_pcb_packet ::
  "mdns_world \<Rightarrow> tcpip_adapter_if_t \<Rightarrow> mdns_ip_protocol_t \<Rightarrow> mdns_tx_packet_t option" where
  "mdns_get_next_pcb_packet w tcpip_if ip_protocol = find (tx_on tcpip_if ip_protocol) (tx_queue w)"

section \<open>Answer lists\<close>

definition is_answer :: "u16 \<Rightarrow> srv_ptr option \<Rightarrow> mdns_out_answer_t \<Rightarrow> bool" where
  "is_answer type service a \<longleftrightarrow> oa_type a = type \<and> oa_service a = service"

text \<open>The code reads the type of the first answer without testing the list for emptiness.\<close>

fun remove_scheduled_answers ::
  "tcpip_adapter_if_t \<Rightarrow> mdns_ip_protocol_t \<Rightarrow> u16 \<Rightarrow> srv_ptr option \<Rightarrow> mdns_tx_packet_t list \<Rightarrow>
   mdns_tx_packet_t list option" where
  "remove_scheduled_answers tcpip_if ip_protocol type service [] = Some []"
| "remove_scheduled_answers tcpip_if ip_protocol type service (q # qs) = do {
     q1 \<leftarrow> (if tx_on tcpip_if ip_protocol q \<and> tx_distributed q
            then if tx_answers q = [] then None
                 else Some (q\<lparr>tx_answers := remove_first (is_answer type service) (tx_answers q)\<rparr>)
            else Some q);
     qs1 \<leftarrow> remove_scheduled_answers tcpip_if ip_protocol type service qs;
     Some (q1 # qs1)
   }"

definition mdns_remove_scheduled_answer ::
  "mdns_world \<Rightarrow> tcpip_adapter_if_t \<Rightarrow> mdns_ip_protocol_t \<Rightarrow> u16 \<Rightarrow> srv_ptr option \<Rightarrow>
   mdns_world option" where
  "mdns_remove_scheduled_answer w tcpip_if ip_protocol type service = do {
     qs \<leftarrow> remove_scheduled_answers tcpip_if ip_protocol type service (tx_queue w);
     Some (w\<lparr>tx_queue := qs\<rparr>)
   }"

definition mdns_dealloc_answer ::
  "mdns_out_answer_t list \<Rightarrow> u16 \<Rightarrow> srv_ptr option \<Rightarrow> mdns_out_answer_t list" where
  "mdns_dealloc_answer destination type service = remove_first (is_answer type service) destination"

definition mdns_alloc_answer ::
  "mdns_world \<Rightarrow> mdns_out_answer_t list \<Rightarrow> u16 \<Rightarrow> srv_ptr option \<Rightarrow> bool \<Rightarrow> bool \<Rightarrow>
   bool \<times> mdns_out_answer_t list \<times> mdns_world" where
  "mdns_alloc_answer w destination type service flush bye =
     (if list_ex (is_answer type service) destination then (True, destination, w)
      else let (ok, w1) = malloc w in
        if \<not> ok then (False, destination, w1)
        else (True, destination @ [\<lparr>oa_type = type, oa_bye = bye, oa_flush = flush,
                oa_service = service, oa_custom_instance = None, oa_custom_service = None,
                oa_custom_proto = None\<rparr>], w1))"

text \<open>A chain \<open>_mdns_alloc_answer (..) && _mdns_alloc_answer (..) && ..\<close> on one list: it stops
  at the first failure.\<close>

fun alloc_answers ::
  "mdns_world \<Rightarrow> mdns_out_answer_t list \<Rightarrow> (u16 \<times> srv_ptr option \<times> bool \<times> bool) list \<Rightarrow>
   bool \<times> mdns_out_answer_t list \<times> mdns_world" where
  "alloc_answers w destination [] = (True, destination, w)"
| "alloc_answers w destination ((type, service, flush, bye) # rs) =
     (case mdns_alloc_answer w destination type service flush bye of
        (False, destination1, w1) \<Rightarrow> (False, destination1, w1)
      | (True, destination1, w1) \<Rightarrow> alloc_answers w1 destination1 rs)"

definition mdns_multicast_addr :: "mdns_ip_protocol_t \<Rightarrow> ip_addr_t" where
  "mdns_multicast_addr ip_protocol =
     (if ip_protocol = MDNS_IP_PROTOCOL_V4 then IP4 0xFB0000E0
      else IP6 [0xFF, 0x02, 0, 0, 0, 0, 0, 0, 0, 0, 0, 0, 0, 0, 0, 0xFB])"

definition mdns_alloc_packet_default ::
  "mdns_world \<Rightarrow> tcpip_adapter_if_t \<Rightarrow> mdns_ip_protocol_t \<Rightarrow> mdns_tx_packet_t option \<times> mdns_world" where
  "mdns_alloc_packet_default w tcpip_if ip_protocol =
     (let (ok, w1) = malloc w in
      if \<not> ok then (None, w1)
      else let (a, w2) = fresh_ptr w1 in
        (Some \<lparr>tx_ptr = a, tx_send_at = 0, tx_if = tcpip_if, tx_protocol = ip_protocol,
               tx_dst = mdns_multicast_addr ip_protocol, tx_port = MDNS_SERVICE_PORT,
               tx_flags = 0, tx_distributed = False, tx_questions = [], tx_answers = [],
               tx_servers = [], tx_additional = [], tx_queued = False\<rparr>, w2))"

section \<open>Forgetting a service\<close>

definition mdns_dealloc_scheduled_service_answers ::
  "mdns_out_answer_t list \<Rightarrow> srv_ptr \<Rightarrow> mdns_out_answer_t list" where
  "mdns_dealloc_scheduled_service_answers destination service =
     unlink_all (\<lambda>a. oa_service a = Some service) destination"

text \<open>The elements that a loop over \<open>probe_services\<close> reads.\<close>

definition probe_list :: "mdns_pcb_t \<Rightarrow> srv_ptr list option" where
  "probe_list pcb =
     (if probe_services_len pcb = 0 then Some []
      else do {
        ps \<leftarrow> probe_services pcb;
        if probe_services_len pcb \<le> length ps then Some (take (probe_services_len pcb) ps) else None
      })"

text \<open>The search loop over them: the index of the service, or the length if it is not there. Each
  item that the loop visits is dereferenced.\<close>

fun probe_index :: "mdns_world \<Rightarrow> srv_ptr \<Rightarrow> srv_ptr list \<Rightarrow> nat option" where
  "probe_index w service [] = Some 0"
| "probe_index w service (s # ps) =
     (if srv_heap w s = None then None
      else if s = service then Some 0
      else map_option Suc (probe_index w service ps))"

definition is_probe_question :: "mdns_service_t \<Rightarrow> mdns_out_question_t \<Rightarrow> bool" where
  "is_probe_question s qs \<longleftrightarrow> oq_type qs = MDNS_TYPE_ANY \<and>
     (case oq_service qs of None \<Rightarrow> False | Some (_, t) \<Rightarrow> t = snd (s_service s)) \<and>
     (case oq_proto qs of None \<Rightarrow> False | Some (_, t) \<Rightarrow> t = snd (s_proto s))"

text \<open>What the loop does to the control block of a packet that is being probed: drop the service
  from the array of probed services.\<close>

definition pcb_unprobe :: "mdns_pcb_t \<Rightarrow> srv_ptr list \<Rightarrow> nat \<Rightarrow> mdns_pcb_t" where
  "pcb_unprobe pcb ps i =
     (let len = probe_services_len pcb in
      if len > 1
      then pcb\<lparr>probe_services := Some (take i ps @ drop (Suc i) (take len ps) @ drop (len - 1) ps),
               probe_services_len := len - 1\<rparr>
      else let pcb1 = pcb\<lparr>probe_services_len := 0, probe_services := None\<rparr> in
        if \<not> probe_ip pcb1 then pcb1\<lparr>probe_running := False, pcb_state := PCB_RUNNING\<rparr>
        else pcb1)"

text \<open>One round of the loop of \<^verbatim>\<open>_mdns_remove_scheduled_service_packets\<close>, up to the test for an
  empty packet.\<close>

definition unschedule_service_packet ::
  "mdns_world \<Rightarrow> srv_ptr \<Rightarrow> mdns_tx_packet_t \<Rightarrow> (mdns_tx_packet_t \<times> mdns_world) option" where
  "unschedule_service_packet w service q =
     (let had_answers = (tx_answers q \<noteq> []);
          q1 = q\<lparr>tx_answers := mdns_dealloc_scheduled_service_answers (tx_answers q) service,
                 tx_additional := mdns_dealloc_scheduled_service_answers (tx_additional q) service,
                 tx_servers := mdns_dealloc_scheduled_service_answers (tx_servers q) service\<rparr>;
          pcb = interfaces w (tx_if q) (tx_protocol q)
      in if \<not> pcb_pcb pcb then Some (q1, w)
         else if PCB_STATE_IS_PROBING pcb then do {
           probed \<leftarrow> probe_list pcb;
           i \<leftarrow> probe_index w service probed;
           if i < probe_services_len pcb then do {
             ps \<leftarrow> probe_services pcb;
             s \<leftarrow> srv_heap w service;
             Some (q1\<lparr>tx_questions := remove_first (is_probe_question s) (tx_questions q1)\<rparr>,
                   set_pcb w (tx_if q) (tx_protocol q) (pcb_unprobe pcb ps i))
           }
           else Some (q1, w)
         }
         else if PCB_STATE_IS_ANNOUNCING pcb \<and> had_answers \<and> tx_answers q1 = []
         then Some (q1, set_pcb w (tx_if q) (tx_protocol q) (pcb\<lparr>pcb_state := PCB_RUNNING\<rparr>))
         else Some (q1, w))"

definition tx_is_empty :: "mdns_tx_packet_t \<Rightarrow> bool" where
  "tx_is_empty p \<longleftrightarrow>
     tx_questions p = [] \<and> tx_answers p = [] \<and> tx_additional p = [] \<and> tx_servers p = []"

fun unschedule_service_packets ::
  "mdns_world \<Rightarrow> srv_ptr \<Rightarrow> mdns_tx_packet_t list \<Rightarrow> (mdns_tx_packet_t list \<times> mdns_world) option" where
  "unschedule_service_packets w service [] = Some ([], w)"
| "unschedule_service_packets w service (q # qs) = do {
     (q1, w1) \<leftarrow> unschedule_service_packet w service q;
     (qs1, w2) \<leftarrow> unschedule_service_packets w1 service qs;
     Some (if tx_is_empty q1 then qs1 else q1 # qs1, w2)
   }"

definition mdns_remove_scheduled_service_packets :: "mdns_world \<Rightarrow> srv_ptr \<Rightarrow> mdns_world option" where
  "mdns_remove_scheduled_service_packets w service = do {
     (qs, w1) \<leftarrow> unschedule_service_packets w service (tx_queue w);
     Some (w1\<lparr>tx_queue := qs\<rparr>)
   }"

section \<open>The queue as a sorted list\<close>

abbreviation tx_sorted :: "mdns_tx_packet_t list \<Rightarrow> bool" where
  "tx_sorted qs \<equiv> sorted (map tx_send_at qs)"

lemma set_tx_insert_after [simp]: "set (tx_insert_after p qs) = insert p (set qs)"
  by (induction qs) auto

lemma set_tx_insert [simp]: "set (tx_insert p qs) = insert p (set qs)"
  by (cases qs) auto

lemma sorted_tx_insert_after: "tx_sorted qs \<Longrightarrow> tx_sorted (tx_insert_after p qs)"
  by (induction qs) auto

lemma tx_insert_eq_after: "tx_insert p qs = tx_insert_after p qs"
  by (cases qs) auto

lemma sorted_tx_insert: "tx_sorted qs \<Longrightarrow> tx_sorted (tx_insert p qs)"
  by (simp add: tx_insert_eq_after sorted_tx_insert_after)

text \<open>A new packet goes behind the packets that are due no later than it and before the others:
  packets with equal send times keep their order.\<close>

lemma tx_insert_split:
  "tx_insert p qs = takeWhile (\<lambda>q. tx_send_at q \<le> tx_send_at p) qs @
     p # dropWhile (\<lambda>q. tx_send_at q \<le> tx_send_at p) qs"
  unfolding tx_insert_eq_after by (induction qs) auto

lemma unlink_after_filter [simp]: "unlink_after P xs = filter (\<lambda>x. \<not> P x) xs"
  by (induction xs) auto

lemma unlink_all_filter [simp]: "unlink_all P xs = filter (\<lambda>x. \<not> P x) xs"
  by (induction xs) (auto simp: unlink_all_def)

lemma tx_insert_filter:
  assumes "tx_sorted qs"
  shows "tx_insert p qs = filter (\<lambda>q. tx_send_at q \<le> tx_send_at p) qs @
    p # filter (\<lambda>q. tx_send_at p < tx_send_at q) qs"
  by (simp only: tx_insert_split sorted_cut [OF assms])

section \<open>The contract of the queue\<close>

text \<open>What the clients of the transmit queue rely on: insertion keeps the order, adds exactly the
  packet and lets packets with equal send times leave in the order in which they came in; removal
  keeps the packets that do not match.\<close>

locale timed_queue =
  fixes insert_q :: "'a \<Rightarrow> 'a list \<Rightarrow> 'a list"
    and remove_q :: "('a \<Rightarrow> bool) \<Rightarrow> 'a list \<Rightarrow> 'a list"
    and time :: "'a \<Rightarrow> 't::linorder"
  assumes insert_filter: "sorted (map time qs) \<Longrightarrow>
      insert_q p qs = filter (\<lambda>q. time q \<le> time p) qs @ p # filter (\<lambda>q. time p < time q) qs"
    and remove_filter: "remove_q P qs = filter (\<lambda>q. \<not> P q) qs"
begin

lemma sorted_insert_q: "sorted (map time qs) \<Longrightarrow> sorted (map time (insert_q p qs))"
  by (auto simp: insert_filter sorted_append sorted_filter intro: order.strict_trans1 less_imp_le)

lemma sorted_remove_q: "sorted (map time qs) \<Longrightarrow> sorted (map time (remove_q P qs))"
  by (simp add: remove_filter sorted_filter)

lemma insert_hd: "sorted (map time qs) \<Longrightarrow> \<forall>q\<in>set qs. time p < time q \<Longrightarrow> insert_q p qs = p # qs"
  by (auto simp: insert_filter filter_id_conv filter_empty_conv not_le)

lemma insert_last: "sorted (map time qs) \<Longrightarrow> \<forall>q\<in>set qs. time q \<le> time p \<Longrightarrow> insert_q p qs = qs @ [p]"
  by (auto simp: insert_filter filter_id_conv filter_empty_conv not_less)

lemma remove_insert_q:
  assumes "sorted (map time qs)" "P p"
  shows "remove_q P (insert_q p qs) = remove_q P qs"
proof -
  have "remove_q P (insert_q p qs) =
      filter (\<lambda>q. \<not> P q) (filter (\<lambda>q. time q \<le> time p) qs @ filter (\<lambda>q. time p < time q) qs)"
    using assms(2) by (simp add: insert_filter [OF assms(1)] remove_filter)
  then show ?thesis
    by (simp only: sorted_cut_append [OF assms(1)] remove_filter)
qed

end

interpretation txq: timed_queue tx_insert unlink_all tx_send_at
  by unfold_locales (simp_all add: tx_insert_filter)

section \<open>Properties\<close>

text \<open>C11: scheduling a packet keeps the transmit queue sorted by send time. The packet gets the
  current time plus the delay as its send time and goes behind every packet that is due no later
  and before every other one, so packets with the same send time leave in the order in which they
  were scheduled; no packet is lost.\<close>

theorem schedule_tx_packet_sorted:
  assumes "tx_sorted (tx_queue w)"
  shows "tx_sorted (tx_queue (mdns_schedule_tx_packet w p d)) \<and>
    tx_queue (mdns_schedule_tx_packet w p d) =
      (let t = fst (now_ms w) + d in
       filter (\<lambda>q. tx_send_at q \<le> t) (tx_queue w) @ p\<lparr>tx_send_at := t\<rparr> #
       filter (\<lambda>q. t < tx_send_at q) (tx_queue w))"
proof -
  have "tx_queue (snd (now_ms w)) = tx_queue w"
    by (simp add: now_ms_def split: list.split)
  then have q: "tx_queue (mdns_schedule_tx_packet w p d) =
      tx_insert (p\<lparr>tx_send_at := fst (now_ms w) + d\<rparr>) (tx_queue w)"
    by (simp add: mdns_schedule_tx_packet_def case_prod_beta)
  show ?thesis
    unfolding q Let_def
    by (intro conjI txq.sorted_insert_q assms) (simp add: txq.insert_filter assms)
qed

theorem schedule_tx_packet_sorted_witness:
  "tx_sorted (tx_queue (mdns_schedule_tx_packet (boot_world\<lparr>ticks := [7]\<rparr>) demo_packet 25))"
  using schedule_tx_packet_sorted [of "boot_world\<lparr>ticks := [7]\<rparr>" demo_packet 25]
  by (simp add: boot_world_def)

text \<open>Clearing the queue of one control block removes exactly the packets of its interface and
  protocol; the packets of the other control blocks stay, in their order, and each of them still
  finds its next packet.\<close>

theorem clear_pcb_tx_queue:
  "tx_queue (mdns_clear_pcb_tx_queue_head w i j) =
     filter (\<lambda>q. \<not> (tx_if q = i \<and> tx_protocol q = j)) (tx_queue w) \<and>
   mdns_get_next_pcb_packet (mdns_clear_pcb_tx_queue_head w i j) i' j' =
     (if (i', j') = (i, j) then None else mdns_get_next_pcb_packet w i' j')"
proof -
  have "find (tx_on i j) (filter (\<lambda>q. \<not> tx_on i j q) (tx_queue w)) = None"
    by (auto simp: find_None_iff)
  moreover have "(i', j') \<noteq> (i, j) \<Longrightarrow>
      find (tx_on i' j') (filter (\<lambda>q. \<not> tx_on i j q) (tx_queue w)) = find (tx_on i' j') (tx_queue w)"
    by (rule find_filter) (auto simp: tx_on_def)
  ultimately show ?thesis
    by (auto simp: mdns_clear_pcb_tx_queue_head_def mdns_get_next_pcb_packet_def tx_on_def)
qed

text \<open>An answer is identified by its record type and its service.\<close>

definition answer_key :: "mdns_out_answer_t \<Rightarrow> u16 \<times> srv_ptr option" where
  "answer_key a = (oa_type a, oa_service a)"

lemma is_answer_key: "is_answer t s a \<longleftrightarrow> answer_key a = (t, s)"
  by (auto simp: is_answer_def answer_key_def)

lemma alloc_answer_cases:
  assumes "mdns_alloc_answer w dest t s f b = (ok, dest', w')"
  shows "dest' = dest \<and> (ok \<longrightarrow> (t, s) \<in> answer_key ` set dest) \<or>
    ok \<and> (t, s) \<notin> answer_key ` set dest \<and> (\<exists>a. answer_key a = (t, s) \<and> dest' = dest @ [a])"
  using assms
  by (auto simp: mdns_alloc_answer_def is_answer_key list_ex_iff malloc_def answer_key_def image_iff
      split: if_splits list.splits prod.splits)

lemma alloc_answers_keys:
  assumes "alloc_answers w dest rs = (ok, dest', w')" "distinct (map answer_key dest)"
  shows "distinct (map answer_key dest') \<and> answer_key ` set dest \<subseteq> answer_key ` set dest' \<and>
    answer_key ` set dest' \<subseteq> answer_key ` set dest \<union> (\<lambda>(t, s, f, b). (t, s)) ` set rs \<and>
    (ok \<longrightarrow> answer_key ` set dest' = answer_key ` set dest \<union> (\<lambda>(t, s, f, b). (t, s)) ` set rs)"
  using assms
proof (induction rs arbitrary: w dest)
  case (Cons r rs)
  obtain t s f b where r: "r = (t, s, f, b)"
    by (cases r)
  obtain ok1 d1 w1 where a: "mdns_alloc_answer w dest t s f b = (ok1, d1, w1)"
    by (cases "mdns_alloc_answer w dest t s f b")
  have d1: "distinct (map answer_key d1)" "answer_key ` set dest \<subseteq> answer_key ` set d1"
    "answer_key ` set d1 \<subseteq> insert (t, s) (answer_key ` set dest)"
    "ok1 \<Longrightarrow> answer_key ` set d1 = insert (t, s) (answer_key ` set dest)"
    using alloc_answer_cases [OF a] Cons.prems(2) by auto
  show ?case
  proof (cases ok1)
    case True
    with Cons.prems(1) a r have "alloc_answers w1 d1 rs = (ok, dest', w')"
      by simp
    from Cons.IH [OF this d1(1)] show ?thesis
      using d1(4) [OF True] r by auto
  next
    case False
    with Cons.prems(1) a d1 r show ?thesis by auto
  qed
qed auto

text \<open>building an answer section (the chains of calls of \<^verbatim>\<open>_mdns_alloc_answer\<close>) never
  duplicates a record: on a list without duplicates the result has none, every record that was
  there stays, and, if no allocation fails, exactly the requested records have been added. When an
  allocation fails, nothing but requested records has been added.\<close>

theorem alloc_answers_exact:
  assumes "distinct (map answer_key dest)" "alloc_answers w dest rs = (ok, dest', w')"
  shows "distinct (map answer_key dest') \<and>
    (let want = (\<lambda>(t, s, f, b). (t, s)) ` set rs in
     answer_key ` set dest \<subseteq> answer_key ` set dest' \<and>
     answer_key ` set dest' \<subseteq> answer_key ` set dest \<union> want \<and>
     (ok \<longrightarrow> answer_key ` set dest' = answer_key ` set dest \<union> want))"
  unfolding Let_def using alloc_answers_keys [OF assms(2,1)] by blast

theorem alloc_answers_exact_witness:
  "distinct (map answer_key (fst (snd (alloc_answers boot_world []
     [(12, Some 1, False, False), (33, Some 1, True, False), (12, Some 1, False, True)]))))"
proof -
  let ?rs = "[(12, Some 1, False, False), (33, Some 1, True, False), (12, Some 1, False, True)]"
  let ?r = "alloc_answers boot_world [] ?rs"
  have "?r = (fst ?r, fst (snd ?r), snd (snd ?r))"
    by (simp only: prod.collapse)
  from alloc_answers_exact [OF _ this] show ?thesis
    by simp
qed

section \<open>Forgetting a service\<close>

text \<open>The services that a packet refers to.\<close>

definition tx_refs :: "mdns_tx_packet_t \<Rightarrow> srv_ptr set" where
  "tx_refs p = {s. \<exists>a \<in> set (tx_answers p) \<union> set (tx_servers p) \<union> set (tx_additional p).
     oa_service a = Some s}"

text \<open>Every array of probed services can be read and holds live services.\<close>

definition probes_live :: "mdns_world \<Rightarrow> bool" where
  "probes_live w \<longleftrightarrow>
     (\<forall>i j. \<exists>ps. probe_list (interfaces w i j) = Some ps \<and> set ps \<subseteq> dom (srv_heap w))"

lemma set_pcb_frame [simp]:
  "srv_heap (set_pcb w i j b) = srv_heap w" "tx_queue (set_pcb w i j b) = tx_queue w"
  "services (set_pcb w i j b) = services w" "hostname (set_pcb w i j b) = hostname w"
  "interfaces (set_pcb w i j b) i' j' = (if i' = i \<and> j' = j then b else interfaces w i' j')"
  by (auto simp: set_pcb_def)

lemma probes_live_set_pcb:
  assumes "probes_live w" "probe_list b = Some ps" "set ps \<subseteq> dom (srv_heap w)"
  shows "probes_live (set_pcb w i j b)"
  using assms by (simp add: probes_live_def)

lemma probe_list_other [simp]:
  "probe_list (b\<lparr>pcb_state := s\<rparr>) = probe_list b"
  "probe_list (b\<lparr>failed_probes := n\<rparr>) = probe_list b"
  "probe_list (b\<lparr>pcb_pcb := c\<rparr>) = probe_list b"
  by (cases "probe_services b"; simp add: probe_list_def)+

lemma probe_index_live:
  "set ps \<subseteq> dom (srv_heap w) \<Longrightarrow> \<exists>i. probe_index w s ps = Some i \<and> i \<le> length ps"
  by (induction ps) auto

lemma probe_list_unprobe:
  assumes "probe_services pcb = Some ps" "i < probe_services_len pcb" "probe_list pcb = Some qs"
  shows "probe_list (pcb_unprobe pcb ps i) = Some (take i qs @ drop (Suc i) qs)"
proof -
  let ?n = "probe_services_len pcb"
  have len: "?n \<le> length ps" and qs: "qs = take ?n ps"
    using assms by (auto simp: probe_list_def split: if_splits)
  have pre: "take i ps = take i qs"
    using assms(2) by (simp add: qs min_def)
  define a where "a = take i qs @ drop (Suc i) qs"
  have l: "length a = ?n - 1"
    using assms(2) len by (simp add: a_def qs min_def)
  show ?thesis
  proof (cases "?n > 1")
    case True
    have "pcb_unprobe pcb ps i =
        pcb\<lparr>probe_services := Some (a @ drop (?n - 1) ps), probe_services_len := ?n - 1\<rparr>"
      using True by (simp add: pcb_unprobe_def Let_def a_def pre qs [symmetric])
    then show ?thesis
      using True l len by (simp add: probe_list_def a_def [symmetric])
  next
    case False
    with assms(2) have "?n = 1" "i = 0" by simp_all
    then show ?thesis
      by (auto simp: pcb_unprobe_def probe_list_def qs Let_def)
  qed
qed

lemma unschedule_service_packet_refs:
  assumes "unschedule_service_packet w service q = Some (q1, w1)"
  shows "tx_refs q1 = tx_refs q - {service}" "tx_send_at q1 = tx_send_at q"
    "srv_heap w1 = srv_heap w" "tx_queue w1 = tx_queue w" "services w1 = services w"
  using assms
  by (auto simp: unschedule_service_packet_def Let_def tx_refs_def
      mdns_dealloc_scheduled_service_answers_def filter_empty_conv split: if_splits bind_splits)

lemma unschedule_service_packet_returns:
  assumes "probes_live w" "service \<in> dom (srv_heap w)"
  shows "\<exists>q1 w1. unschedule_service_packet w service q = Some (q1, w1) \<and> probes_live w1"
proof -
  let ?pcb = "interfaces w (tx_if q) (tx_protocol q)"
  obtain qs where qs: "probe_list ?pcb = Some qs" "set qs \<subseteq> dom (srv_heap w)"
    using assms(1) unfolding probes_live_def by blast
  obtain i where i: "probe_index w service qs = Some i"
    using probe_index_live [OF qs(2)] by blast
  obtain s where s: "srv_heap w service = Some s"
    using assms(2) by blast
  have ps: "\<exists>ps. probe_services ?pcb = Some ps" if "i < probe_services_len ?pcb"
    using qs(1) that by (auto simp: probe_list_def split: if_splits bind_splits)
  have un: "probes_live (set_pcb w (tx_if q) (tx_protocol q) (pcb_unprobe ?pcb ps i))"
    if "probe_services ?pcb = Some ps" "i < probe_services_len ?pcb" for ps
    using qs(2) set_take_subset [of i qs] set_drop_subset [of "Suc i" qs]
    by (intro probes_live_set_pcb [OF assms(1) probe_list_unprobe [OF that qs(1)]]) auto
  have run: "probes_live (set_pcb w (tx_if q) (tx_protocol q) (?pcb\<lparr>pcb_state := PCB_RUNNING\<rparr>))"
    using qs by (intro probes_live_set_pcb [OF assms(1)]) auto
  show ?thesis
    using qs i s assms(1) ps un run by (auto simp: unschedule_service_packet_def Let_def)
qed

lemma unschedule_service_packets_refs:
  assumes "unschedule_service_packets w service qs = Some (qs1, w1)"
  shows "\<Union> (tx_refs ` set qs1) = \<Union> (tx_refs ` set qs) - {service} \<and>
    (tx_sorted qs \<longrightarrow> tx_sorted qs1) \<and> tx_send_at ` set qs1 \<subseteq> tx_send_at ` set qs \<and>
    (\<forall>q\<in>set qs1. \<not> tx_is_empty q) \<and> srv_heap w1 = srv_heap w \<and> services w1 = services w"
  using assms
proof (induction qs arbitrary: w qs1)
  case (Cons q qs)
  from Cons.prems obtain q1 w2 qs2 where
    q1: "unschedule_service_packet w service q = Some (q1, w2)" and
    qs2: "unschedule_service_packets w2 service qs = Some (qs2, w1)" and
    qs1: "qs1 = (if tx_is_empty q1 then qs2 else q1 # qs2)"
    by (auto split: bind_splits)
  note r = unschedule_service_packet_refs [OF q1]
  have e: "tx_is_empty q1 \<Longrightarrow> tx_refs q1 = {}"
    by (simp add: tx_is_empty_def tx_refs_def)
  show ?case
    using Cons.IH [OF qs2] r e by (auto simp: qs1)
qed simp

lemma unschedule_service_packets_returns:
  assumes "probes_live w" "service \<in> dom (srv_heap w)"
  shows "\<exists>qs1 w1. unschedule_service_packets w service qs = Some (qs1, w1) \<and> probes_live w1"
  using assms
proof (induction qs arbitrary: w)
  case (Cons q qs)
  obtain q1 w1 where q1: "unschedule_service_packet w service q = Some (q1, w1)" "probes_live w1"
    using unschedule_service_packet_returns [OF Cons.prems] by blast
  have "service \<in> dom (srv_heap w1)"
    using unschedule_service_packet_refs(3) [OF q1(1)] Cons.prems(2) by simp
  from Cons.IH [OF q1(2) this] q1(1) show ?case
    by auto
qed simp

text \<open>The strings of a question are often those of a service, shared and not copied: the question then refers to the
  memory of the service.\<close>

definition question_uses :: "mdns_service_t \<Rightarrow> mdns_out_question_t \<Rightarrow> bool" where
  "question_uses s x \<longleftrightarrow> oq_service x = Some (s_service s) \<or> oq_proto x = Some (s_proto s) \<or>
     (oq_host x = s_instance s \<and> s_instance s \<noteq> None)"

text \<open>The code looks for such a question in the first packet of a control block in use that probes the service, and
  takes one out. \<open>questions_covered\<close> says that the questions of a queue are of this form: they belong to the
  probe for the service.\<close>

definition packet_covered :: "mdns_world \<Rightarrow> srv_ptr \<Rightarrow> mdns_service_t \<Rightarrow> mdns_tx_packet_t \<Rightarrow> bool" where
  "packet_covered w service s q \<longleftrightarrow> list_ex (question_uses s) (tx_questions q) \<longrightarrow>
     (let pcb = interfaces w (tx_if q) (tx_protocol q) in
      pcb_pcb pcb \<and> PCB_STATE_IS_PROBING pcb \<and>
      (case probe_list pcb of Some ps \<Rightarrow> service \<in> set ps | None \<Rightarrow> False) \<and>
      (\<forall>x\<in>set (tx_questions q). question_uses s x \<longrightarrow> is_probe_question s x) \<and>
      length (filter (is_probe_question s) (tx_questions q)) \<le> 1)"

primrec questions_covered :: "mdns_world \<Rightarrow> srv_ptr \<Rightarrow> mdns_service_t \<Rightarrow> mdns_tx_packet_t list \<Rightarrow> bool" where
  "questions_covered w service s [] = True"
| "questions_covered w service s (q # qs) \<longleftrightarrow> packet_covered w service s q \<and> questions_covered w service s qs \<and>
     (\<forall>q'\<in>set qs. tx_on (tx_if q) (tx_protocol q) q' \<longrightarrow> \<not> list_ex (question_uses s) (tx_questions q'))"

lemma remove_first_once: "length (filter P xs) \<le> 1 \<Longrightarrow> filter P (remove_first P xs) = []"
proof (induction xs)
  case (Cons x xs)
  then show ?case by (cases "P x") simp_all
qed simp

lemma probe_index_found:
  "set ps \<subseteq> dom (srv_heap w) \<Longrightarrow> s \<in> set ps \<Longrightarrow> \<exists>i. probe_index w s ps = Some i \<and> i < length ps"
  by (induction ps) auto

lemma length_probe_list: "probe_list b = Some ps \<Longrightarrow> length ps = probe_services_len b"
  by (auto simp: probe_list_def split: if_splits bind_splits)

lemma unschedule_service_packet_questions:
  assumes "unschedule_service_packet w service q = Some (q1, w1)" "probes_live w" "srv_heap w service = Some s"
    "packet_covered w service s q"
  shows "\<not> list_ex (question_uses s) (tx_questions q1)"
proof -
  let ?pcb = "interfaces w (tx_if q) (tx_protocol q)"
  have sub: "set (tx_questions q1) \<subseteq> set (tx_questions q)"
    using assms(1) set_remove_first
    by (fastforce simp: unschedule_service_packet_def Let_def split: if_splits bind_splits)
  show ?thesis
  proof (cases "list_ex (question_uses s) (tx_questions q)")
    case False
    with sub show ?thesis by (auto simp: list_ex_iff)
  next
    case True
    with assms(4) obtain ps where c: "pcb_pcb ?pcb" "PCB_STATE_IS_PROBING ?pcb" "probe_list ?pcb = Some ps" "service \<in> set ps"
      "\<forall>x\<in>set (tx_questions q). question_uses s x \<longrightarrow> is_probe_question s x"
      "length (filter (is_probe_question s) (tx_questions q)) \<le> 1"
      by (auto simp: packet_covered_def Let_def split: option.splits)
    have live: "set ps \<subseteq> dom (srv_heap w)"
      using assms(2) c(3) unfolding probes_live_def by (metis option.inject)
    obtain i where i: "probe_index w service ps = Some i" "i < probe_services_len ?pcb"
      using probe_index_found [OF live c(4)] length_probe_list [OF c(3)] by auto
    have "tx_questions q1 = remove_first (is_probe_question s) (tx_questions q)"
      using assms(1,3) c(1-3) i by (auto simp: unschedule_service_packet_def Let_def split: bind_splits)
    then show ?thesis
      using remove_first_once [OF c(6)] c(5) set_remove_first [of "is_probe_question s" "tx_questions q"]
      by (auto simp: list_ex_iff filter_empty_conv)
  qed
qed

lemma unschedule_service_packet_others:
  assumes "unschedule_service_packet w service q = Some (q1, w1)" "\<not> tx_on (tx_if q) (tx_protocol q) q'"
  shows "interfaces w1 (tx_if q') (tx_protocol q') = interfaces w (tx_if q') (tx_protocol q')"
  using assms by (auto simp: unschedule_service_packet_def Let_def tx_on_def split: if_splits bind_splits)

lemma questions_covered_step:
  assumes "questions_covered w service s (q # qs)" "unschedule_service_packet w service q = Some (q1, w1)"
  shows "questions_covered w1 service s qs"
proof -
  have "packet_covered w1 service s q'" if "packet_covered w service s q'"
    "tx_on (tx_if q) (tx_protocol q) q' \<longrightarrow> \<not> list_ex (question_uses s) (tx_questions q')" for q'
    using that unschedule_service_packet_others [OF assms(2), of q']
    by (cases "tx_on (tx_if q) (tx_protocol q) q'") (simp_all add: packet_covered_def)
  then have "questions_covered w service s rs \<Longrightarrow>
      \<forall>q'\<in>set rs. tx_on (tx_if q) (tx_protocol q) q' \<longrightarrow> \<not> list_ex (question_uses s) (tx_questions q') \<Longrightarrow>
      questions_covered w1 service s rs" for rs
    by (induction rs) auto
  with assms(1) show ?thesis by simp
qed

lemma unschedule_service_packets_questions:
  assumes "unschedule_service_packets w service qs = Some (qs1, w1)" "probes_live w" "srv_heap w service = Some s"
    "questions_covered w service s qs"
  shows "\<forall>q\<in>set qs1. \<not> list_ex (question_uses s) (tx_questions q)"
  using assms
proof (induction qs arbitrary: w qs1)
  case (Cons q qs)
  from Cons.prems(1) obtain q1 w2 qs2 where
    q1: "unschedule_service_packet w service q = Some (q1, w2)" and
    qs2: "unschedule_service_packets w2 service qs = Some (qs2, w1)" and
    qs1: "qs1 = (if tx_is_empty q1 then qs2 else q1 # qs2)"
    by (auto split: bind_splits)
  have "probes_live w2"
    using unschedule_service_packet_returns [OF Cons.prems(2), of service q] q1 Cons.prems(3) by auto
  moreover have "srv_heap w2 service = Some s"
    using unschedule_service_packet_refs(3) [OF q1] Cons.prems(3) by simp
  ultimately have "\<forall>q\<in>set qs2. \<not> list_ex (question_uses s) (tx_questions q)"
    using Cons.IH [OF qs2] questions_covered_step [OF Cons.prems(4) q1] by blast
  moreover have "\<not> list_ex (question_uses s) (tx_questions q1)"
    using unschedule_service_packet_questions [OF q1 Cons.prems(2,3)] Cons.prems(4) by simp
  ultimately show ?case by (simp add: qs1)
qed simp

text \<open>C16: before a live service is freed, the loop over the transmit queue removes the references to it: it
  terminates without touching freed memory; afterwards no answer of a scheduled packet refers to the
  service and, if the questions that share strings with the service belong to its probe (each in the first
  packet of a control block in use that is probing the service, at most one to a packet), no question
  uses a string of the service. Every reference of an answer to another service is still there, no empty
  packet is left and the queue is still sorted. The arrays of probed services stay valid.\<close>

theorem remove_scheduled_service_packets_refs:
  assumes "probes_live w" "srv_heap w service = Some s" "tx_sorted (tx_queue w)"
  shows "\<exists>w'. mdns_remove_scheduled_service_packets w service = Some w' \<and>
    \<Union> (tx_refs ` set (tx_queue w')) = \<Union> (tx_refs ` set (tx_queue w)) - {service} \<and>
    (questions_covered w service s (tx_queue w) \<longrightarrow>
       (\<forall>q\<in>set (tx_queue w'). \<not> list_ex (question_uses s) (tx_questions q))) \<and>
    tx_sorted (tx_queue w') \<and> (\<forall>q\<in>set (tx_queue w'). \<not> tx_is_empty q) \<and> probes_live w'"
proof -
  obtain qs w1 where u: "unschedule_service_packets w service (tx_queue w) = Some (qs, w1)"
    "probes_live w1"
    using unschedule_service_packets_returns [OF assms(1), of service] assms(2) by blast
  moreover have "probes_live (w1\<lparr>tx_queue := qs\<rparr>)"
    using u(2) by (simp add: probes_live_def)
  ultimately show ?thesis
    using unschedule_service_packets_refs [OF u(1)] unschedule_service_packets_questions [OF u(1) assms(1,2)] assms(3)
    by (auto simp: mdns_remove_scheduled_service_packets_def)
qed

text \<open>A probe for the service of the small configuration and for its host name.\<close>

definition demo_probe :: mdns_tx_packet_t where
  "demo_probe = demo_packet\<lparr>tx_flags := 0, tx_answers := [],
     tx_questions := [\<lparr>oq_type = MDNS_TYPE_ANY, oq_unicast = True, oq_host = s_instance demo_service,
         oq_service = Some (s_service demo_service), oq_proto = Some (s_proto demo_service),
         oq_domain = Some default_domain_ptr\<rparr>,
       \<lparr>oq_type = MDNS_TYPE_ANY, oq_unicast = True, oq_host = hostname demo_world, oq_service = None,
         oq_proto = None, oq_domain = Some default_domain_ptr\<rparr>],
     tx_servers := [\<lparr>oa_type = MDNS_TYPE_SRV, oa_bye = False, oa_flush = False, oa_service = Some 5,
       oa_custom_instance = None, oa_custom_service = None, oa_custom_proto = None\<rparr>]\<rparr>"

definition probing_world :: mdns_world where
  "probing_world = set_pcb (demo_world\<lparr>tx_queue := [demo_probe]\<rparr>) TCPIP_ADAPTER_IF_STA MDNS_IP_PROTOCOL_V4
     (pcb_zero\<lparr>pcb_state := PCB_PROBE_1, pcb_pcb := True, probe_services := Some [5], probe_services_len := 1,
        probe_ip := True, probe_running := True\<rparr>)"

theorem remove_scheduled_service_packets_refs_witness:
  "\<exists>w'. mdns_remove_scheduled_service_packets probing_world 5 = Some w' \<and> \<Union> (tx_refs ` set (tx_queue w')) = {} \<and>
     list_all (\<lambda>q. \<not> list_ex (question_uses demo_service) (tx_questions q)) (tx_queue w')"
proof -
  let ?w = probing_world
  have b: "interfaces ?w i j = (if i = TCPIP_ADAPTER_IF_STA \<and> j = MDNS_IP_PROTOCOL_V4
      then pcb_zero\<lparr>pcb_state := PCB_PROBE_1, pcb_pcb := True, probe_services := Some [5], probe_services_len := 1,
        probe_ip := True, probe_running := True\<rparr> else interfaces demo_world i j)" for i j
    by (simp add: probing_world_def)
  have "srv_heap ?w 5 = Some demo_service" "tx_queue ?w = [demo_probe]"
    by (simp_all add: probing_world_def)
  moreover have "\<Union> (tx_refs ` set (tx_queue ?w)) = {5}"
    by (simp add: calculation(2) tx_refs_def demo_probe_def demo_packet_def)
  moreover have "probes_live ?w"
    unfolding probes_live_def b by (auto simp: probe_list_def calculation(1))
  moreover have "questions_covered ?w 5 demo_service (tx_queue ?w)"
    by (simp add: calculation(2) packet_covered_def b Let_def demo_probe_def demo_packet_def demo_service_def
        question_uses_def is_probe_question_def PCB_STATE_IS_PROBING_def pcb_order_simps probe_list_def)
  ultimately show ?thesis
    using remove_scheduled_service_packets_refs [of ?w 5 demo_service] by (auto simp: list_all_iff)
qed

section \<open>What the service task keeps\<close>

text \<open>The type of each service, which never changes while the service exists.\<close>

definition srv_names :: "mdns_world \<Rightarrow> srv_ptr \<Rightarrow> (cptr \<times> cptr) option" where
  "srv_names w a = map_option (\<lambda>s. (s_service s, s_proto s)) (srv_heap w a)"

lemma dom_srv_names: "dom (srv_names w) = dom (srv_heap w)"
  by (auto simp: srv_names_def)

text \<open>The services that scheduled packets refer to, and the services that a packet may refer to.\<close>

definition queue_refs :: "mdns_world \<Rightarrow> srv_ptr set" where
  "queue_refs w = \<Union> (tx_refs ` set (tx_queue w))"

abbreviation live_refs :: "mdns_world \<Rightarrow> srv_ptr set" where
  "live_refs w \<equiv> queue_refs w \<union> dom (srv_names w)"

text \<open>The counter of a search is the number of its results, as far as a byte can hold it, and there are
  no more results than were asked for.\<close>

definition search_ok :: "mdns_search_once_t \<Rightarrow> bool" where
  "search_ok s \<longleftrightarrow> so_max_results s < 256 \<and> so_num_results s = length (so_result s) mod 256 \<and>
     (so_max_results s \<noteq> 0 \<longrightarrow> length (so_result s) \<le> so_max_results s)"

abbreviation searches_ok :: "mdns_world \<Rightarrow> bool" where
  "searches_ok w \<equiv> \<forall>s\<in>set (search_once w). search_ok s"

text \<open>What every operation below the level of an action keeps: the list of services and their
  types, the queue of actions, the order of the transmit queue, the size of the packet buffer and the
  invariant of the searches; and it adds no reference to a service that does not exist.\<close>

definition evolves :: "mdns_world \<Rightarrow> mdns_world \<Rightarrow> bool" where
  "evolves w w' \<longleftrightarrow> (length (tx_buffer w) = MDNS_MAX_PACKET_SIZE \<longrightarrow>
     length (tx_buffer w') = MDNS_MAX_PACKET_SIZE \<and> services w' = services w \<and>
     srv_names w' = srv_names w \<and> action_queue w' = action_queue w \<and> next_ptr w \<le> next_ptr w' \<and>
     server_up w' = server_up w \<and> (tx_sorted (tx_queue w) \<longrightarrow> tx_sorted (tx_queue w')) \<and>
     (searches_ok w \<longrightarrow> searches_ok w') \<and> queue_refs w' \<subseteq> live_refs w)"

lemma evolves_refl [simp]: "evolves w w"
  by (simp add: evolves_def)

lemma evolves_trans: "evolves w w1 \<Longrightarrow> evolves w1 w2 \<Longrightarrow> evolves w w2"
  by (auto simp: evolves_def)

text \<open>Fields that do not matter for it.\<close>

lemma evolves_update [simp]:
  "evolves w0 (w\<lparr>alloc_script := x1\<rparr>) = evolves w0 w" "evolves w0 (w\<lparr>ticks := x2\<rparr>) = evolves w0 w"
  "evolves w0 (w\<lparr>randoms := x3\<rparr>) = evolves w0 w" "evolves w0 (w\<lparr>sent := x4\<rparr>) = evolves w0 w"
  "evolves w0 (w\<lparr>share_step := x5\<rparr>) = evolves w0 w" "evolves w0 (w\<lparr>pcb_main := x6\<rparr>) = evolves w0 w"
  "evolves w0 (w\<lparr>hostname := x7\<rparr>) = evolves w0 w"
  "evolves w0 (w\<lparr>server_instance := x8\<rparr>) = evolves w0 w"
  "evolves w0 (w\<lparr>interfaces := x9\<rparr>) = evolves w0 w"
  "evolves w0 (w\<lparr>finished := y2\<rparr>) = evolves w0 w" "evolves w0 (set_pcb w i j b) = evolves w0 w"
  by (simp_all add: evolves_def queue_refs_def srv_names_def [abs_def] set_pcb_def)

lemma evolves_queue:
  assumes "evolves w0 w" "tx_sorted (tx_queue w) \<Longrightarrow> tx_sorted qs" "\<Union> (tx_refs ` set qs) \<subseteq> queue_refs w \<union> live_refs w0"
  shows "evolves w0 (w\<lparr>tx_queue := qs\<rparr>)"
proof -
  have [simp]: "queue_refs (w\<lparr>tx_queue := qs\<rparr>) = \<Union> (tx_refs ` set qs)" "srv_names (w\<lparr>tx_queue := qs\<rparr>) = srv_names w"
    by (simp_all add: queue_refs_def srv_names_def [abs_def])
  show ?thesis
    using assms unfolding evolves_def by simp blast
qed

lemma evolves_searches:
  assumes "evolves w0 w" "searches_ok w \<Longrightarrow> \<forall>s\<in>set ss. search_ok s"
  shows "evolves w0 (w\<lparr>search_once := ss\<rparr>)"
  using assms by (simp add: evolves_def queue_refs_def srv_names_def [abs_def])

lemma evolves_buffer:
  "evolves w0 w \<Longrightarrow> length t = MDNS_MAX_PACKET_SIZE \<Longrightarrow> evolves w0 (w\<lparr>tx_buffer := t\<rparr>)"
  by (simp add: evolves_def queue_refs_def srv_names_def [abs_def])

lemma evolves_malloc: "malloc w = (ok, w1) \<Longrightarrow> evolves w0 w \<Longrightarrow> evolves w0 w1"
  by (auto simp: malloc_def split: list.splits)

lemma evolves_fresh_ptr: "fresh_ptr w = (a, w1) \<Longrightarrow> evolves w0 w \<Longrightarrow> evolves w0 w1"
  by (erule evolves_trans) (auto simp: fresh_ptr_def evolves_def queue_refs_def srv_names_def [abs_def])

lemma evolves_strdup: "strdup w s = (r, w1) \<Longrightarrow> evolves w0 w \<Longrightarrow> evolves w0 w1"
  by (auto simp: strdup_def Let_def split: prod.splits if_splits dest: evolves_malloc evolves_fresh_ptr)

lemma evolves_now: "now_ms w = (t, w1) \<Longrightarrow> evolves w0 w \<Longrightarrow> evolves w0 w1"
  by (auto simp: now_ms_def split: list.splits)

lemma evolves_random: "esp_random w = (r, w1) \<Longrightarrow> evolves w0 w \<Longrightarrow> evolves w0 w1"
  by (auto simp: esp_random_def split: list.splits)

lemma tx_refs_send_at [simp]: "tx_refs (p\<lparr>tx_send_at := t\<rparr>) = tx_refs p"
  by (simp add: tx_refs_def)

lemma evolves_schedule:
  assumes "evolves w0 w" "tx_refs p \<subseteq> live_refs w0"
  shows "evolves w0 (mdns_schedule_tx_packet w p d)"
proof -
  obtain t w1 where n: "now_ms w = (t, w1)" by (cases "now_ms w")
  let ?p = "p\<lparr>tx_send_at := t + d\<rparr>"
  have "\<Union> (tx_refs ` set (tx_insert ?p (tx_queue w1))) \<subseteq> queue_refs w1 \<union> live_refs w0"
    using assms(2) unfolding queue_refs_def [of w1] by simp blast
  then show ?thesis
    using sorted_tx_insert evolves_now [OF n assms(1)]
    by (simp add: mdns_schedule_tx_packet_def n evolves_queue)
qed

lemma evolves_clear_queue: "evolves w0 w \<Longrightarrow> evolves w0 (mdns_clear_tx_queue_head w)"
  by (auto simp: mdns_clear_tx_queue_head_def intro!: evolves_queue)

lemma evolves_clear_pcb: "evolves w0 w \<Longrightarrow> evolves w0 (mdns_clear_pcb_tx_queue_head w i j)"
  by (auto simp: mdns_clear_pcb_tx_queue_head_def queue_refs_def sorted_filter intro!: evolves_queue)

lemma evolves_dispatch:
  assumes "mdns_dispatch_tx_packet w p = Some w'" "evolves w0 w"
  shows "evolves w0 w'"
proof (cases "length (tx_buffer w) = MDNS_MAX_PACKET_SIZE")
  case True
  then have len: "MDNS_MAX_PACKET_SIZE \<le> length (tx_buffer w)" by simp
  obtain t n w3 where ok: "packet_ok (tx_flags p) (drop MDNS_MAX_PACKET_SIZE (tx_buffer w)) (t, n)" and w3: "same_server w w3" and
    wr: "mdns_udp_pcb_write (w3\<lparr>tx_buffer := t\<rparr>) (tx_if p) (tx_protocol p) (tx_dst p) (tx_port p) t n =
      Some w'"
    by (rule dispatch_buffer [OF assms(1) len])
  have "length t = MDNS_MAX_PACKET_SIZE"
    using ok True by (simp add: packet_ok_def wbuf_ok_def)
  then have "evolves w0 (w3\<lparr>tx_buffer := t\<rparr>)"
    using w3 assms(2) by (auto simp: same_server_def intro!: evolves_buffer)
  then show ?thesis
    using udp_pcb_write_Some [OF wr] by auto
next
  case False
  with assms(2) show ?thesis by (auto simp: evolves_def)
qed

lemma evolves_alloc_packet:
  "mdns_alloc_packet_default w i j = (p, w1) \<Longrightarrow> evolves w0 w \<Longrightarrow> evolves w0 w1"
  by (auto simp: mdns_alloc_packet_default_def Let_def split: prod.splits if_splits
      dest: evolves_malloc evolves_fresh_ptr)

lemma alloc_packet_refs: "mdns_alloc_packet_default w i j = (Some p, w1) \<Longrightarrow> tx_refs p = {}"
  by (auto simp: mdns_alloc_packet_default_def Let_def tx_refs_def split: prod.splits if_splits)

lemma evolves_alloc_answer:
  "mdns_alloc_answer w d t s f b = (ok, d1, w1) \<Longrightarrow> evolves w0 w \<Longrightarrow> evolves w0 w1"
  by (auto simp: mdns_alloc_answer_def Let_def split: prod.splits if_splits dest: evolves_malloc)

lemma evolves_alloc_answers:
  "alloc_answers w d rs = (ok, d1, w1) \<Longrightarrow> evolves w0 w \<Longrightarrow> evolves w0 w1"
  by (induction w d rs rule: alloc_answers.induct)
    (auto split: prod.splits bool.splits dest: evolves_alloc_answer)

text \<open>The services of an answer list and of a chain of allocations.\<close>

definition answer_refs :: "mdns_out_answer_t list \<Rightarrow> srv_ptr set" where
  "answer_refs as = {s. \<exists>a\<in>set as. oa_service a = Some s}"

lemma tx_refs_parts:
  "tx_refs p = answer_refs (tx_answers p) \<union> answer_refs (tx_servers p) \<union> answer_refs (tx_additional p)"
  by (auto simp: tx_refs_def answer_refs_def)

lemma alloc_answer_refs:
  "mdns_alloc_answer w d t s f b = (ok, d1, w1) \<Longrightarrow> answer_refs d1 \<subseteq> answer_refs d \<union> set_option s"
  by (auto simp: mdns_alloc_answer_def answer_refs_def split: prod.splits if_splits)

lemma alloc_answers_refs:
  "alloc_answers w d rs = (ok, d1, w1) \<Longrightarrow>
   answer_refs d1 \<subseteq> answer_refs d \<union> (\<Union>(t, s, f, b)\<in>set rs. set_option s)"
proof (induction w d rs rule: alloc_answers.induct)
  case (2 w d t s f b rs)
  obtain ok1 d2 w2 where a: "mdns_alloc_answer w d t s f b = (ok1, d2, w2)"
    by (cases "mdns_alloc_answer w d t s f b")
  show ?case
  proof (cases ok1)
    case True
    from 2(1) [of ok1 "(d2, w2)" d2 w2] 2(2) a True show ?thesis
      using alloc_answer_refs [OF a] by auto
  next
    case False
    with 2(2) a alloc_answer_refs [OF a] show ?thesis by auto
  qed
qed auto

lemma answer_refs_dealloc [simp]:
  "answer_refs (mdns_dealloc_answer as t s) \<subseteq> answer_refs as"
  using set_remove_first by (fastforce simp: mdns_dealloc_answer_def answer_refs_def)

lemma remove_scheduled_answers_keep:
  "remove_scheduled_answers i j t s qs = Some qs1 \<Longrightarrow>
   map tx_send_at qs1 = map tx_send_at qs \<and> \<Union> (tx_refs ` set qs1) \<subseteq> \<Union> (tx_refs ` set qs)"
proof (induction qs arbitrary: qs1)
  case (Cons q qs)
  then obtain q1 qs2 where q1: "q1 = q \<or> q1 = q\<lparr>tx_answers := remove_first (is_answer t s) (tx_answers q)\<rparr>"
    and qs2: "remove_scheduled_answers i j t s qs = Some qs2" and qs1: "qs1 = q1 # qs2"
    by (auto split: bind_splits if_splits)
  have "tx_refs q1 \<subseteq> tx_refs q" "tx_send_at q1 = tx_send_at q"
    using q1 set_remove_first by (fastforce simp: tx_refs_def)+
  then show ?case
    using Cons.IH [OF qs2] by (auto simp: qs1)
qed simp

lemma evolves_remove_scheduled_answer:
  assumes "mdns_remove_scheduled_answer w i j t s = Some w'" "evolves w0 w"
  shows "evolves w0 w'"
proof -
  obtain qs where qs: "remove_scheduled_answers i j t s (tx_queue w) = Some qs" "w' = w\<lparr>tx_queue := qs\<rparr>"
    using assms(1) by (auto simp: mdns_remove_scheduled_answer_def split: bind_splits)
  show ?thesis
    using remove_scheduled_answers_keep [OF qs(1)] unfolding qs(2)
    by (intro evolves_queue [OF assms(2)]) (auto simp: queue_refs_def)
qed

end
