(* ===== verification/Mdns_Packets.thy ===== *)
theory Mdns_Packets
  imports Mdns_TxQueue
begin

text \<open>
  Building packets: \<^verbatim>\<open>_mdns_get_service_item\<close>, \<^verbatim>\<open>_mdns_create_answer_from_parsed_packet\<close>,
  \<^verbatim>\<open>_mdns_question_exists\<close>, \<^verbatim>\<open>_mdns_create_probe_packet\<close>, \<^verbatim>\<open>_mdns_create_announce_packet\<close>,
  \<^verbatim>\<open>_mdns_create_announce_from_probe\<close> and \<^verbatim>\<open>_mdns_pcb_send_bye\<close> of \<^verbatim>\<open>src/src/mdns.c\<close>.
\<close>

section \<open>Looking up services\<close>

text \<open>The result is \<open>Some None\<close> for the null pointer; a dangling list element is undefined
  behaviour.\<close>

fun service_item_from :: "mdns_world \<Rightarrow> cstring \<Rightarrow> cstring \<Rightarrow> srv_ptr list \<Rightarrow> srv_ptr option option" where
  "service_item_from w service proto [] = Some None"
| "service_item_from w service proto (a # as) = do {
     s \<leftarrow> srv_heap w a;
     if strcaseeq (snd (s_service s)) service \<and> strcaseeq (snd (s_proto s)) proto
     then Some (Some a)
     else service_item_from w service proto as
   }"

definition mdns_get_service_item :: "mdns_world \<Rightarrow> cstring \<Rightarrow> cstring \<Rightarrow> srv_ptr option option" where
  "mdns_get_service_item w service proto = service_item_from w service proto (services w)"

fun count_services :: "srv_ptr list \<Rightarrow> nat \<Rightarrow> bool" where
  "count_services [] service_num = True"
| "count_services (a # as) service_num =
     (let n = (service_num + 1) mod 65536 in
      if n \<ge> MDNS_MAX_SERVICES then False else count_services as n)"

definition mdns_can_add_more_services :: "mdns_world \<Rightarrow> bool" where
  "mdns_can_add_more_services w = count_services (services w) 0"

section \<open>Answers to questions\<close>

text \<open>Allocating into the answer section or the additional section of a packet.\<close>

definition add_answers ::
  "mdns_world \<Rightarrow> mdns_tx_packet_t \<Rightarrow> (u16 \<times> srv_ptr option \<times> bool \<times> bool) list \<Rightarrow>
   bool \<times> mdns_tx_packet_t \<times> mdns_world" where
  "add_answers w p rs = (case alloc_answers w (tx_answers p) rs of
     (ok, as, w1) \<Rightarrow> (ok, p\<lparr>tx_answers := as\<rparr>, w1))"

definition add_additional ::
  "mdns_world \<Rightarrow> mdns_tx_packet_t \<Rightarrow> (u16 \<times> srv_ptr option \<times> bool \<times> bool) list \<Rightarrow>
   bool \<times> mdns_tx_packet_t \<times> mdns_world" where
  "add_additional w p rs = (case alloc_answers w (tx_additional p) rs of
     (ok, as, w1) \<Rightarrow> (ok, p\<lparr>tx_additional := as\<rparr>, w1))"

text \<open>The body of the loop over the questions, for a question that is answered: whether the
  allocations succeed, the packet and the new value of \<open>shared\<close>.\<close>

definition answer_question ::
  "mdns_world \<Rightarrow> bool \<Rightarrow> bool \<Rightarrow> mdns_parsed_question_t \<Rightarrow> srv_ptr option \<Rightarrow> mdns_tx_packet_t \<Rightarrow> bool \<Rightarrow>
   bool \<times> mdns_tx_packet_t \<times> bool \<times> mdns_world" where
  "answer_question w send_flush probe q service packet shared =
     (case service of
        Some srv \<Rightarrow>
          if pq_type q = MDNS_TYPE_PTR \<or> pq_type q = MDNS_TYPE_ANY then
            let shared1 = (shared \<or> pq_type q = MDNS_TYPE_PTR \<or> \<not> probe);
                (ok, packet1, w1) = add_answers w packet
                  [(MDNS_TYPE_PTR, Some srv, False, False), (MDNS_TYPE_SRV, Some srv, send_flush, False),
                   (MDNS_TYPE_TXT, Some srv, send_flush, False)]
            in if \<not> ok then (False, packet1, shared1, w1)
               else let (ok2, packet2, w2) = (if shared1 then add_additional else add_answers) w1 packet1
                      [(MDNS_TYPE_A, None, send_flush, False), (MDNS_TYPE_AAAA, None, send_flush, False)]
                    in (ok2, packet2, shared1, w2)
          else if pq_type q = MDNS_TYPE_SRV then
            let (ok, packet1, w1) = add_answers w packet [(MDNS_TYPE_SRV, Some srv, send_flush, False)]
            in if \<not> ok then (False, packet1, shared, w1)
               else let (ok2, packet2, w2) = add_additional w1 packet1
                      [(MDNS_TYPE_A, None, send_flush, False), (MDNS_TYPE_AAAA, None, send_flush, False)]
                    in (ok2, packet2, shared, w2)
          else if pq_type q = MDNS_TYPE_TXT then
            let (ok, packet1, w1) = add_answers w packet [(MDNS_TYPE_TXT, Some srv, send_flush, False)]
            in (ok, packet1, shared, w1)
          else if pq_type q = MDNS_TYPE_SDPTR then
            let (ok, packet1, w1) = add_answers w packet [(MDNS_TYPE_SDPTR, Some srv, False, False)]
            in (ok, packet1, True, w1)
          else (True, packet, shared, w)
      | None \<Rightarrow>
          if pq_type q = MDNS_TYPE_ANY \<or> pq_type q = MDNS_TYPE_A \<or> pq_type q = MDNS_TYPE_AAAA then
            let (ok, packet1, w1) = add_answers w packet
                  [(MDNS_TYPE_A, None, send_flush, False), (MDNS_TYPE_AAAA, None, send_flush, False)]
            in (ok, packet1, shared, w1)
          else
            let (ok, packet1, w1) = add_answers w packet [(pq_type q, None, send_flush, False)]
            in (ok, packet1, shared, w1))"

text \<open>The service of a question: whether the question names one, and the registered service.\<close>

definition question_service :: "mdns_world \<Rightarrow> mdns_parsed_question_t \<Rightarrow> (bool \<times> srv_ptr option) option" where
  "question_service w q =
     (case (pq_service q, pq_proto q) of
        (Some srv, Some pro) \<Rightarrow> map_option (\<lambda>r. (True, r)) (mdns_get_service_item w srv pro)
      | _ \<Rightarrow> Some (False, None))"

text \<open>The loop itself. If the service of a question is not registered, the code executes
  \<open>continue\<close> without advancing to the next question: it goes round for ever. \<open>None\<close> is the value
  of a call that does not return. The result says whether all allocations succeeded.\<close>

partial_function (option) answer_questions ::
  "mdns_world \<Rightarrow> bool \<Rightarrow> bool \<Rightarrow> mdns_parsed_question_t list \<Rightarrow> mdns_tx_packet_t \<Rightarrow> bool \<Rightarrow> bool \<Rightarrow>
   (bool \<times> mdns_tx_packet_t \<times> bool \<times> bool \<times> mdns_world) option" where
  "answer_questions w send_flush probe qs packet unicast shared =
     (case qs of
        [] \<Rightarrow> Some (True, packet, unicast, shared, w)
      | q # rest \<Rightarrow> do {
          found \<leftarrow> question_service w q;
          if found = (True, None)
          then answer_questions w send_flush probe qs packet unicast shared
          else (case answer_question w send_flush probe q (snd found) packet shared of
              (ok, packet1, shared1, w1) \<Rightarrow>
                if \<not> ok then Some (False, packet1, unicast \<or> pq_unicast q, shared1, w1)
                else answer_questions w1 send_flush probe rest packet1 (unicast \<or> pq_unicast q) shared1)
        })"

definition mdns_create_answer_from_parsed_packet ::
  "mdns_world \<Rightarrow> mdns_parsed_packet_t \<Rightarrow> mdns_world option" where
  "mdns_create_answer_from_parsed_packet w parsed_packet =
     (if pp_questions parsed_packet = [] then Some w
      else let send_flush = (pp_src_port parsed_packet = MDNS_SERVICE_PORT);
               (p, w1) = mdns_alloc_packet_default w (pp_if parsed_packet) (pp_protocol parsed_packet)
           in case p of
             None \<Rightarrow> Some w1
           | Some packet \<Rightarrow> do {
               (ok, packet1, unicast, shared, w2) \<leftarrow> answer_questions w1 send_flush
                  (pp_probe parsed_packet) (pp_questions parsed_packet)
                  (packet\<lparr>tx_flags := MDNS_FLAGS_AUTHORITATIVE,
                          tx_distributed := pp_distributed parsed_packet\<rparr>) False False;
               if \<not> ok then Some w2
               else let packet2 = (if unicast \<or> \<not> send_flush
                          then packet1\<lparr>tx_dst := pp_src parsed_packet,
                                       tx_port := pp_src_port parsed_packet\<rparr>
                          else packet1)
                    in if shared
                       then Some ((mdns_schedule_tx_packet w2 packet2 (25 + of_nat (share_step w2 * 25)))
                                   \<lparr>share_step := (share_step w2 + 1) AND 3\<rparr>)
                       else mdns_dispatch_tx_packet w2 packet2
             })"

section \<open>Probes and announcements\<close>

definition mdns_question_exists :: "mdns_out_question_t \<Rightarrow> mdns_out_question_t list \<Rightarrow> bool" where
  "mdns_question_exists needle haystack =
     list_ex (\<lambda>q. oq_type q = oq_type needle \<and> map_option fst (oq_host q) = map_option fst (oq_host needle) \<and>
        map_option fst (oq_service q) = map_option fst (oq_service needle) \<and>
        map_option fst (oq_proto q) = map_option fst (oq_proto needle)) haystack"

text \<open>The loop over the services; \<open>None\<close> in the first component of the result is the null
  pointer that the code returns when an allocation fails.\<close>

fun probe_questions ::
  "mdns_world \<Rightarrow> bool \<Rightarrow> srv_ptr list \<Rightarrow> mdns_tx_packet_t \<Rightarrow> (mdns_tx_packet_t option \<times> mdns_world) option" where
  "probe_questions w first [] packet = Some (Some packet, w)"
| "probe_questions w first (a # as) packet =
     (let (ok, w1) = malloc w in
      if \<not> ok then Some (None, w1)
      else do {
        s \<leftarrow> srv_heap w1 a;
        let host = mdns_get_service_instance_name w1 (Some s);
        let q = \<lparr>oq_type = MDNS_TYPE_ANY, oq_unicast = first, oq_host = host,
                 oq_service = Some (s_service s), oq_proto = Some (s_proto s),
                 oq_domain = Some default_domain_ptr\<rparr>;
        if host = None \<or> mdns_question_exists q (tx_questions packet)
        then probe_questions w1 first as packet
        else (case mdns_alloc_answer w1 (tx_servers packet) MDNS_TYPE_SRV (Some a) False False of
            (True, servers, w2) \<Rightarrow> probe_questions w2 first as
               (packet\<lparr>tx_questions := tx_questions packet @ [q], tx_servers := servers\<rparr>)
          | (False, _, w2) \<Rightarrow> Some (None, w2))
      })"

text \<open>The question for the host name and the proposed addresses.\<close>

definition probe_host ::
  "mdns_world \<Rightarrow> tcpip_adapter_if_t \<Rightarrow> bool \<Rightarrow> mdns_tx_packet_t \<Rightarrow> mdns_tx_packet_t option \<times> mdns_world" where
  "probe_host w tcpip_if first packet =
     (let (ok, w1) = malloc w in
      if \<not> ok then (None, w1)
      else
        let q = \<lparr>oq_type = MDNS_TYPE_ANY, oq_unicast = first, oq_host = hostname w1,
                 oq_service = None, oq_proto = None, oq_domain = Some default_domain_ptr\<rparr>;
            packet1 = (if mdns_question_exists q (tx_questions packet) then packet
                       else packet\<lparr>tx_questions := tx_questions packet @ [q]\<rparr>);
            (ok4, servers4, w2) = (if pcb_pcb (interfaces w1 tcpip_if MDNS_IP_PROTOCOL_V4)
               then mdns_alloc_answer w1 (tx_servers packet1) MDNS_TYPE_A None False False
               else (True, tx_servers packet1, w1))
        in if \<not> ok4 then (None, w2)
           else let (ok6, servers6, w3) = (if pcb_pcb (interfaces w2 tcpip_if MDNS_IP_PROTOCOL_V6)
               then mdns_alloc_answer w2 servers4 MDNS_TYPE_AAAA None False False
               else (True, servers4, w2))
             in if \<not> ok6 then (None, w3) else (Some (packet1\<lparr>tx_servers := servers6\<rparr>), w3))"

definition mdns_create_probe_packet ::
  "mdns_world \<Rightarrow> tcpip_adapter_if_t \<Rightarrow> mdns_ip_protocol_t \<Rightarrow> srv_ptr list \<Rightarrow> bool \<Rightarrow> bool \<Rightarrow>
   (mdns_tx_packet_t option \<times> mdns_world) option" where
  "mdns_create_probe_packet w tcpip_if ip_protocol srvs first include_ip =
     (case mdns_alloc_packet_default w tcpip_if ip_protocol of
        (None, w1) \<Rightarrow> Some (None, w1)
      | (Some packet, w1) \<Rightarrow> do {
          (p, w2) \<leftarrow> probe_questions w1 first srvs packet;
          case p of
            None \<Rightarrow> Some (None, w2)
          | Some packet1 \<Rightarrow>
              if include_ip \<and> \<not> str_null_or_empty (hostname w2)
              then Some (probe_host w2 tcpip_if first packet1)
              else Some (Some packet1, w2)
        })"

definition announce_service :: "srv_ptr option \<Rightarrow> (u16 \<times> srv_ptr option \<times> bool \<times> bool) list" where
  "announce_service service =
     [(MDNS_TYPE_SDPTR, service, False, False), (MDNS_TYPE_PTR, service, False, False),
      (MDNS_TYPE_SRV, service, True, False), (MDNS_TYPE_TXT, service, True, False)]"

definition announce_ip :: "(u16 \<times> srv_ptr option \<times> bool \<times> bool) list" where
  "announce_ip = [(MDNS_TYPE_A, None, True, False), (MDNS_TYPE_AAAA, None, True, False)]"

definition mdns_create_announce_packet ::
  "mdns_world \<Rightarrow> tcpip_adapter_if_t \<Rightarrow> mdns_ip_protocol_t \<Rightarrow> srv_ptr list \<Rightarrow> bool \<Rightarrow>
   mdns_tx_packet_t option \<times> mdns_world" where
  "mdns_create_announce_packet w tcpip_if ip_protocol srvs include_ip =
     (case mdns_alloc_packet_default w tcpip_if ip_protocol of
        (None, w1) \<Rightarrow> (None, w1)
      | (Some packet, w1) \<Rightarrow>
          (case add_answers w1 (packet\<lparr>tx_flags := MDNS_FLAGS_AUTHORITATIVE\<rparr>)
                  (concat (map (announce_service \<circ> Some) srvs) @ (if include_ip then announce_ip else [])) of
             (ok, packet1, w2) \<Rightarrow> (if ok then Some packet1 else None, w2)))"

definition announce_of_probe :: "mdns_out_answer_t \<Rightarrow> (u16 \<times> srv_ptr option \<times> bool \<times> bool) list" where
  "announce_of_probe s =
     (if oa_type s = MDNS_TYPE_SRV then announce_service (oa_service s)
      else if oa_type s = MDNS_TYPE_A \<or> oa_type s = MDNS_TYPE_AAAA
      then [(oa_type s, None, True, False)] else [])"

definition mdns_create_announce_from_probe ::
  "mdns_world \<Rightarrow> mdns_tx_packet_t \<Rightarrow> mdns_tx_packet_t option \<times> mdns_world" where
  "mdns_create_announce_from_probe w probe =
     (case mdns_alloc_packet_default w (tx_if probe) (tx_protocol probe) of
        (None, w1) \<Rightarrow> (None, w1)
      | (Some packet, w1) \<Rightarrow>
          (case add_answers w1 (packet\<lparr>tx_flags := MDNS_FLAGS_AUTHORITATIVE\<rparr>)
                  (concat (map announce_of_probe (tx_servers probe))) of
             (ok, packet1, w2) \<Rightarrow> (if ok then Some packet1 else None, w2)))"

definition bye_answers :: "srv_ptr list \<Rightarrow> bool \<Rightarrow> (u16 \<times> srv_ptr option \<times> bool \<times> bool) list" where
  "bye_answers srvs include_ip =
     map (\<lambda>s. (MDNS_TYPE_PTR, Some s, True, True)) srvs @
     (if include_ip then [(MDNS_TYPE_A, None, True, True), (MDNS_TYPE_AAAA, None, True, True)] else [])"

definition mdns_pcb_send_bye ::
  "mdns_world \<Rightarrow> tcpip_adapter_if_t \<Rightarrow> mdns_ip_protocol_t \<Rightarrow> srv_ptr list \<Rightarrow> bool \<Rightarrow> mdns_world option" where
  "mdns_pcb_send_bye w tcpip_if ip_protocol srvs include_ip =
     (case mdns_alloc_packet_default w tcpip_if ip_protocol of
        (None, w1) \<Rightarrow> Some w1
      | (Some packet, w1) \<Rightarrow>
          (case add_answers w1 (packet\<lparr>tx_flags := MDNS_FLAGS_AUTHORITATIVE\<rparr>) (bye_answers srvs include_ip) of
             (ok, packet1, w2) \<Rightarrow> if ok then mdns_dispatch_tx_packet w2 packet1 else Some w2))"

section \<open>Lookup\<close>

lemma service_item_from_Some:
  "service_item_from w service proto as = Some (Some a) \<Longrightarrow>
   a \<in> set as \<and> (\<exists>s. srv_heap w a = Some s \<and> strcaseeq (snd (s_service s)) service \<and>
     strcaseeq (snd (s_proto s)) proto)"
  by (induction as) (auto split: bind_splits if_splits)

lemma get_service_item_Some:
  assumes "mdns_get_service_item w service proto = Some (Some a)"
  shows "a \<in> set (services w)" "a \<in> dom (srv_heap w)"
  using service_item_from_Some [of w service proto "services w" a] assms
  by (auto simp: mdns_get_service_item_def)

text \<open>The lookup depends on the registered services and their types only.\<close>

lemma service_item_from_names:
  "srv_names w' = srv_names w \<Longrightarrow> service_item_from w' service proto as = service_item_from w service proto as"
proof (induction as)
  case (Cons a as)
  have "map_option (\<lambda>s. (s_service s, s_proto s)) (srv_heap w' a) =
      map_option (\<lambda>s. (s_service s, s_proto s)) (srv_heap w a)"
    using fun_cong [OF Cons.prems, of a] unfolding srv_names_def .
  then show ?case
    using Cons.IH [OF Cons.prems] by (cases "srv_heap w a"; cases "srv_heap w' a") simp_all
qed simp

lemma get_service_item_evolves:
  "evolves w w' \<Longrightarrow> length (tx_buffer w) = MDNS_MAX_PACKET_SIZE \<Longrightarrow>
   mdns_get_service_item w' service proto = mdns_get_service_item w service proto"
  unfolding mdns_get_service_item_def evolves_def by (metis service_item_from_names)

section \<open>Packets under construction\<close>

text \<open>A packet that is built from a world \<open>w0\<close> on refers to the services of \<open>A\<close> only, and building
  it changes nothing that the service task keeps.\<close>

definition builds :: "mdns_world \<Rightarrow> srv_ptr set \<Rightarrow> mdns_tx_packet_t option \<times> mdns_world \<Rightarrow> bool" where
  "builds w0 A r \<longleftrightarrow> evolves w0 (snd r) \<and> (\<forall>p. fst r = Some p \<longrightarrow> tx_refs p \<subseteq> A)"

lemma buildsD: "builds w0 A (p, w) \<Longrightarrow> evolves w0 w" "builds w0 A (Some q, w) \<Longrightarrow> tx_refs q \<subseteq> A"
  by (simp_all add: builds_def)

abbreviation request_refs :: "(u16 \<times> srv_ptr option \<times> bool \<times> bool) list \<Rightarrow> srv_ptr set" where
  "request_refs rs \<equiv> (\<Union>(t, s, f, b)\<in>set rs. set_option s)"

text \<open>The contract of a section of a packet that answers are added to.\<close>

locale answer_section =
  fixes add :: "mdns_world \<Rightarrow> mdns_tx_packet_t \<Rightarrow> (u16 \<times> srv_ptr option \<times> bool \<times> bool) list \<Rightarrow>
    bool \<times> mdns_tx_packet_t \<times> mdns_world"
  assumes add_evolves: "add w p rs = (ok, p1, w1) \<Longrightarrow> evolves w0 w \<Longrightarrow> evolves w0 w1"
    and add_refs: "add w p rs = (ok, p1, w1) \<Longrightarrow> tx_refs p1 \<subseteq> tx_refs p \<union> request_refs rs"

locale answer_sections = answer_section + second: answer_section add2 for add2
begin

text \<open>Records for the first section and, if that works, for the second one.\<close>

lemma both:
  assumes "(case add w p rs of (ok, p1, w1) \<Rightarrow> if \<not> ok then (False, p1, sh, w1)
      else case add2 w1 p1 rs2 of (ok2, p2, w2) \<Rightarrow> (ok2, p2, sh, w2)) = (ok', p', sh', w')" "evolves w0 w"
  shows "evolves w0 w' \<and> tx_refs p' \<subseteq> tx_refs p \<union> request_refs rs \<union> request_refs rs2"
proof -
  obtain ok p1 w1 where a: "add w p rs = (ok, p1, w1)" by (cases "add w p rs")
  obtain ok2 p2 w2 where b: "add2 w1 p1 rs2 = (ok2, p2, w2)" by (cases "add2 w1 p1 rs2")
  show ?thesis
    using assms add_evolves [OF a assms(2)] add_refs [OF a] second.add_evolves [OF b, of w0] second.add_refs [OF b]
    by (cases ok) (auto simp: a b)
qed

end

interpretation ans: answer_section add_answers
proof unfold_locales
  fix w p rs ok p1 w1 w0
  assume "add_answers w p rs = (ok, p1, w1)"
  then obtain as where a: "alloc_answers w (tx_answers p) rs = (ok, as, w1)" "p1 = p\<lparr>tx_answers := as\<rparr>"
    by (auto simp: add_answers_def split: prod.splits)
  show "evolves w0 w \<Longrightarrow> evolves w0 w1"
    by (rule evolves_alloc_answers [OF a(1)])
  show "tx_refs p1 \<subseteq> tx_refs p \<union> request_refs rs"
    using alloc_answers_refs [OF a(1)] by (auto simp: a(2) tx_refs_parts)
qed

interpretation extra: answer_section add_additional
proof unfold_locales
  fix w p rs ok p1 w1 w0
  assume "add_additional w p rs = (ok, p1, w1)"
  then obtain as where a: "alloc_answers w (tx_additional p) rs = (ok, as, w1)" "p1 = p\<lparr>tx_additional := as\<rparr>"
    by (auto simp: add_additional_def split: prod.splits)
  show "evolves w0 w \<Longrightarrow> evolves w0 w1"
    by (rule evolves_alloc_answers [OF a(1)])
  show "tx_refs p1 \<subseteq> tx_refs p \<union> request_refs rs"
    using alloc_answers_refs [OF a(1)] by (auto simp: a(2) tx_refs_parts)
qed

interpretation ans_extra: answer_sections add_answers add_additional ..

interpretation ans_ans: answer_sections add_answers add_answers ..

lemma answer_question_Some:
  assumes "answer_question w sf pr q service p sh = (ok, p1, sh1, w1)" "evolves w0 w"
  shows "evolves w0 w1 \<and> tx_refs p1 \<subseteq> tx_refs p \<union> set_option service"
proof -
  have one: "evolves w0 w1 \<and> tx_refs p1 \<subseteq> tx_refs p \<union> request_refs rs"
    if "(case add_answers w p rs of (ok, p1, w1) \<Rightarrow> (ok, p1, sh2, w1)) = (ok, p1, sh1, w1)" for rs sh2
    using that ans.add_evolves [OF _ assms(2)] ans.add_refs by (auto split: prod.splits)
  note two = ans_extra.both [OF _ assms(2)] ans_ans.both [OF _ assms(2)]
  show ?thesis
    using assms(1) [unfolded answer_question_def Let_def] assms(2)
    by (cases service) (auto split: if_splits dest!: two one)
qed

section \<open>The loop over the questions\<close>

text \<open>A question is answerable if the service it names, if any, is registered. The loop does not
  get past a question that is not.\<close>

definition answerable :: "mdns_world \<Rightarrow> mdns_parsed_question_t \<Rightarrow> bool" where
  "answerable w q \<longleftrightarrow> (\<exists>found. question_service w q = Some found \<and> found \<noteq> (True, None))"

lemma answer_questions_Nil:
  "answer_questions w sf pr [] p u sh = Some (True, p, u, sh, w)"
  by (subst answer_questions.simps) simp

lemma answer_questions_answerable:
  assumes "question_service w q = Some found" "found \<noteq> (True, None)"
  shows "answer_questions w sf pr (q # qs) p u sh =
    (case answer_question w sf pr q (snd found) p sh of
       (ok, p1, sh1, w1) \<Rightarrow>
         if \<not> ok then Some (False, p1, u \<or> pq_unicast q, sh1, w1)
         else answer_questions w1 sf pr qs p1 (u \<or> pq_unicast q) sh1)"
  using assms by (subst answer_questions.simps) simp

lemma answer_questions_returns_answerable:
  assumes "answer_questions w sf pr qs p u sh = Some r"
  shows "qs \<noteq> [] \<longrightarrow> answerable w (hd qs)"
proof (rule answer_questions.raw_induct [OF _ assms,
      where P = "\<lambda>w sf pr qs p u sh r. qs \<noteq> [] \<longrightarrow> answerable w (hd qs)"])
  fix f :: "mdns_world \<Rightarrow> bool \<Rightarrow> bool \<Rightarrow> mdns_parsed_question_t list \<Rightarrow> mdns_tx_packet_t \<Rightarrow> bool \<Rightarrow>
      bool \<Rightarrow> (bool \<times> mdns_tx_packet_t \<times> bool \<times> bool \<times> mdns_world) option"
    and w and sf pr :: bool and qs :: "mdns_parsed_question_t list" and p and u sh :: bool and r
  assume ih: "\<And>w sf pr qs p u sh r. f w sf pr qs p u sh = Some r \<Longrightarrow> qs \<noteq> [] \<longrightarrow> answerable w (hd qs)"
  assume run: "(case qs of [] \<Rightarrow> Some (True, p, u, sh, w)
    | q # rest \<Rightarrow> question_service w q \<bind> (\<lambda>found. if found = (True, None) then f w sf pr qs p u sh
        else case answer_question w sf pr q (snd found) p sh of
          (ok, p1, sh1, w1) \<Rightarrow> if \<not> ok then Some (False, p1, u \<or> pq_unicast q, sh1, w1)
            else f w1 sf pr rest p1 (u \<or> pq_unicast q) sh1)) = Some r"
  show "qs \<noteq> [] \<longrightarrow> answerable w (hd qs)"
  proof (cases qs)
    case (Cons q rest)
    with run obtain found where "question_service w q = Some found"
      by (auto split: bind_splits)
    then show ?thesis
      using run ih [of w sf pr qs p u sh r] by (cases "found = (True, None)") (auto simp: Cons answerable_def)
  qed simp
qed

lemma answer_questions_stuck: "\<not> answerable w q \<Longrightarrow> answer_questions w sf pr (q # qs) p u sh = None"
  using answer_questions_returns_answerable [of w sf pr "q # qs" p u sh]
  by (cases "answer_questions w sf pr (q # qs) p u sh") auto

lemma question_service_mem:
  "question_service w q = Some found \<Longrightarrow> set_option (snd found) \<subseteq> dom (srv_names w)"
  unfolding dom_srv_names question_service_def
  by (auto split: option.splits) (use get_service_item_Some(2) in blast)

lemma question_service_evolves:
  "evolves w w' \<Longrightarrow> length (tx_buffer w) = MDNS_MAX_PACKET_SIZE \<Longrightarrow> question_service w' q = question_service w q"
  by (simp add: question_service_def get_service_item_evolves split: option.splits)

lemma answerable_evolves:
  "evolves w w' \<Longrightarrow> length (tx_buffer w) = MDNS_MAX_PACKET_SIZE \<Longrightarrow> answerable w' q = answerable w q"
  by (simp add: answerable_def question_service_evolves)

lemma answer_questions_Some:
  assumes "answer_questions w sf pr qs p u sh = Some (ok, p1, u1, sh1, w1)" "evolves w0 w"
    "length (tx_buffer w0) = MDNS_MAX_PACKET_SIZE"
  shows "evolves w0 w1 \<and> tx_refs p1 \<subseteq> tx_refs p \<union> dom (srv_names w0)"
  using assms
proof (induction qs arbitrary: w p u sh)
  case Nil
  then show ?case by (simp add: answer_questions_Nil)
next
  case (Cons q qs)
  from Cons.prems(1) obtain found where f: "question_service w q = Some found" "found \<noteq> (True, None)"
    using answer_questions_returns_answerable [OF Cons.prems(1)] by (auto simp: answerable_def)
  obtain ok2 p2 sh2 w2 where a: "answer_question w sf pr q (snd found) p sh = (ok2, p2, sh2, w2)"
    by (cases "answer_question w sf pr q (snd found) p sh")
  have s: "srv_names w = srv_names w0"
    using Cons.prems(2,3) by (simp add: evolves_def)
  have w2: "evolves w0 w2 \<and> tx_refs p2 \<subseteq> tx_refs p \<union> dom (srv_names w0)"
    using answer_question_Some [OF a Cons.prems(2)] question_service_mem [OF f(1)] s by auto
  show ?case
  proof (cases ok2)
    case True
    with Cons.prems(1) a f have "answer_questions w2 sf pr qs p2 (u \<or> pq_unicast q) sh2 = Some (ok, p1, u1, sh1, w1)"
      by (simp add: answer_questions_answerable)
    from Cons.IH [OF this _ Cons.prems(3)] w2 show ?thesis by blast
  next
    case False
    with Cons.prems(1) a f w2 show ?thesis by (simp add: answer_questions_answerable)
  qed
qed

text \<open>The loop ends if every question is answerable.\<close>

lemma answer_questions_returns:
  assumes "\<forall>q\<in>set qs. answerable w q" "length (tx_buffer w) = MDNS_MAX_PACKET_SIZE"
  shows "answer_questions w sf pr qs p u sh \<noteq> None"
  using assms
proof (induction qs arbitrary: w p u sh)
  case Nil
  then show ?case by (simp add: answer_questions_Nil)
next
  case (Cons q qs)
  then obtain found where f: "question_service w q = Some found" "found \<noteq> (True, None)"
    by (auto simp: answerable_def)
  obtain ok2 p2 sh2 w2 where a: "answer_question w sf pr q (snd found) p sh = (ok2, p2, sh2, w2)"
    by (cases "answer_question w sf pr q (snd found) p sh")
  have w2: "evolves w w2"
    using answer_question_Some [OF a] by simp
  then have "answer_questions w2 sf pr qs p2 (u \<or> pq_unicast q) sh2 \<noteq> None"
    using Cons.prems answerable_evolves by (intro Cons.IH) (auto simp: evolves_def)
  then show ?case
    using a f by (auto simp: answer_questions_answerable)
qed

lemma evolves_create_answer:
  assumes "mdns_create_answer_from_parsed_packet w pp = Some w'"
  shows "evolves w w'"
proof (cases "length (tx_buffer w) = MDNS_MAX_PACKET_SIZE")
  case buf: True
  show ?thesis
  proof (cases "pp_questions pp = []")
    case True
    with assms show ?thesis by (simp add: mdns_create_answer_from_parsed_packet_def)
  next
    case qs: False
    obtain r w1 where al: "mdns_alloc_packet_default w (pp_if pp) (pp_protocol pp) = (r, w1)"
      by (cases "mdns_alloc_packet_default w (pp_if pp) (pp_protocol pp)")
    have w1: "evolves w w1" by (rule evolves_alloc_packet [OF al]) simp
    show ?thesis
    proof (cases r)
      case None
      with assms qs al w1 show ?thesis by (simp add: mdns_create_answer_from_parsed_packet_def)
    next
      case (Some packet)
      with assms qs al obtain ok p1 u sh w2 where
        run: "answer_questions w1 (pp_src_port pp = MDNS_SERVICE_PORT) (pp_probe pp) (pp_questions pp)
          (packet\<lparr>tx_flags := MDNS_FLAGS_AUTHORITATIVE, tx_distributed := pp_distributed pp\<rparr>) False False =
          Some (ok, p1, u, sh, w2)"
        by (auto simp: mdns_create_answer_from_parsed_packet_def Let_def split: bind_splits)
      have e: "evolves w w2" "tx_refs p1 \<subseteq> live_refs w"
        using answer_questions_Some [OF run w1 buf] alloc_packet_refs [OF al [unfolded Some]]
        by (auto simp: tx_refs_def)
      then have "evolves w (mdns_schedule_tx_packet w2 (p1\<lparr>tx_dst := d, tx_port := t\<rparr>) x)"
        "evolves w (mdns_schedule_tx_packet w2 p1 x)" for d t x
        by (auto simp: tx_refs_def intro!: evolves_schedule)
      with assms qs al run Some e evolves_dispatch [OF _ e(1)] show ?thesis
        by (auto simp: mdns_create_answer_from_parsed_packet_def Let_def split: if_splits)
    qed
  qed
next
  case False
  then show ?thesis by (simp add: evolves_def)
qed

section \<open>Building probes and announcements\<close>

lemma malloc_srv_heap [simp]: "malloc w = (ok, w1) \<Longrightarrow> srv_heap w1 = srv_heap w"
  by (auto simp: malloc_def split: list.splits)

lemma alloc_answer_srv_heap: "mdns_alloc_answer w d t s f b = (ok, d1, w1) \<Longrightarrow> srv_heap w1 = srv_heap w"
  by (auto simp: mdns_alloc_answer_def split: prod.splits if_splits)

lemma builds_None: "evolves w0 w \<Longrightarrow> builds w0 A (None, w)"
  by (simp add: builds_def)

lemma probe_questions_Some:
  assumes "probe_questions w first as p = Some (r, w1)" "evolves w0 w" "tx_refs p \<subseteq> A" "dom (srv_heap w) \<subseteq> A"
  shows "builds w0 A (r, w1)"
  using assms
proof (induction as arbitrary: w p)
  case Nil
  then show ?case by (auto simp: builds_def)
next
  case (Cons a as)
  obtain ok w2 where m: "malloc w = (ok, w2)" by (cases "malloc w")
  have w2: "evolves w0 w2" by (rule evolves_malloc [OF m Cons.prems(2)])
  show ?case
  proof (cases ok)
    case True
    with Cons.prems(1) m obtain s where s: "srv_heap w2 a = Some s"
      by (auto split: bind_splits)
    let ?q = "\<lparr>oq_type = MDNS_TYPE_ANY, oq_unicast = first,
      oq_host = mdns_get_service_instance_name w2 (Some s), oq_service = Some (s_service s),
      oq_proto = Some (s_proto s), oq_domain = Some default_domain_ptr\<rparr>"
    obtain ok3 sv w3 where al: "mdns_alloc_answer w2 (tx_servers p) MDNS_TYPE_SRV (Some a) False False = (ok3, sv, w3)"
      by (cases "mdns_alloc_answer w2 (tx_servers p) MDNS_TYPE_SRV (Some a) False False")
    have w3: "evolves w0 w3" by (rule evolves_alloc_answer [OF al w2])
    let ?p = "p\<lparr>tx_questions := tx_questions p @ [?q], tx_servers := sv\<rparr>"
    have h: "srv_heap w2 = srv_heap w" "srv_heap w3 = srv_heap w"
      using malloc_srv_heap [OF m] alloc_answer_srv_heap [OF al] by simp_all
    have "tx_refs ?p \<subseteq> A"
      using alloc_answer_refs [OF al] Cons.prems(3,4) s h by (auto simp: tx_refs_parts)
    then have "probe_questions w3 first as ?p = Some (r, w1) \<Longrightarrow> builds w0 A (r, w1)"
      using Cons.IH [OF _ w3] Cons.prems(4) h by simp
    moreover have "probe_questions w2 first as p = Some (r, w1) \<Longrightarrow> builds w0 A (r, w1)"
      using Cons.IH [OF _ w2 Cons.prems(3)] Cons.prems(4) h by simp
    ultimately show ?thesis
      using Cons.prems(1) True m s al w3 builds_None [OF w3, of A]
      by (auto simp: Let_def split: if_splits bool.splits)
  next
    case False
    with Cons.prems(1) m w2 show ?thesis by (auto simp: builds_def)
  qed
qed

lemma probe_questions_returns:
  "set as \<subseteq> dom (srv_heap w) \<Longrightarrow> probe_questions w first as p \<noteq> None"
proof (induction as arbitrary: w p)
  case (Cons a as)
  obtain ok w2 where m: "malloc w = (ok, w2)" by (cases "malloc w")
  obtain s where s: "srv_heap w2 a = Some s"
    using Cons.prems malloc_srv_heap [OF m] by auto
  obtain ok3 sv w3 where al: "mdns_alloc_answer w2 (tx_servers p) MDNS_TYPE_SRV (Some a) False False = (ok3, sv, w3)"
    by (cases "mdns_alloc_answer w2 (tx_servers p) MDNS_TYPE_SRV (Some a) False False")
  show ?case
    using Cons.IH [of w2] Cons.IH [of w3] Cons.prems m s al alloc_answer_srv_heap [OF al] malloc_srv_heap [OF m]
    by (auto simp: Let_def split: bool.splits simp del: not_None_eq)
qed simp

lemma probe_host_builds:
  assumes "evolves w0 w" "tx_refs p \<subseteq> A"
  shows "builds w0 A (probe_host w i first p)"
proof -
  obtain ok w1 where m: "malloc w = (ok, w1)" by (cases "malloc w")
  have w1: "evolves w0 w1" by (rule evolves_malloc [OF m assms(1)])
  have step: "evolves w0 w3 \<and> answer_refs d1 \<subseteq> answer_refs d"
    if "(if c then mdns_alloc_answer w2 d t None False False else (True, d, w2)) = (ok2, d1, w3)" "evolves w0 w2"
    for c w2 d t ok2 d1 w3
    using that evolves_alloc_answer alloc_answer_refs by (fastforce split: if_splits)
  let ?q = "\<lparr>oq_type = MDNS_TYPE_ANY, oq_unicast = first, oq_host = hostname w1,
                 oq_service = None, oq_proto = None, oq_domain = Some default_domain_ptr\<rparr>"
  let ?p = "if mdns_question_exists ?q (tx_questions p) then p else p\<lparr>tx_questions := tx_questions p @ [?q]\<rparr>"
  obtain ok4 s4 w2 where v4: "(if pcb_pcb (interfaces w1 i MDNS_IP_PROTOCOL_V4)
       then mdns_alloc_answer w1 (tx_servers ?p) MDNS_TYPE_A None False False else (True, tx_servers ?p, w1)) = (ok4, s4, w2)"
    by (metis prod_cases3)
  obtain ok6 s6 w3 where v6: "(if pcb_pcb (interfaces w2 i MDNS_IP_PROTOCOL_V6)
       then mdns_alloc_answer w2 s4 MDNS_TYPE_AAAA None False False else (True, s4, w2)) = (ok6, s6, w3)"
    by (metis prod_cases3)
  note e4 = step [OF v4 w1] note e6 = step [OF v6 conjunct1 [OF e4]]
  have "tx_servers ?p = tx_servers p" by simp
  then have "answer_refs s6 \<subseteq> answer_refs (tx_servers p)"
    using e4 e6 by (metis subset_trans)
  then have "tx_refs (?p\<lparr>tx_servers := s6\<rparr>) \<subseteq> A"
    using assms(2) by (auto simp: tx_refs_parts)
  then show ?thesis
    using w1 e4 e6 unfolding probe_host_def Let_def m prod.case v4 v6
    by (auto simp: builds_def)
qed

lemma alloc_packet_srv_heap: "mdns_alloc_packet_default w i j = (p, w1) \<Longrightarrow> srv_heap w1 = srv_heap w"
  by (auto simp: mdns_alloc_packet_default_def fresh_ptr_def Let_def split: prod.splits if_splits)

lemma create_probe_packet_builds:
  assumes "mdns_create_probe_packet w i j srvs first ip = Some r" "evolves w0 w" "dom (srv_heap w) \<subseteq> A"
  shows "builds w0 A r"
proof -
  obtain pk w1 where al: "mdns_alloc_packet_default w i j = (pk, w1)"
    by (cases "mdns_alloc_packet_default w i j")
  have w1: "evolves w0 w1" by (rule evolves_alloc_packet [OF al assms(2)])
  show ?thesis
  proof (cases pk)
    case None
    with assms(1) al w1 show ?thesis by (auto simp: mdns_create_probe_packet_def builds_def)
  next
    case (Some packet)
    with assms(1) al obtain p w2 where
      q: "probe_questions w1 first srvs packet = Some (p, w2)" and
      r: "r = (case p of None \<Rightarrow> (None, w2) | Some packet1 \<Rightarrow>
              if ip \<and> \<not> str_null_or_empty (hostname w2) then probe_host w2 i first packet1
              else (Some packet1, w2))"
      by (auto simp: mdns_create_probe_packet_def split: bind_splits option.splits if_splits)
    have b: "builds w0 A (p, w2)"
      using probe_questions_Some [OF q w1, of A] alloc_packet_refs [OF al [unfolded Some]]
        alloc_packet_srv_heap [OF al] assms(3) by simp
    show ?thesis
    proof (cases p)
      case None
      with b show ?thesis by (simp add: r builds_def)
    next
      case (Some p1)
      show ?thesis
        using b probe_host_builds [OF buildsD(1) [OF b] buildsD(2) [OF b [unfolded Some]], of i first]
        by (simp add: r Some)
    qed
  qed
qed

lemma create_probe_packet_returns:
  assumes "set srvs \<subseteq> dom (srv_heap w)"
  shows "mdns_create_probe_packet w i j srvs first ip \<noteq> None"
proof -
  obtain pk w1 where al: "mdns_alloc_packet_default w i j = (pk, w1)"
    by (cases "mdns_alloc_packet_default w i j")
  have "srv_heap w1 = srv_heap w"
    by (rule alloc_packet_srv_heap [OF al])
  then have q: "probe_questions w1 first srvs p \<noteq> None" for p
    using probe_questions_returns [of srvs w1] assms by simp
  show ?thesis
  proof (cases pk)
    case (Some p)
    obtain p1 w2 where "probe_questions w1 first srvs p = Some (p1, w2)"
      using q [of p] by auto
    with al Some show ?thesis by (simp add: mdns_create_probe_packet_def split: option.split)
  qed (simp add: mdns_create_probe_packet_def al)
qed

lemma announce_refs:
  "request_refs (concat (map (announce_service \<circ> Some) srvs)) = set srvs" "request_refs announce_ip = {}"
  "request_refs (announce_service s) = set_option s"
  by (auto simp: announce_service_def announce_ip_def)

text \<open>A packet made of one chain of allocations.\<close>

lemma answer_packet_builds:
  assumes "mdns_alloc_packet_default w i j = (Some p, w1)" "evolves w0 w" "request_refs rs \<subseteq> A"
    "add_answers w1 (p\<lparr>tx_flags := fl\<rparr>) rs = (ok, p1, w2)"
  shows "evolves w0 w2" "tx_refs p1 \<subseteq> A"
proof -
  show "evolves w0 w2"
    using ans.add_evolves [OF assms(4)] evolves_alloc_packet [OF assms(1,2)] by blast
  show "tx_refs p1 \<subseteq> A"
    using ans.add_refs [OF assms(4)] alloc_packet_refs [OF assms(1)] assms(3) by (auto simp: tx_refs_def)
qed

lemma create_announce_packet_builds:
  assumes "evolves w0 w" "set srvs \<subseteq> A"
  shows "builds w0 A (mdns_create_announce_packet w i j srvs ip)"
proof -
  let ?rs = "concat (map (announce_service \<circ> Some) srvs) @ (if ip then announce_ip else [])"
  have rs: "request_refs ?rs \<subseteq> A"
    using assms(2) announce_refs by auto
  show ?thesis
    using answer_packet_builds [OF _ assms(1) rs] evolves_alloc_packet [OF _ assms(1)]
    by (fastforce simp: mdns_create_announce_packet_def builds_def split: prod.splits option.splits)
qed

lemma announce_of_probe_refs: "request_refs (concat (map announce_of_probe as)) \<subseteq> answer_refs as"
  by (auto simp: announce_of_probe_def answer_refs_def announce_service_def split: if_splits)

lemma announce_from_probe_builds:
  assumes "evolves w0 w" "tx_refs p \<subseteq> A"
  shows "builds w0 A (mdns_create_announce_from_probe w p)"
proof -
  have rs: "request_refs (concat (map announce_of_probe (tx_servers p))) \<subseteq> A"
    using announce_of_probe_refs [of "tx_servers p"] assms(2) by (auto simp: tx_refs_parts)
  show ?thesis
    using answer_packet_builds [OF _ assms(1) rs] evolves_alloc_packet [OF _ assms(1)]
    by (fastforce simp: mdns_create_announce_from_probe_def builds_def split: prod.splits option.splits)
qed

lemma evolves_pcb_send_bye:
  assumes "mdns_pcb_send_bye w i j srvs ip = Some w'" "evolves w0 w"
  shows "evolves w0 w'"
proof -
  obtain pk w1 where al: "mdns_alloc_packet_default w i j = (pk, w1)"
    by (cases "mdns_alloc_packet_default w i j")
  have w1: "evolves w0 w1" by (rule evolves_alloc_packet [OF al assms(2)])
  show ?thesis
  proof (cases pk)
    case (Some p)
    obtain ok p1 w2 where a: "add_answers w1 (p\<lparr>tx_flags := MDNS_FLAGS_AUTHORITATIVE\<rparr>) (bye_answers srvs ip) = (ok, p1, w2)"
      by (metis prod_cases3)
    show ?thesis
      using assms(1) evolves_dispatch ans.add_evolves [OF a w1]
      by (auto simp: mdns_pcb_send_bye_def al Some a split: if_splits)
  qed (use assms(1) w1 in \<open>simp add: mdns_pcb_send_bye_def al\<close>)
qed

end
