(* ===== verification/Mdns_Pcb.thy ===== *)
theory Mdns_Pcb
  imports Mdns_Packets
begin

text \<open>
  The state machine that runs on every interface and IP version: probing, announcing, running.
  Modelled are \<^verbatim>\<open>_mdns_init_pcb_probe_new_service\<close>, \<^verbatim>\<open>_mdns_init_pcb_probe\<close>,
  \<^verbatim>\<open>_mdns_restart_pcb\<close>, \<^verbatim>\<open>_mdns_send_bye\<close>, \<^verbatim>\<open>_mdns_announce_pcb\<close>, \<^verbatim>\<open>_mdns_probe_all_pcbs\<close>,
  \<^verbatim>\<open>_mdns_announce_all_pcbs\<close>, the restart and goodbye helpers, \<^verbatim>\<open>_mdns_tx_handle_packet\<close>,
  \<^verbatim>\<open>_mdns_dup_interface\<close>, \<^verbatim>\<open>_mdns_enable_pcb\<close>, \<^verbatim>\<open>_mdns_disable_pcb\<close> and
  \<^verbatim>\<open>_mdns_handle_system_event\<close> of \<^verbatim>\<open>src/src/mdns.c\<close>, and the start and stop of a control block
  in \<^verbatim>\<open>src/src/mdns_networking.c\<close>.
\<close>

section \<open>Probing\<close>

text \<open>The array of services that the new probe is about. Copying the services already being probed
  into it is out of bounds unless there is exactly room for them.\<close>

definition new_probe_array :: "mdns_pcb_t \<Rightarrow> srv_ptr list \<Rightarrow> srv_ptr list option" where
  "new_probe_array pcb srvs =
     (let final_len = length srvs + (if PCB_STATE_IS_PROBING pcb then probe_services_len pcb else 0) in
      if probe_services pcb = None
      then if length srvs = final_len then Some srvs else None
      else do {
        old \<leftarrow> probe_list pcb;
        if length srvs + length old = final_len then Some (srvs @ old) else None
      })"

definition mdns_init_pcb_probe_new_service ::
  "mdns_world \<Rightarrow> tcpip_adapter_if_t \<Rightarrow> mdns_ip_protocol_t \<Rightarrow> srv_ptr list \<Rightarrow> bool \<Rightarrow> mdns_world option" where
  "mdns_init_pcb_probe_new_service w tcpip_if ip_protocol srvs ip =
     (let pcb = interfaces w tcpip_if ip_protocol;
          final_len = length srvs + (if PCB_STATE_IS_PROBING pcb then probe_services_len pcb else 0);
          (ok, w1) = (if final_len \<noteq> 0 then malloc w else (True, w))
      in if \<not> ok then Some w1
         else do {
           arr \<leftarrow> (if final_len \<noteq> 0 then new_probe_array pcb srvs else Some []);
           let ip1 = (probe_ip pcb \<or> ip);
           let pcb1 = pcb\<lparr>probe_ip := False, probe_services := None, probe_services_len := 0,
                          probe_running := False\<rparr>;
           let w2 = set_pcb w1 tcpip_if ip_protocol pcb1;
           (p, w3) \<leftarrow> mdns_create_probe_packet w2 tcpip_if ip_protocol arr True ip1;
           case p of
             None \<Rightarrow> Some w3
           | Some packet \<Rightarrow>
               let pcb2 = pcb1\<lparr>probe_ip := ip1,
                       probe_services := (if final_len \<noteq> 0 then Some arr else None),
                       probe_services_len := final_len mod 256, probe_running := True\<rparr>;
                   (rnd, w4) = esp_random (set_pcb w3 tcpip_if ip_protocol pcb2);
                   w5 = mdns_schedule_tx_packet w4 packet
                          ((if failed_probes pcb2 > 5 then 1000 else 120) + (rnd AND 0x7F))
               in Some (set_pcb w5 tcpip_if ip_protocol (pcb2\<lparr>pcb_state := PCB_PROBE_1\<rparr>))
         })"

definition mdns_init_pcb_probe ::
  "mdns_world \<Rightarrow> tcpip_adapter_if_t \<Rightarrow> mdns_ip_protocol_t \<Rightarrow> srv_ptr list \<Rightarrow> bool \<Rightarrow> mdns_world option" where
  "mdns_init_pcb_probe w tcpip_if ip_protocol srvs ip =
     (let w1 = mdns_clear_pcb_tx_queue_head w tcpip_if ip_protocol;
          pcb = interfaces w1 tcpip_if ip_protocol
      in if str_null_or_empty (hostname w1)
         then Some (set_pcb w1 tcpip_if ip_protocol (pcb\<lparr>pcb_state := PCB_RUNNING\<rparr>))
         else if PCB_STATE_IS_PROBING pcb then do {
           probed \<leftarrow> probe_list pcb;
           mdns_init_pcb_probe_new_service w1 tcpip_if ip_protocol
             (filter (\<lambda>s. \<not> List.member probed s) srvs) ip
         }
         else mdns_init_pcb_probe_new_service w1 tcpip_if ip_protocol srvs ip)"

definition mdns_restart_pcb ::
  "mdns_world \<Rightarrow> tcpip_adapter_if_t \<Rightarrow> mdns_ip_protocol_t \<Rightarrow> mdns_world option" where
  "mdns_restart_pcb w tcpip_if ip_protocol =
     mdns_init_pcb_probe w tcpip_if ip_protocol (services w) True"

section \<open>Loops over all control blocks\<close>

fun for_each_pcb ::
  "(mdns_world \<Rightarrow> tcpip_adapter_if_t \<Rightarrow> mdns_ip_protocol_t \<Rightarrow> mdns_world option) \<Rightarrow>
   (tcpip_adapter_if_t \<times> mdns_ip_protocol_t) list \<Rightarrow> mdns_world \<Rightarrow> mdns_world option" where
  "for_each_pcb f [] w = Some w"
| "for_each_pcb f ((i, j) # ps) w = do { w1 \<leftarrow> f w i j; for_each_pcb f ps w1 }"

definition mdns_send_bye :: "mdns_world \<Rightarrow> srv_ptr list \<Rightarrow> bool \<Rightarrow> mdns_world option" where
  "mdns_send_bye w srvs include_ip =
     (if str_null_or_empty (hostname w) then Some w
      else for_each_pcb (\<lambda>w i j.
        if pcb_pcb (interfaces w i j) \<and> pcb_state (interfaces w i j) = PCB_RUNNING
        then mdns_pcb_send_bye w i j srvs include_ip else Some w) all_pcbs w)"

text \<open>Adding announcements to a packet that is already queued: the loop stops at the first
  allocation failure.\<close>

fun announce_into :: "mdns_world \<Rightarrow> mdns_tx_packet_t \<Rightarrow> srv_ptr list \<Rightarrow> mdns_tx_packet_t \<times> mdns_world" where
  "announce_into w p [] = (p, w)"
| "announce_into w p (s # ss) =
     (case add_answers w p (announce_service (Some s)) of
        (True, p1, w1) \<Rightarrow> announce_into w1 p1 ss
      | (False, p1, w1) \<Rightarrow> (p1, w1))"

definition announce_ip_into :: "mdns_world \<Rightarrow> mdns_tx_packet_t \<Rightarrow> mdns_tx_packet_t \<times> mdns_world" where
  "announce_ip_into w p =
     (let p1 = p\<lparr>tx_additional := mdns_dealloc_answer (mdns_dealloc_answer (tx_additional p) MDNS_TYPE_A None)
                    MDNS_TYPE_AAAA None\<rparr>;
          (_, as1, w1) = mdns_alloc_answer w (tx_answers p1) MDNS_TYPE_A None True False;
          (_, as2, w2) = mdns_alloc_answer w1 as1 MDNS_TYPE_AAAA None True False
      in (p1\<lparr>tx_answers := as2\<rparr>, w2))"

fun update_first :: "('a \<Rightarrow> bool) \<Rightarrow> 'a \<Rightarrow> 'a list \<Rightarrow> 'a list" where
  "update_first P y [] = []"
| "update_first P y (x # xs) = (if P x then y # xs else x # update_first P y xs)"

definition mdns_announce_pcb ::
  "mdns_world \<Rightarrow> tcpip_adapter_if_t \<Rightarrow> mdns_ip_protocol_t \<Rightarrow> srv_ptr list \<Rightarrow> bool \<Rightarrow> mdns_world option" where
  "mdns_announce_pcb w tcpip_if ip_protocol srvs include_ip =
     (let pcb = interfaces w tcpip_if ip_protocol in
      if \<not> pcb_pcb pcb then Some w
      else if PCB_STATE_IS_PROBING pcb then mdns_init_pcb_probe w tcpip_if ip_protocol srvs include_ip
      else if PCB_STATE_IS_ANNOUNCING pcb then
        (case mdns_get_next_pcb_packet w tcpip_if ip_protocol of
           None \<Rightarrow> Some w
         | Some p \<Rightarrow>
             let (p1, w1) = announce_into w p srvs;
                 (p2, w2) = (if include_ip then announce_ip_into w1 p1 else (p1, w1));
                 w3 = w2\<lparr>tx_queue := update_first (tx_on tcpip_if ip_protocol) p2 (tx_queue w2)\<rparr>
             in Some (set_pcb w3 tcpip_if ip_protocol (pcb\<lparr>pcb_state := PCB_ANNOUNCE_1\<rparr>)))
      else if pcb_state pcb = PCB_RUNNING then
        if str_null_or_empty (hostname w) then Some w
        else
          let w1 = set_pcb w tcpip_if ip_protocol (pcb\<lparr>pcb_state := PCB_ANNOUNCE_1\<rparr>) in
          (case mdns_create_announce_packet w1 tcpip_if ip_protocol srvs include_ip of
             (None, w2) \<Rightarrow> Some w2
           | (Some p, w2) \<Rightarrow> Some (mdns_schedule_tx_packet w2 p 0))
      else Some w)"

definition mdns_probe_all_pcbs ::
  "mdns_world \<Rightarrow> srv_ptr list \<Rightarrow> bool \<Rightarrow> bool \<Rightarrow> mdns_world option" where
  "mdns_probe_all_pcbs w srvs ip clear_old_probe =
     for_each_pcb (\<lambda>w i j.
       if pcb_pcb (interfaces w i j)
       then mdns_init_pcb_probe
              (if clear_old_probe
               then set_pcb w i j ((interfaces w i j)\<lparr>probe_services := None, probe_services_len := 0,
                      probe_running := False\<rparr>)
               else w) i j srvs ip
       else Some w) all_pcbs w"

definition mdns_announce_all_pcbs :: "mdns_world \<Rightarrow> srv_ptr list \<Rightarrow> bool \<Rightarrow> mdns_world option" where
  "mdns_announce_all_pcbs w srvs include_ip =
     for_each_pcb (\<lambda>w i j. mdns_announce_pcb w i j srvs include_ip) all_pcbs w"

text \<open>The services without an instance name of their own.\<close>

fun services_no_instance :: "mdns_world \<Rightarrow> srv_ptr list \<Rightarrow> srv_ptr list option" where
  "services_no_instance w [] = Some []"
| "services_no_instance w (a # as) = do {
     s \<leftarrow> srv_heap w a;
     rest \<leftarrow> services_no_instance w as;
     Some (if s_instance s = None then a # rest else rest)
   }"

definition mdns_send_final_bye :: "mdns_world \<Rightarrow> bool \<Rightarrow> mdns_world option" where
  "mdns_send_final_bye w include_ip = do {
     srvs \<leftarrow> services_no_instance w (services w);
     if srvs = [] then Some w else mdns_send_bye w srvs include_ip
   }"

definition mdns_send_bye_all_pcbs_no_instance :: "mdns_world \<Rightarrow> mdns_world option" where
  "mdns_send_bye_all_pcbs_no_instance w = do {
     srvs \<leftarrow> services_no_instance w (services w);
     if srvs = [] then Some w else mdns_send_bye w srvs False
   }"

definition mdns_restart_all_pcbs_no_instance :: "mdns_world \<Rightarrow> mdns_world option" where
  "mdns_restart_all_pcbs_no_instance w = do {
     srvs \<leftarrow> services_no_instance w (services w);
     if srvs = [] then Some w else mdns_probe_all_pcbs w srvs False True
   }"

definition mdns_restart_all_pcbs :: "mdns_world \<Rightarrow> mdns_world option" where
  "mdns_restart_all_pcbs w =
     (let w1 = mdns_clear_tx_queue_head w in mdns_probe_all_pcbs w1 (services w1) True True)"

section \<open>Sending a scheduled packet\<close>

definition mdns_tx_handle_packet :: "mdns_world \<Rightarrow> mdns_tx_packet_t \<Rightarrow> mdns_world option" where
  "mdns_tx_handle_packet w p =
     (let i = tx_if p; j = tx_protocol p in
      if pcb_state (interfaces w i j) = PCB_OFF then Some w
      else do {
        w1 \<leftarrow> mdns_dispatch_tx_packet w p;
        let pcb = interfaces w1 i j;
        let advance = (\<lambda>w2 b. set_pcb w2 i j (b\<lparr>pcb_state := pcb_next_state (pcb_state b)\<rparr>));
        Some (case pcb_state pcb of
            PCB_PROBE_1 \<Rightarrow>
              advance (mdns_schedule_tx_packet w1
                (p\<lparr>tx_questions := map (\<lambda>q. q\<lparr>oq_unicast := False\<rparr>) (tx_questions p)\<rparr>) 250) pcb
          | PCB_PROBE_2 \<Rightarrow> advance (mdns_schedule_tx_packet w1 p 250) pcb
          | PCB_PROBE_3 \<Rightarrow>
              (case mdns_create_announce_from_probe w1 p of
                 (None, w2) \<Rightarrow> mdns_schedule_tx_packet w2 p 250
               | (Some a, w2) \<Rightarrow>
                   advance (mdns_schedule_tx_packet w2 a 250)
                     (pcb\<lparr>probe_running := False, probe_ip := False, probe_services_len := 0,
                          failed_probes := 0, probe_services := None\<rparr>))
          | PCB_ANNOUNCE_1 \<Rightarrow> advance (mdns_schedule_tx_packet w1 p 1000) pcb
          | PCB_ANNOUNCE_2 \<Rightarrow> advance (mdns_schedule_tx_packet w1 p 1000) pcb
          | PCB_ANNOUNCE_3 \<Rightarrow> set_pcb w1 i j (pcb\<lparr>pcb_state := PCB_RUNNING\<rparr>)
          | _ \<Rightarrow> w1)
      })"

section \<open>Starting and stopping a control block\<close>

text \<open>The multicast membership and the shared UDP control block of
  \<^verbatim>\<open>src/src/mdns_networking.c\<close>.\<close>

definition udp_join_group :: "mdns_world \<Rightarrow> tcpip_adapter_if_t \<Rightarrow> mdns_ip_protocol_t \<Rightarrow> esp_err_t" where
  "udp_join_group w tcpip_if ip_protocol =
     (if \<not> netif_up w tcpip_if then ESP_ERR_INVALID_STATE
      else if netif_error w tcpip_if then ESP_ERR_INVALID_ARG
      else if join_fails w tcpip_if ip_protocol then ESP_ERR_INVALID_STATE
      else ESP_OK)"

definition udp_pcb_main_init :: "mdns_world \<Rightarrow> esp_err_t \<times> mdns_world" where
  "udp_pcb_main_init w =
     (if pcb_main w then (ESP_OK, w)
      else let (ok, w1) = malloc w in
        if \<not> ok then (ESP_ERR_NO_MEM, w1)
        else if udp_bind_fails w1 then (ESP_ERR_INVALID_STATE, w1)
        else (ESP_OK, w1\<lparr>pcb_main := True\<rparr>))"

definition udp_pcb_is_in_use :: "mdns_world \<Rightarrow> bool" where
  "udp_pcb_is_in_use w = list_ex (\<lambda>(i, j). pcb_pcb (interfaces w i j)) all_pcbs"

definition mdns_pcb_init ::
  "mdns_world \<Rightarrow> tcpip_adapter_if_t \<Rightarrow> mdns_ip_protocol_t \<Rightarrow> esp_err_t \<times> mdns_world" where
  "mdns_pcb_init w tcpip_if ip_protocol =
     (let pcb = interfaces w tcpip_if ip_protocol in
      if pcb_pcb pcb then (ESP_ERR_INVALID_STATE, w)
      else let err = udp_join_group w tcpip_if ip_protocol in
        if err \<noteq> ESP_OK then (err, w)
        else let (err2, w1) = udp_pcb_main_init w in
          if err2 \<noteq> ESP_OK then (err2, w1)
          else (ESP_OK, set_pcb w1 tcpip_if ip_protocol (pcb\<lparr>pcb_pcb := True, failed_probes := 0\<rparr>)))"

definition mdns_pcb_deinit :: "mdns_world \<Rightarrow> tcpip_adapter_if_t \<Rightarrow> mdns_ip_protocol_t \<Rightarrow> mdns_world" where
  "mdns_pcb_deinit w tcpip_if ip_protocol =
     (if pcb_pcb (interfaces w tcpip_if ip_protocol)
      then let w1 = set_pcb w tcpip_if ip_protocol pcb_zero in
        if \<not> udp_pcb_is_in_use w1 then w1\<lparr>pcb_main := False\<rparr> else w1
      else w)"

definition mdns_enable_pcb ::
  "mdns_world \<Rightarrow> tcpip_adapter_if_t \<Rightarrow> mdns_ip_protocol_t \<Rightarrow> mdns_world option" where
  "mdns_enable_pcb w tcpip_if ip_protocol =
     (let (err, w1) = (if \<not> pcb_pcb (interfaces w tcpip_if ip_protocol)
                       then mdns_pcb_init w tcpip_if ip_protocol else (ESP_OK, w))
      in if err \<noteq> ESP_OK then Some w1 else mdns_restart_pcb w1 tcpip_if ip_protocol)"

definition mdns_disable_pcb ::
  "mdns_world \<Rightarrow> tcpip_adapter_if_t \<Rightarrow> mdns_ip_protocol_t \<Rightarrow> mdns_world option" where
  "mdns_disable_pcb w tcpip_if ip_protocol = do {
     w1 \<leftarrow> (if pcb_pcb (interfaces w tcpip_if ip_protocol)
       then let w2 = mdns_pcb_deinit (mdns_clear_pcb_tx_queue_head w tcpip_if ip_protocol)
                       tcpip_if ip_protocol;
                other_if = mdns_get_other_if tcpip_if
            in if other_if \<noteq> TCPIP_ADAPTER_IF_MAX \<and>
                  pcb_state (interfaces w2 other_if ip_protocol) = PCB_DUP
               then mdns_enable_pcb (set_pcb w2 other_if ip_protocol
                      ((interfaces w2 other_if ip_protocol)\<lparr>pcb_state := PCB_OFF\<rparr>)) other_if ip_protocol
               else Some w2
       else Some w);
     Some (set_pcb w1 tcpip_if ip_protocol ((interfaces w1 tcpip_if ip_protocol)\<lparr>pcb_state := PCB_OFF\<rparr>))
   }"

text \<open>Indexing with \<open>TCPIP_ADAPTER_IF_MAX\<close> would be out of bounds.\<close>

definition mdns_dup_interface :: "mdns_world \<Rightarrow> tcpip_adapter_if_t \<Rightarrow> mdns_world option" where
  "mdns_dup_interface w tcpip_if =
     (let other_if = mdns_get_other_if tcpip_if in
      if other_if = TCPIP_ADAPTER_IF_MAX then None
      else for_each_pcb (\<lambda>w i j.
        if pcb_pcb (interfaces w other_if j) then
          let w1 = (if pcb_pcb (interfaces w i j)
                    then mdns_pcb_deinit (mdns_clear_pcb_tx_queue_head w i j) i j else w);
              w2 = set_pcb w1 i j ((interfaces w1 i j)\<lparr>pcb_state := PCB_DUP\<rparr>)
          in mdns_announce_pcb w2 other_if j [] True
        else Some w) (map (Pair tcpip_if) all_protocols) w)"

definition mdns_handle_system_event :: "mdns_world \<Rightarrow> esp_event \<Rightarrow> mdns_world option" where
  "mdns_handle_system_event w event =
     (case event of
        WIFI_EVENT_STA_CONNECTED \<Rightarrow>
          if dhcpc_stopped w then mdns_enable_pcb w TCPIP_ADAPTER_IF_STA MDNS_IP_PROTOCOL_V4 else Some w
      | WIFI_EVENT_STA_DISCONNECTED \<Rightarrow> do {
          w1 \<leftarrow> mdns_disable_pcb w TCPIP_ADAPTER_IF_STA MDNS_IP_PROTOCOL_V4;
          mdns_disable_pcb w1 TCPIP_ADAPTER_IF_STA MDNS_IP_PROTOCOL_V6
        }
      | WIFI_EVENT_AP_START \<Rightarrow> mdns_enable_pcb w TCPIP_ADAPTER_IF_AP MDNS_IP_PROTOCOL_V4
      | WIFI_EVENT_AP_STOP \<Rightarrow> do {
          w1 \<leftarrow> mdns_disable_pcb w TCPIP_ADAPTER_IF_AP MDNS_IP_PROTOCOL_V4;
          mdns_disable_pcb w1 TCPIP_ADAPTER_IF_AP MDNS_IP_PROTOCOL_V6
        }
      | IP_EVENT_STA_GOT_IP \<Rightarrow> do {
          w1 \<leftarrow> mdns_enable_pcb w TCPIP_ADAPTER_IF_STA MDNS_IP_PROTOCOL_V4;
          mdns_announce_pcb w1 TCPIP_ADAPTER_IF_STA MDNS_IP_PROTOCOL_V6 [] True
        }
      | IP_EVENT_GOT_IP6 interface \<Rightarrow> do {
          w1 \<leftarrow> mdns_enable_pcb w interface MDNS_IP_PROTOCOL_V6;
          mdns_announce_pcb w1 interface MDNS_IP_PROTOCOL_V4 [] True
        }
      | EVENT_OTHER \<Rightarrow> Some w)"

section \<open>What the operations on control blocks keep\<close>

lemma evolves_buf: "(length (tx_buffer w) = MDNS_MAX_PACKET_SIZE \<Longrightarrow> evolves w w') \<Longrightarrow> evolves w w'"
  by (auto simp: evolves_def)

text \<open>A step that relies on existing services.\<close>

lemma evolves_step:
  assumes "evolves w0 w" "A \<subseteq> dom (srv_heap w0)" "A \<subseteq> dom (srv_heap w) \<Longrightarrow> evolves w w'"
  shows "evolves w0 w'"
proof (rule evolves_buf)
  assume "length (tx_buffer w0) = MDNS_MAX_PACKET_SIZE"
  with assms(1) have "srv_names w = srv_names w0" by (simp add: evolves_def)
  then have "A \<subseteq> dom (srv_heap w)"
    using assms(2) by (simp add: dom_srv_names [symmetric])
  then show ?thesis using evolves_trans [OF assms(1) assms(3)] by blast
qed

locale pcb_op =
  fixes f :: "mdns_world \<Rightarrow> tcpip_adapter_if_t \<Rightarrow> mdns_ip_protocol_t \<Rightarrow> mdns_world option"
    and A :: "srv_ptr set"
  assumes op_evolves: "A \<subseteq> dom (srv_heap w) \<Longrightarrow> f w i j = Some w' \<Longrightarrow> evolves w w'"
begin

lemma each_evolves: "A \<subseteq> dom (srv_heap w) \<Longrightarrow> for_each_pcb f ps w = Some w' \<Longrightarrow> evolves w w'"
proof (induction ps arbitrary: w)
  case (Cons p ps)
  obtain i j where p: "p = (i, j)" by (cases p)
  from Cons.prems(2) obtain w1 where w1: "f w i j = Some w1" "for_each_pcb f ps w1 = Some w'"
    by (auto simp: p split: bind_splits)
  show ?case
    by (rule evolves_step [OF op_evolves [OF Cons.prems(1) w1(1)] Cons.prems(1)]) (rule Cons.IH [OF _ w1(2)])
qed simp

end

text \<open>The control block while its new probe is being built, and with the probe.\<close>

definition pcb_no_probe :: "mdns_pcb_t \<Rightarrow> mdns_pcb_t" where
  "pcb_no_probe pcb = pcb\<lparr>probe_ip := False, probe_services := None, probe_services_len := 0, probe_running := False\<rparr>"

definition pcb_new_probe :: "mdns_pcb_t \<Rightarrow> bool \<Rightarrow> srv_ptr list \<Rightarrow> mdns_pcb_t" where
  "pcb_new_probe pcb ip arr = pcb\<lparr>probe_ip := ip, probe_services := (if arr \<noteq> [] then Some arr else None),
     probe_services_len := length arr mod 256, probe_running := True\<rparr>"

lemma length_new_probe_array:
  "new_probe_array pcb srvs = Some arr \<Longrightarrow>
   length arr = length srvs + (if PCB_STATE_IS_PROBING pcb then probe_services_len pcb else 0)"
  by (auto simp: new_probe_array_def Let_def split: if_splits bind_splits)

lemma probe_new_serviceE:
  assumes "mdns_init_pcb_probe_new_service w i j srvs ip = Some w'"
  obtains (no_memory) "malloc w = (False, w')"
    | (no_packet) arr w1 where "w1 = w \<or> malloc w = (True, w1)"
        "mdns_create_probe_packet (set_pcb w1 i j (pcb_no_probe (interfaces w i j))) i j arr True
           (probe_ip (interfaces w i j) \<or> ip) = Some (None, w')"
    | (probe) arr w1 p w3 r w4 d where "w1 = w \<or> malloc w = (True, w1)"
        "arr = [] \<or> new_probe_array (interfaces w i j) srvs = Some arr"
        "length arr = length srvs +
           (if PCB_STATE_IS_PROBING (interfaces w i j) then probe_services_len (interfaces w i j) else 0)"
        "mdns_create_probe_packet (set_pcb w1 i j (pcb_no_probe (interfaces w i j))) i j arr True
           (probe_ip (interfaces w i j) \<or> ip) = Some (Some p, w3)"
        "esp_random (set_pcb w3 i j (pcb_new_probe (interfaces w i j) (probe_ip (interfaces w i j) \<or> ip) arr)) = (r, w4)"
        "w' = set_pcb (mdns_schedule_tx_packet w4 p d) i j
           ((pcb_new_probe (interfaces w i j) (probe_ip (interfaces w i j) \<or> ip) arr)\<lparr>pcb_state := PCB_PROBE_1\<rparr>)"
proof -
  define pcb where "pcb = interfaces w i j"
  define n where "n = length srvs + (if PCB_STATE_IS_PROBING pcb then probe_services_len pcb else 0)"
  obtain ok w1 where m: "(if n \<noteq> 0 then malloc w else (True, w)) = (ok, w1)"
    by (metis surj_pair)
  note run = assms [unfolded mdns_init_pcb_probe_new_service_def Let_def, folded pcb_def, folded n_def, unfolded m prod.case]
  show thesis
  proof (cases ok)
    case False
    with run m no_memory show thesis by (auto split: if_splits)
  next
    case True
    with m have w1: "w1 = w \<or> malloc w = (True, w1)" by (auto split: if_splits)
    from run [unfolded eqTrueI [OF True] not_True_eq_False if_False] obtain arr p w3 where
      arr: "(if n \<noteq> 0 then new_probe_array pcb srvs else Some []) = Some arr" and
      c: "mdns_create_probe_packet (set_pcb w1 i j (pcb_no_probe pcb)) i j arr True (probe_ip pcb \<or> ip) = Some (p, w3)" and
      rest: "(case p of None \<Rightarrow> Some w3 | Some packet \<Rightarrow>
         (case esp_random (set_pcb w3 i j ((pcb_no_probe pcb)\<lparr>probe_ip := probe_ip pcb \<or> ip,
            probe_services := (if n \<noteq> 0 then Some arr else None), probe_services_len := n mod 256, probe_running := True\<rparr>)) of
           (rnd, w4) \<Rightarrow> Some (set_pcb (mdns_schedule_tx_packet w4 packet
              ((if failed_probes ((pcb_no_probe pcb)\<lparr>probe_ip := probe_ip pcb \<or> ip,
            probe_services := (if n \<noteq> 0 then Some arr else None), probe_services_len := n mod 256, probe_running := True\<rparr>) > 5 then 1000 else 120) + (rnd AND 0x7F))) i j
              ((pcb_no_probe pcb)\<lparr>probe_ip := probe_ip pcb \<or> ip,
            probe_services := (if n \<noteq> 0 then Some arr else None), probe_services_len := n mod 256, probe_running := True, pcb_state := PCB_PROBE_1\<rparr>)))) = Some w'"
      unfolding pcb_no_probe_def by (elim bind_SomeE prod_SomeE) auto
    have n: "length arr = n" "arr = [] \<or> new_probe_array pcb srvs = Some arr"
      using arr length_new_probe_array [of pcb srvs arr] by (auto simp: n_def split: if_splits)
    have new: "(pcb_no_probe pcb)\<lparr>probe_ip := x, probe_services := (if n \<noteq> 0 then Some arr else None),
        probe_services_len := n mod 256, probe_running := True\<rparr> = pcb_new_probe pcb x arr" for x
      using n(1) by (auto simp: pcb_no_probe_def pcb_new_probe_def)
    show thesis
    proof (cases p)
      case None
      with rest c w1 no_packet show thesis by (simp add: pcb_def)
    next
      case (Some packet)
      obtain r w4 where r: "esp_random (set_pcb w3 i j (pcb_new_probe pcb (probe_ip pcb \<or> ip) arr)) = (r, w4)"
        by (metis surj_pair)
      note w' = rest [unfolded Some option.case new r prod.case option.inject, symmetric]
      show thesis
        by (rule probe [OF w1 _ _ c [unfolded Some pcb_def] r [unfolded pcb_def] w' [unfolded pcb_def]])
          (use n in \<open>simp_all add: pcb_def n_def\<close>)
    qed
  qed
qed

lemma evolves_probe_new_service:
  assumes "mdns_init_pcb_probe_new_service w i j srvs ip = Some w'"
  shows "evolves w w'"
  using assms
proof (cases rule: probe_new_serviceE)
  case no_memory
  then show ?thesis using evolves_malloc evolves_refl by blast
next
  case (no_packet arr w1)
  then have "evolves w w1" "srv_heap w1 = srv_heap w" using evolves_malloc evolves_refl by auto
  with create_probe_packet_builds [OF no_packet(2), of w UNIV] show ?thesis
    by (simp add: builds_def)
next
  case (probe arr w1 p w3 r w4 d)
  then have "evolves w w1" "srv_heap w1 = srv_heap w" using evolves_malloc evolves_refl by auto
  then have b: "builds w (live_refs w) (Some p, w3)"
    by (intro create_probe_packet_builds [OF probe(4)]) (auto simp: dom_srv_names)
  have "evolves w w4"
    using evolves_random [OF probe(5)] buildsD(1) [OF b] by simp
  then show ?thesis
    using buildsD(2) [OF b] by (simp add: probe(6) evolves_schedule)
qed

lemma evolves_init_pcb_probe:
  assumes "mdns_init_pcb_probe w i j srvs ip = Some w'" "evolves w0 w"
  shows "evolves w0 w'"
proof -
  have w1: "evolves w0 (mdns_clear_pcb_tx_queue_head w i j)"
    by (rule evolves_clear_pcb [OF assms(2)])
  show ?thesis
    using assms(1) evolves_trans [OF w1 evolves_probe_new_service] w1
    by (auto simp: mdns_init_pcb_probe_def Let_def split: if_splits bind_splits)
qed

lemma evolves_restart_pcb: "mdns_restart_pcb w i j = Some w' \<Longrightarrow> evolves w0 w \<Longrightarrow> evolves w0 w'"
  unfolding mdns_restart_pcb_def by (rule evolves_init_pcb_probe)

interpretation bye_op: pcb_op "\<lambda>w i j. if pcb_pcb (interfaces w i j) \<and> pcb_state (interfaces w i j) = PCB_RUNNING
    then mdns_pcb_send_bye w i j srvs ip else Some w" "{}" for srvs ip
  by unfold_locales (auto split: if_splits elim!: evolves_pcb_send_bye)

lemma evolves_send_bye: "mdns_send_bye w srvs ip = Some w' \<Longrightarrow> evolves w0 w \<Longrightarrow> evolves w0 w'"
  by (erule evolves_trans) (auto simp: mdns_send_bye_def split: if_splits dest: bye_op.each_evolves [rotated])

interpretation probe_op: pcb_op "\<lambda>w i j. if pcb_pcb (interfaces w i j)
    then mdns_init_pcb_probe (if clear
       then set_pcb w i j ((interfaces w i j)\<lparr>probe_services := None, probe_services_len := 0, probe_running := False\<rparr>)
       else w) i j srvs ip
    else Some w" "{}" for clear srvs ip
  by unfold_locales (auto split: if_splits elim!: evolves_init_pcb_probe)

lemma evolves_probe_all: "mdns_probe_all_pcbs w srvs ip clear = Some w' \<Longrightarrow> evolves w0 w \<Longrightarrow> evolves w0 w'"
  by (erule evolves_trans) (auto simp: mdns_probe_all_pcbs_def dest: probe_op.each_evolves [rotated])

lemma alloc_answer_queue: "mdns_alloc_answer w d t s f b = (ok, d1, w1) \<Longrightarrow> tx_queue w1 = tx_queue w"
  by (auto simp: mdns_alloc_answer_def malloc_def split: prod.splits if_splits list.splits)

lemma alloc_answers_queue: "alloc_answers w d rs = (ok, d1, w1) \<Longrightarrow> tx_queue w1 = tx_queue w"
  by (induction w d rs rule: alloc_answers.induct)
    (auto split: prod.splits bool.splits dest: alloc_answer_queue)

lemma announce_into_Some:
  assumes "announce_into w p srvs = (p1, w1)" "evolves w0 w"
  shows "evolves w0 w1 \<and> tx_refs p1 \<subseteq> tx_refs p \<union> set srvs \<and> tx_send_at p1 = tx_send_at p \<and>
    tx_queue w1 = tx_queue w"
  using assms
proof (induction srvs arbitrary: w p)
  case (Cons s srvs)
  obtain ok p2 w2 where a: "add_answers w p (announce_service (Some s)) = (ok, p2, w2)"
    by (metis prod_cases3)
  have p2: "tx_send_at p2 = tx_send_at p" "tx_queue w2 = tx_queue w"
    using a by (auto simp: add_answers_def split: prod.splits dest: alloc_answers_queue)
  note e = ans.add_evolves [OF a Cons.prems(2)] and r = ans.add_refs [OF a, unfolded announce_refs]
  show ?case
  proof (cases ok)
    case True
    with Cons.prems(1) a have "announce_into w2 p2 srvs = (p1, w1)" by simp
    from Cons.IH [OF this e] r p2 show ?thesis by auto
  next
    case False
    with Cons.prems(1) a e r p2 show ?thesis by auto
  qed
qed simp

lemma announce_ip_into_Some:
  assumes "announce_ip_into w p = (p1, w1)" "evolves w0 w"
  shows "evolves w0 w1 \<and> tx_refs p1 \<subseteq> tx_refs p \<and> tx_send_at p1 = tx_send_at p \<and>
    tx_queue w1 = tx_queue w"
proof -
  let ?ad = "mdns_dealloc_answer (mdns_dealloc_answer (tx_additional p) MDNS_TYPE_A None) MDNS_TYPE_AAAA None"
  obtain ok1 as1 w2 where a1: "mdns_alloc_answer w (tx_answers p) MDNS_TYPE_A None True False = (ok1, as1, w2)"
    by (metis prod_cases3)
  obtain ok2 as2 w3 where a2: "mdns_alloc_answer w2 as1 MDNS_TYPE_AAAA None True False = (ok2, as2, w3)"
    by (metis prod_cases3)
  have r: "p1 = p\<lparr>tx_additional := ?ad, tx_answers := as2\<rparr>" "w1 = w3"
    using assms(1) by (auto simp: announce_ip_into_def a1 a2)
  have "answer_refs ?ad \<subseteq> answer_refs (tx_additional p)"
    using answer_refs_dealloc by (meson subset_trans)
  moreover have "answer_refs as2 \<subseteq> answer_refs (tx_answers p)"
    using alloc_answer_refs [OF a1] alloc_answer_refs [OF a2] by auto
  ultimately show ?thesis
    using evolves_alloc_answer [OF a2 evolves_alloc_answer [OF a1 assms(2)]]
      alloc_answer_queue [OF a1] alloc_answer_queue [OF a2] by (auto simp: r tx_refs_parts)
qed

lemma update_first_sorted:
  "find P qs = Some q \<Longrightarrow> tx_send_at p = tx_send_at q \<Longrightarrow> map tx_send_at (update_first P p qs) = map tx_send_at qs"
  by (induction qs) (auto split: if_splits)

lemma update_first_refs:
  "\<Union> (tx_refs ` set (update_first P p qs)) \<subseteq> tx_refs p \<union> \<Union> (tx_refs ` set qs)"
  by (induction qs) auto

lemma announce_pcbE:
  assumes "mdns_announce_pcb w i j srvs ip = Some w'"
  obtains (same) "w' = w"
    | (probe) "pcb_pcb (interfaces w i j)" "PCB_STATE_IS_PROBING (interfaces w i j)"
        "mdns_init_pcb_probe w i j srvs ip = Some w'"
    | (more) p p1 w1 p2 w2 where "\<not> PCB_STATE_IS_PROBING (interfaces w i j)"
        "mdns_get_next_pcb_packet w i j = Some p" "announce_into w p srvs = (p1, w1)"
        "(if ip then announce_ip_into w1 p1 else (p1, w1)) = (p2, w2)"
        "w' = set_pcb (w2\<lparr>tx_queue := update_first (tx_on i j) p2 (tx_queue w2)\<rparr>) i j
           ((interfaces w i j)\<lparr>pcb_state := PCB_ANNOUNCE_1\<rparr>)"
    | (fresh) p w2 where "pcb_state (interfaces w i j) = PCB_RUNNING"
        "mdns_create_announce_packet (set_pcb w i j ((interfaces w i j)\<lparr>pcb_state := PCB_ANNOUNCE_1\<rparr>)) i j srvs ip = (p, w2)"
        "w' = (case p of None \<Rightarrow> w2 | Some q \<Rightarrow> mdns_schedule_tx_packet w2 q 0)"
proof -
  let ?pcb = "interfaces w i j"
  note run = assms [unfolded mdns_announce_pcb_def Let_def]
  consider "\<not> pcb_pcb ?pcb" | "pcb_pcb ?pcb" "PCB_STATE_IS_PROBING ?pcb"
    | "pcb_pcb ?pcb" "\<not> PCB_STATE_IS_PROBING ?pcb" "PCB_STATE_IS_ANNOUNCING ?pcb"
    | "pcb_pcb ?pcb" "\<not> PCB_STATE_IS_PROBING ?pcb" "\<not> PCB_STATE_IS_ANNOUNCING ?pcb" by blast
  then show thesis
  proof cases
    case 1
    with run same show thesis by simp
  next
    case 2
    with run probe show thesis by simp
  next
    case 3
    show thesis
    proof (cases "mdns_get_next_pcb_packet w i j")
      case None
      with 3 run same show thesis by simp
    next
      case (Some p)
      obtain p1 w1 where a: "announce_into w p srvs = (p1, w1)" by (metis surj_pair)
      obtain p2 w2 where b: "(if ip then announce_ip_into w1 p1 else (p1, w1)) = (p2, w2)" by (metis surj_pair)
      show thesis
        using more [OF 3(2) Some a b] run 3 by (simp add: Some a b)
    qed
  next
    case 4
    obtain p w2 where c: "mdns_create_announce_packet (set_pcb w i j (?pcb\<lparr>pcb_state := PCB_ANNOUNCE_1\<rparr>)) i j srvs ip = (p, w2)"
      by (metis surj_pair)
    show thesis
      using run 4 same fresh [OF _ c] by (auto simp: c split: if_splits option.splits)
  qed
qed

lemma evolves_announce_pcb:
  assumes "mdns_announce_pcb w i j srvs ip = Some w'" "evolves w0 w" "set srvs \<subseteq> dom (srv_names w0)"
  shows "evolves w0 w'"
  using assms(1)
proof (cases rule: announce_pcbE)
  case same
  with assms(2) show ?thesis by simp
next
  case probe
  then show ?thesis using assms(2) by (metis evolves_init_pcb_probe)
next
  case (more p p1 w1 p2 w2)
  have q: "find (tx_on i j) (tx_queue w) = Some p"
    using more(2) by (simp add: mdns_get_next_pcb_packet_def)
  note a = announce_into_Some [OF more(3) assms(2)]
  have b: "evolves w0 w2 \<and> tx_refs p2 \<subseteq> tx_refs p1 \<and> tx_send_at p2 = tx_send_at p1 \<and> tx_queue w2 = tx_queue w1"
    using more(4) announce_ip_into_Some [of w1 p1 p2 w2 w0] a by (auto split: if_splits)
  have "p \<in> set (tx_queue w)" using q by (auto simp: find_Some_iff)
  then have "tx_refs p2 \<subseteq> queue_refs w \<union> set srvs"
    using a b by (auto simp: queue_refs_def)
  then have "\<Union> (tx_refs ` set (update_first (tx_on i j) p2 (tx_queue w2))) \<subseteq> queue_refs w2 \<union> live_refs w0"
    using update_first_refs [of "tx_on i j" p2 "tx_queue w2"] a b assms(3) by (auto simp: queue_refs_def)
  then show ?thesis
    using a b update_first_sorted [OF q, of p2] by (auto simp: more(5) intro!: evolves_queue)
next
  case (fresh p w2)
  have b: "builds w0 (live_refs w0) (p, w2)"
    using create_announce_packet_builds [of w0 "set_pcb w i j ((interfaces w i j)\<lparr>pcb_state := PCB_ANNOUNCE_1\<rparr>)" srvs "live_refs w0" i j ip] assms(2,3)
    by (auto simp: fresh(2))
  then show ?thesis
    using evolves_schedule [OF buildsD(1) [OF b]] by (cases p) (auto simp: fresh(3) builds_def)
qed

interpretation announce_op: pcb_op "\<lambda>w i j. mdns_announce_pcb w i j srvs ip" "set srvs" for srvs ip
  by unfold_locales (erule evolves_announce_pcb, simp_all add: dom_srv_names)

lemma evolves_announce_all:
  assumes "mdns_announce_all_pcbs w srvs ip = Some w'" "evolves w0 w" "set srvs \<subseteq> dom (srv_heap w0)"
  shows "evolves w0 w'"
  by (rule evolves_step [OF assms(2,3)])
    (rule announce_op.each_evolves [OF _ assms(1) [unfolded mdns_announce_all_pcbs_def]])

lemma evolves_final_bye: "mdns_send_final_bye w ip = Some w' \<Longrightarrow> evolves w0 w \<Longrightarrow> evolves w0 w'"
  by (auto simp: mdns_send_final_bye_def split: bind_splits if_splits elim: evolves_send_bye)

lemma evolves_bye_no_instance:
  "mdns_send_bye_all_pcbs_no_instance w = Some w' \<Longrightarrow> evolves w0 w \<Longrightarrow> evolves w0 w'"
  by (auto simp: mdns_send_bye_all_pcbs_no_instance_def split: bind_splits if_splits elim: evolves_send_bye)

lemma evolves_restart_no_instance:
  "mdns_restart_all_pcbs_no_instance w = Some w' \<Longrightarrow> evolves w0 w \<Longrightarrow> evolves w0 w'"
  by (auto simp: mdns_restart_all_pcbs_no_instance_def split: bind_splits if_splits elim: evolves_probe_all)

lemma evolves_restart_all: "mdns_restart_all_pcbs w = Some w' \<Longrightarrow> evolves w0 w \<Longrightarrow> evolves w0 w'"
  by (auto simp: mdns_restart_all_pcbs_def Let_def evolves_clear_queue elim: evolves_probe_all)

section \<open>Sending, starting and stopping\<close>

text \<open>The cases of \<^verbatim>\<open>_mdns_tx_handle_packet\<close>: nothing on a control block that is off; otherwise
  the packet is sent and the control block moves on.\<close>

lemma evolves_tx_handle:
  assumes "mdns_tx_handle_packet w p = Some w'" "evolves w0 w" "tx_refs p \<subseteq> live_refs w0"
  shows "evolves w0 w'"
proof (cases "pcb_state (interfaces w (tx_if p) (tx_protocol p)) = PCB_OFF")
  case True
  with assms(1,2) show ?thesis by (simp add: mdns_tx_handle_packet_def Let_def)
next
  case False
  with assms(1) obtain w1 where w1: "mdns_dispatch_tx_packet w p = Some w1"
    by (auto simp: mdns_tx_handle_packet_def Let_def split: bind_splits)
  have e: "evolves w0 w1" by (rule evolves_dispatch [OF w1 assms(2)])
  have s: "evolves w0 (mdns_schedule_tx_packet w1 p d)"
    "evolves w0 (mdns_schedule_tx_packet w1 (p\<lparr>tx_questions := qs\<rparr>) d)" for d qs
    using assms(3) e by (auto simp: tx_refs_def intro!: evolves_schedule)
  obtain r w2 where a: "mdns_create_announce_from_probe w1 p = (r, w2)" by (metis surj_pair)
  have b: "builds w0 (live_refs w0) (r, w2)"
    using announce_from_probe_builds [OF e assms(3)] by (simp add: a)
  have "evolves w0 (mdns_schedule_tx_packet w2 p d)" "r = Some q \<Longrightarrow> evolves w0 (mdns_schedule_tx_packet w2 q d)" for q d
    using b assms(3) by (auto simp: builds_def intro!: evolves_schedule)
  with assms(1) False w1 e s a show ?thesis
    by (auto simp: mdns_tx_handle_packet_def Let_def split: mdns_pcb_state_t.splits option.splits)
qed

lemma evolves_pcb_init: "mdns_pcb_init w i j = (err, w') \<Longrightarrow> evolves w0 w \<Longrightarrow> evolves w0 w'"
  by (auto simp: mdns_pcb_init_def udp_pcb_main_init_def Let_def split: if_splits prod.splits dest: evolves_malloc)

lemma evolves_pcb_deinit [simp]: "evolves w0 w \<Longrightarrow> evolves w0 (mdns_pcb_deinit w i j)"
  by (simp add: mdns_pcb_deinit_def Let_def)

lemma evolves_enable:
  assumes "mdns_enable_pcb w i j = Some w'" "evolves w0 w"
  shows "evolves w0 w'"
proof -
  obtain err w1 where a: "(if \<not> pcb_pcb (interfaces w i j) then mdns_pcb_init w i j else (ESP_OK, w)) = (err, w1)"
    by (metis surj_pair)
  have "evolves w0 w1"
    using a assms(2) evolves_pcb_init by (auto split: if_splits)
  then show ?thesis
    using assms(1) evolves_restart_pcb [of w1 i j w' w0] unfolding mdns_enable_pcb_def a
    by (auto split: if_splits)
qed

lemma evolves_disable:
  assumes "mdns_disable_pcb w i j = Some w'" "evolves w0 w"
  shows "evolves w0 w'"
proof -
  have "evolves w0 (mdns_pcb_deinit (mdns_clear_pcb_tx_queue_head w i j) i j)"
    by (simp add: evolves_clear_pcb assms(2))
  then show ?thesis
    using assms by (auto simp: mdns_disable_pcb_def Let_def split: if_splits bind_splits elim!: evolves_enable)
qed

lemma evolves_dup_step:
  assumes "(if pcb_pcb (interfaces w k j) then
      let w1 = (if pcb_pcb (interfaces w i j) then mdns_pcb_deinit (mdns_clear_pcb_tx_queue_head w i j) i j else w);
          w2 = set_pcb w1 i j ((interfaces w1 i j)\<lparr>pcb_state := PCB_DUP\<rparr>)
      in mdns_announce_pcb w2 k j [] True else Some w) = Some w'"
  shows "evolves w w'"
  using assms by (auto simp: Let_def evolves_clear_pcb split: if_splits elim!: evolves_announce_pcb)

interpretation dup_op: pcb_op "\<lambda>w i j. if pcb_pcb (interfaces w k j) then
      let w1 = (if pcb_pcb (interfaces w i j) then mdns_pcb_deinit (mdns_clear_pcb_tx_queue_head w i j) i j else w);
          w2 = set_pcb w1 i j ((interfaces w1 i j)\<lparr>pcb_state := PCB_DUP\<rparr>)
      in mdns_announce_pcb w2 k j [] True else Some w" "{}" for k
  by unfold_locales (rule evolves_dup_step)

lemma evolves_dup_interface: "mdns_dup_interface w i = Some w' \<Longrightarrow> evolves w0 w \<Longrightarrow> evolves w0 w'"
  unfolding mdns_dup_interface_def Let_def [of "mdns_get_other_if i"]
  by (erule evolves_trans) (auto split: if_splits intro: dup_op.each_evolves)

lemma evolves_system_event:
  "mdns_handle_system_event w e = Some w' \<Longrightarrow> evolves w0 w \<Longrightarrow> evolves w0 w'"
  by (auto simp: mdns_handle_system_event_def split: esp_event.splits if_splits bind_splits
      elim!: evolves_enable evolves_disable evolves_announce_pcb)

section \<open>Packet operations leave the control blocks alone\<close>

text \<open>Building, scheduling and sending packets touches the packet queue and the environment only.\<close>

definition quiet :: "mdns_world \<Rightarrow> mdns_world \<Rightarrow> bool" where
  "quiet w w' \<longleftrightarrow> interfaces w' = interfaces w \<and> hostname w' = hostname w \<and>
     server_instance w' = server_instance w \<and> services w' = services w \<and> srv_heap w' = srv_heap w \<and>
     search_once w' = search_once w \<and> finished w' = finished w \<and> action_queue w' = action_queue w"

lemma quiet_refl [simp]: "quiet w w"
  by (simp add: quiet_def)

lemma quiet_trans: "quiet w w1 \<Longrightarrow> quiet w1 w2 \<Longrightarrow> quiet w w2"
  by (simp add: quiet_def)

lemma quiet_update [simp]:
  "quiet w0 (w\<lparr>alloc_script := x1\<rparr>) = quiet w0 w" "quiet w0 (w\<lparr>ticks := x2\<rparr>) = quiet w0 w"
  "quiet w0 (w\<lparr>randoms := x3\<rparr>) = quiet w0 w" "quiet w0 (w\<lparr>sent := x4\<rparr>) = quiet w0 w"
  "quiet w0 (w\<lparr>tx_queue := x5\<rparr>) = quiet w0 w" "quiet w0 (w\<lparr>tx_buffer := x6\<rparr>) = quiet w0 w"
  "quiet w0 (w\<lparr>next_ptr := x7\<rparr>) = quiet w0 w" "quiet w0 (w\<lparr>share_step := x8\<rparr>) = quiet w0 w"
  by (simp_all add: quiet_def)

lemma quiet_malloc: "malloc w = (ok, w1) \<Longrightarrow> quiet w0 w \<Longrightarrow> quiet w0 w1"
  by (auto simp: malloc_def split: list.splits)

lemma quiet_random: "esp_random w = (r, w1) \<Longrightarrow> quiet w0 w \<Longrightarrow> quiet w0 w1"
  by (auto simp: esp_random_def split: list.splits)

lemma quiet_schedule [simp]: "quiet w0 (mdns_schedule_tx_packet w p d) = quiet w0 w"
  by (simp add: mdns_schedule_tx_packet_def now_ms_def split: list.split)

lemma quiet_dispatch:
  assumes "mdns_dispatch_tx_packet w p = Some w'" "length (tx_buffer w) = MDNS_MAX_PACKET_SIZE"
  shows "quiet w w'"
proof -
  obtain t n w3 where w3: "same_server w w3" and
    wr: "mdns_udp_pcb_write (w3\<lparr>tx_buffer := t\<rparr>) (tx_if p) (tx_protocol p) (tx_dst p) (tx_port p) t n =
      Some w'"
    using dispatch_buffer [OF assms(1)] assms(2) by (metis order_refl)
  then show ?thesis
    using udp_pcb_write_Some [OF wr] by (auto simp: same_server_def)
qed

text \<open>Sending a packet leaves the clock and the queue alone and consumes outcomes of allocations only.\<close>

lemma dispatch_frame:
  assumes "mdns_dispatch_tx_packet w p = Some w'" "length (tx_buffer w) = MDNS_MAX_PACKET_SIZE"
  shows "ticks w' = ticks w \<and> tx_queue w' = tx_queue w \<and> set (alloc_script w') \<subseteq> set (alloc_script w)"
proof -
  obtain t n w3 where w3: "same_server w w3" and
    wr: "mdns_udp_pcb_write (w3\<lparr>tx_buffer := t\<rparr>) (tx_if p) (tx_protocol p) (tx_dst p) (tx_port p) t n =
      Some w'"
    using dispatch_buffer [OF assms(1)] assms(2) by (metis order_refl)
  then show ?thesis
    using udp_pcb_write_Some [OF wr] by (auto simp: same_server_def dest: in_set_dropD)
qed

lemma quiet_alloc_packet: "mdns_alloc_packet_default w i j = (p, w1) \<Longrightarrow> quiet w0 w \<Longrightarrow> quiet w0 w1"
  by (auto simp: mdns_alloc_packet_default_def fresh_ptr_def Let_def split: prod.splits if_splits dest: quiet_malloc)

lemma quiet_alloc_answer: "mdns_alloc_answer w d t s f b = (ok, d1, w1) \<Longrightarrow> quiet w0 w \<Longrightarrow> quiet w0 w1"
  by (auto simp: mdns_alloc_answer_def Let_def split: prod.splits if_splits dest: quiet_malloc)

lemma quiet_add_answers: "add_answers w p rs = (ok, p1, w1) \<Longrightarrow> quiet w0 w \<Longrightarrow> quiet w0 w1"
proof -
  have "alloc_answers w d rs = (ok, d1, w1) \<Longrightarrow> quiet w0 w \<Longrightarrow> quiet w0 w1" for d d1
    by (induction w d rs rule: alloc_answers.induct) (auto split: prod.splits bool.splits dest: quiet_alloc_answer)
  then show "add_answers w p rs = (ok, p1, w1) \<Longrightarrow> quiet w0 w \<Longrightarrow> quiet w0 w1"
    by (auto simp: add_answers_def split: prod.splits)
qed

lemma quiet_probe_questions:
  "probe_questions w first as p = Some (r, w1) \<Longrightarrow> quiet w0 w \<Longrightarrow> quiet w0 w1"
proof (induction as arbitrary: w p)
  case (Cons a as)
  obtain ok w2 where m: "malloc w = (ok, w2)" by (cases "malloc w")
  have w2: "quiet w0 w2" by (rule quiet_malloc [OF m Cons.prems(2)])
  obtain ok3 sv w3 where al: "mdns_alloc_answer w2 (tx_servers p) MDNS_TYPE_SRV (Some a) False False = (ok3, sv, w3)"
    by (metis prod_cases3)
  note w3 = quiet_alloc_answer [OF al w2]
  show ?case
    using Cons.prems(1) Cons.IH [OF _ w2] Cons.IH [OF _ w3] w2 w3
    by (auto simp: m al Let_def split: if_splits bind_splits bool.splits)
qed auto

lemma quiet_probe_host: "probe_host w i first p = (r, w1) \<Longrightarrow> quiet w0 w \<Longrightarrow> quiet w0 w1"
  by (auto simp: probe_host_def Let_def split: prod.splits if_splits dest!: quiet_malloc quiet_alloc_answer)

lemma quiet_create_probe:
  assumes "mdns_create_probe_packet w i j srvs first ip = Some (r, w1)" "quiet w0 w"
  shows "quiet w0 w1"
  using assms
  by (auto simp: mdns_create_probe_packet_def split: prod.splits option.splits if_splits bind_splits
      dest!: quiet_alloc_packet quiet_probe_questions elim!: quiet_probe_host)

section \<open>The invariant of a control block\<close>

text \<open>The array of probed services has at least \<open>probe_services_len\<close> elements, and the length is not
  zero only while the control block is in use and probing.\<close>

definition pcb_ok :: "mdns_pcb_t \<Rightarrow> bool" where
  "pcb_ok b \<longleftrightarrow>
     (case probe_services b of None \<Rightarrow> probe_services_len b = 0 | Some ps \<Rightarrow> probe_services_len b \<le> length ps) \<and>
     (probe_services_len b \<noteq> 0 \<longrightarrow> pcb_pcb b \<and> PCB_STATE_IS_PROBING b)"

lemma pcb_ok_zero [simp]: "pcb_ok pcb_zero" "pcb_ok (pcb_zero\<lparr>pcb_state := s\<rparr>)"
  by (simp_all add: pcb_ok_def pcb_zero_def)

lemma pcb_ok_probe_list:
  assumes "pcb_ok b"
  obtains old where "probe_list b = Some old" "length old = probe_services_len b"
    "\<And>srvs. new_probe_array b srvs = Some (srvs @ old)"
proof -
  let ?n = "probe_services_len b"
  define old where "old = (case probe_services b of None \<Rightarrow> [] | Some ps \<Rightarrow> take ?n ps)"
  have l: "probe_list b = Some old" "length old = ?n"
    using assms by (auto simp: pcb_ok_def probe_list_def old_def split: option.splits)
  moreover have "new_probe_array b srvs = Some (srvs @ old)" for srvs
    using assms l by (cases "?n = 0") (auto simp: pcb_ok_def new_probe_array_def old_def Let_def split: option.splits)
  ultimately show thesis by (rule that)
qed

lemma probing_PROBE_1 [simp]: "PCB_STATE_IS_PROBING (b\<lparr>pcb_state := PCB_PROBE_1\<rparr>)"
  by (simp add: PCB_STATE_IS_PROBING_def less_mdns_pcb_state_t_def)

lemma pcb_ok_new_probe:
  "pcb_pcb b \<Longrightarrow> pcb_ok ((pcb_new_probe b ip arr)\<lparr>pcb_state := PCB_PROBE_1\<rparr>)"
  by (auto simp: pcb_ok_def pcb_new_probe_def)

lemma probe_list_new_probe:
  "length arr < 256 \<Longrightarrow> probe_list ((pcb_new_probe b ip arr)\<lparr>pcb_state := s\<rparr>) = Some arr"
  by (auto simp: probe_list_def pcb_new_probe_def)

lemma pcb_ok_no_probe [simp]: "pcb_ok (pcb_no_probe b)"
  by (simp add: pcb_ok_def pcb_no_probe_def)

section \<open>Runs in which no allocation fails\<close>

lemma tx_on_update [simp]:
  "tx_on i j (p\<lparr>tx_questions := qs\<rparr>) = tx_on i j p" "tx_on i j (p\<lparr>tx_servers := as\<rparr>) = tx_on i j p"
  "tx_on i j (p\<lparr>tx_send_at := t\<rparr>) = tx_on i j p"
  by (simp_all add: tx_on_def)

lemma malloc_ok: "alloc_script w = [] \<Longrightarrow> malloc w = (True, w)"
  by (simp add: malloc_def)

lemma alloc_answer_ok:
  "alloc_script w = [] \<Longrightarrow> mdns_alloc_answer w d t s f b = (ok, d1, w1) \<Longrightarrow> ok \<and> alloc_script w1 = []"
  by (auto simp: mdns_alloc_answer_def malloc_ok split: if_splits)

lemma alloc_packet_ok:
  "alloc_script w = [] \<Longrightarrow> mdns_alloc_packet_default w i j = (p, w1) \<Longrightarrow>
   alloc_script w1 = [] \<and> (\<exists>q. p = Some q \<and> tx_on i j q)"
  by (auto simp: mdns_alloc_packet_default_def malloc_ok fresh_ptr_def tx_on_def)

lemma probe_questions_ok:
  "alloc_script w = [] \<Longrightarrow> tx_on i j p \<Longrightarrow> probe_questions w first as p = Some (r, w1) \<Longrightarrow>
   alloc_script w1 = [] \<and> (\<exists>q. r = Some q \<and> tx_on i j q)"
proof (induction as arbitrary: w p)
  case (Cons a as)
  obtain ok3 sv w3 where al: "mdns_alloc_answer w (tx_servers p) MDNS_TYPE_SRV (Some a) False False = (ok3, sv, w3)"
    by (metis prod_cases3)
  have ok: "ok3" "alloc_script w3 = []"
    using alloc_answer_ok [OF Cons.prems(1) al] by simp_all
  show ?case
    using Cons.prems(3,2) ok(1) al
    by (auto simp: malloc_ok [OF Cons.prems(1)] Let_def split: if_splits bind_splits
        dest!: Cons.IH [OF Cons.prems(1,2)] Cons.IH [OF ok(2), rotated])
qed auto

lemma probe_host_ok:
  assumes "alloc_script w = []" "tx_on i j p"
  shows "\<exists>q. fst (probe_host w k first p) = Some q \<and> tx_on i j q"
proof -
  have step: "ok \<and> alloc_script w3 = []"
    if "(if c then mdns_alloc_answer w2 d t None False False else (True, d, w2)) = (ok, d1, w3)" "alloc_script w2 = []"
    for c w2 d t ok d1 w3
    using that alloc_answer_ok [of w2 d t None False False ok d1 w3] by (cases c) auto
  let ?q = "\<lparr>oq_type = MDNS_TYPE_ANY, oq_unicast = first, oq_host = hostname w,
                 oq_service = None, oq_proto = None, oq_domain = Some default_domain_ptr\<rparr>"
  let ?p = "if mdns_question_exists ?q (tx_questions p) then p else p\<lparr>tx_questions := tx_questions p @ [?q]\<rparr>"
  obtain ok4 s4 w2 where v4: "(if pcb_pcb (interfaces w k MDNS_IP_PROTOCOL_V4)
       then mdns_alloc_answer w (tx_servers ?p) MDNS_TYPE_A None False False else (True, tx_servers ?p, w)) = (ok4, s4, w2)"
    by (metis prod_cases3)
  obtain ok6 s6 w3 where v6: "(if pcb_pcb (interfaces w2 k MDNS_IP_PROTOCOL_V6)
       then mdns_alloc_answer w2 s4 MDNS_TYPE_AAAA None False False else (True, s4, w2)) = (ok6, s6, w3)"
    by (metis prod_cases3)
  note e4 = step [OF v4 assms(1)] note e6 = step [OF v6 conjunct2 [OF e4]]
  show ?thesis
    using e4 e6 assms(2) unfolding probe_host_def Let_def malloc_ok [OF assms(1)] prod.case v4 v6
    by (simp add: tx_on_def)
qed

lemma create_probe_ok:
  assumes "alloc_script w = []" "mdns_create_probe_packet w i j srvs first ip = Some (r, w1)"
  shows "\<exists>q. r = Some q \<and> tx_on i j q"
proof -
  obtain pk w2 where al: "mdns_alloc_packet_default w i j = (pk, w2)" by (metis surj_pair)
  from alloc_packet_ok [OF assms(1) al] obtain p where p: "pk = Some p" "tx_on i j p" "alloc_script w2 = []"
    by blast
  obtain r2 w3 where q: "probe_questions w2 first srvs p = Some (r2, w3)"
    using assms(2) by (auto simp: mdns_create_probe_packet_def al p(1) split: bind_splits)
  obtain p2 where p2: "r2 = Some p2" "tx_on i j p2" "alloc_script w3 = []"
    using probe_questions_ok [OF p(3,2) q] by blast
  have "r = fst (probe_host w3 i first p2) \<or> r = Some p2"
    using assms(2) by (auto simp: mdns_create_probe_packet_def al p(1) q p2(1) split: if_splits)
  then show ?thesis
    using probe_host_ok [OF p2(3,2), of i first] p2(2) by auto
qed

section \<open>Starting a probe\<close>

lemma find_tx_insert: "P p \<Longrightarrow> find P (tx_insert p qs) \<noteq> None"
  by (auto simp: find_None_iff)

lemma new_probe_array_cases:
  assumes "pcb_ok b" "arr = [] \<or> new_probe_array b srvs = Some arr" "probe_list b = Some old"
    "length arr = length srvs + (if PCB_STATE_IS_PROBING b then probe_services_len b else 0)"
  shows "arr = srvs @ old"
proof (rule pcb_ok_probe_list [OF assms(1)])
  fix old'
  assume o: "probe_list b = Some old'" "length old' = probe_services_len b"
    and new: "\<And>srvs. new_probe_array b srvs = Some (srvs @ old')"
  have "old = []" if "arr = []"
    using assms(1,4) that o assms(3) by (cases "probe_services_len b = 0") (auto simp: pcb_ok_def)
  then show ?thesis
    using assms(2-4) o(1) new [of srvs] by auto
qed

lemma running_new_probe: "probe_running (pcb_new_probe b ip arr)"
  by (simp add: pcb_new_probe_def)

lemma probe_new_service_result:
  assumes "pcb_ok (interfaces w i j)" "pcb_pcb (interfaces w i j)"
    "mdns_init_pcb_probe_new_service w i j srvs ip = Some w'" "probe_list (interfaces w i j) = Some old"
  shows "pcb_ok (interfaces w' i j) \<and> (\<forall>i' j'. (i', j') \<noteq> (i, j) \<longrightarrow> interfaces w' i' j' = interfaces w i' j') \<and>
    (alloc_script w = [] \<longrightarrow> pcb_state (interfaces w' i j) = PCB_PROBE_1 \<and> probe_running (interfaces w' i j) \<and>
      mdns_get_next_pcb_packet w' i j \<noteq> None \<and>
      (length srvs + length old < 256 \<longrightarrow> probe_list (interfaces w' i j) = Some (srvs @ old)))"
  using assms(3)
proof (cases rule: probe_new_serviceE)
  case no_memory
  then show ?thesis
    using quiet_malloc [OF no_memory quiet_refl] assms(1) malloc_ok [of w] by (auto simp: quiet_def)
next
  case (no_packet arr w1)
  let ?w2 = "set_pcb w1 i j (pcb_no_probe (interfaces w i j))"
  have w1: "quiet w w1" "alloc_script w = [] \<Longrightarrow> alloc_script w1 = []"
    using no_packet(1) quiet_malloc malloc_ok [of w] by auto
  have "quiet ?w2 w'" by (rule quiet_create_probe [OF no_packet(2) quiet_refl])
  moreover have "alloc_script w1 \<noteq> []"
    using create_probe_ok [OF _ no_packet(2)] by (auto simp: set_pcb_def)
  ultimately show ?thesis using w1 by (auto simp: quiet_def)
next
  case (probe arr w1 p w3 r w4 d)
  let ?w2 = "set_pcb w1 i j (pcb_no_probe (interfaces w i j))"
  have w1: "quiet w w1" "alloc_script w = [] \<Longrightarrow> alloc_script w1 = []"
    using probe(1) quiet_malloc malloc_ok [of w] by auto
  have "quiet ?w2 w3" by (rule quiet_create_probe [OF probe(4) quiet_refl])
  then have i3: "interfaces w3 i' j' = (if (i', j') = (i, j) then pcb_no_probe (interfaces w i j) else interfaces w i' j')" for i' j'
    using w1(1) by (simp add: quiet_def)
  have i4: "interfaces (mdns_schedule_tx_packet w4 p d) i' j' = interfaces w i' j'" if "(i', j') \<noteq> (i, j)" for i' j'
    using quiet_random [OF probe(5) quiet_refl] quiet_schedule [of w4 w4 p d] i3 that
    by (auto simp: quiet_def)
  have "tx_on i j p" if "alloc_script w = []"
    using create_probe_ok [OF _ probe(4)] w1(2) [OF that] by (simp add: set_pcb_def)
  then have "mdns_get_next_pcb_packet w' i j \<noteq> None" if "alloc_script w = []"
    using that by (auto simp: probe(6) mdns_get_next_pcb_packet_def mdns_schedule_tx_packet_def
        case_prod_beta find_None_iff simp del: not_None_eq)
  moreover have "arr = srvs @ old"
    by (rule new_probe_array_cases [OF assms(1) probe(2) assms(4) probe(3)])
  ultimately show ?thesis
    using i4 pcb_ok_new_probe [OF assms(2)] probe_list_new_probe [of arr]
    by (auto simp: probe(6) running_new_probe simp del: probe_list_other)
qed


lemma probe_new_service_returns:
  assumes "pcb_ok (interfaces w i j)" "probe_list (interfaces w i j) = Some old"
    "set srvs \<union> set old \<subseteq> dom (srv_heap w)"
  shows "mdns_init_pcb_probe_new_service w i j srvs ip \<noteq> None"
proof -
  define pcb where "pcb = interfaces w i j"
  define n where "n = length srvs + (if PCB_STATE_IS_PROBING pcb then probe_services_len pcb else 0)"
  obtain ok w1 where m: "(if n \<noteq> 0 then malloc w else (True, w)) = (ok, w1)"
    by (metis surj_pair)
  have h: "srv_heap w1 = srv_heap w"
    using m by (auto split: if_splits)
  have arr: "new_probe_array pcb srvs = Some (srvs @ old)"
    by (rule pcb_ok_probe_list [OF assms(1)]) (use assms(2) in \<open>simp add: pcb_def\<close>)
  define arr where "arr = (if n \<noteq> 0 then srvs @ old else [])"
  have a: "(if n \<noteq> 0 then new_probe_array pcb srvs else Some []) = Some arr"
    by (simp add: arr_def arr)
  have "mdns_create_probe_packet (set_pcb w1 i j (pcb\<lparr>probe_ip := False, probe_services := None,
      probe_services_len := 0, probe_running := False\<rparr>)) i j arr True (probe_ip pcb \<or> ip) \<noteq> None"
    using assms(3) by (intro create_probe_packet_returns) (auto simp: h arr_def)
  then obtain p w3 where c: "mdns_create_probe_packet (set_pcb w1 i j (pcb\<lparr>probe_ip := False, probe_services := None,
      probe_services_len := 0, probe_running := False\<rparr>)) i j arr True (probe_ip pcb \<or> ip) = Some (p, w3)"
    by auto
  show ?thesis
    unfolding mdns_init_pcb_probe_new_service_def Let_def pcb_def [symmetric] n_def [symmetric] m prod.case a
      Option.bind.simps c
    by (simp split: option.split prod.split)
qed

text \<open>C14: (re)starting a probe on a control block that is in use never leaves the arrays it works on. If the
  block satisfies its invariant and the services concerned exist, then \<^verbatim>\<open>_mdns_init_pcb_probe\<close>
  returns, also when an allocation fails half-way, and no other control block is touched. Without a host
  name there is nothing to probe: the block goes straight to the running state, its packets are
  dropped. With a host name the invariant of the block holds again and, if no allocation fails, the
  block is in the first probe state, its packet is scheduled, and the array lists the new services
  that were not yet being probed, followed by those that were.\<close>

theorem init_pcb_probe_safe:
  assumes "pcb_ok (interfaces w i j)" "pcb_pcb (interfaces w i j)"
    "probe_list (interfaces w i j) = Some old" "set srvs \<union> set old \<subseteq> dom (srv_heap w)"
  shows "\<exists>w'. mdns_init_pcb_probe w i j srvs ip = Some w' \<and>
    (\<forall>i' j'. (i', j') \<noteq> (i, j) \<longrightarrow> interfaces w' i' j' = interfaces w i' j') \<and>
    (if str_null_or_empty (hostname w)
     then interfaces w' i j = (interfaces w i j)\<lparr>pcb_state := PCB_RUNNING\<rparr> \<and> mdns_get_next_pcb_packet w' i j = None
     else pcb_ok (interfaces w' i j) \<and>
       (alloc_script w = [] \<longrightarrow> pcb_state (interfaces w' i j) = PCB_PROBE_1 \<and>
         mdns_get_next_pcb_packet w' i j \<noteq> None \<and>
         (length srvs + length old < 256 \<longrightarrow>
            probe_list (interfaces w' i j) = Some (filter (\<lambda>s. s \<notin> set old) srvs @ old))))"
proof -
  let ?w = "mdns_clear_pcb_tx_queue_head w i j" and ?b = "interfaces w i j"
  let ?new = "filter (\<lambda>s. s \<notin> set old) srvs"
  have w: "interfaces ?w = interfaces w" "hostname ?w = hostname w" "srv_heap ?w = srv_heap w"
    "alloc_script ?w = alloc_script w"
    by (simp_all add: mdns_clear_pcb_tx_queue_head_def)
  show ?thesis
  proof (cases "str_null_or_empty (hostname w)")
    case True
    let ?w' = "set_pcb ?w i j (?b\<lparr>pcb_state := PCB_RUNNING\<rparr>)"
    have "mdns_get_next_pcb_packet ?w i j = None"
      by (simp add: mdns_get_next_pcb_packet_def mdns_clear_pcb_tx_queue_head_def find_None_iff)
    then have "mdns_get_next_pcb_packet ?w' i j = None"
      by (simp add: mdns_get_next_pcb_packet_def)
    with True show ?thesis
      by (intro exI [of _ ?w']) (auto simp: mdns_init_pcb_probe_def Let_def w)
  next
    case False
    have old: "old = []" if "\<not> PCB_STATE_IS_PROBING ?b"
      using assms(1,3) that by (auto simp: pcb_ok_def probe_list_def split: if_splits)
    have run: "mdns_init_pcb_probe w i j srvs ip = mdns_init_pcb_probe_new_service ?w i j ?new ip"
      using False assms(3) old by (cases "PCB_STATE_IS_PROBING ?b")
        (auto simp: mdns_init_pcb_probe_def Let_def w)
    obtain w' where w': "mdns_init_pcb_probe_new_service ?w i j ?new ip = Some w'"
      using probe_new_service_returns [of ?w i j old ?new ip] assms(1,3,4) by (auto simp: w)
    have "length srvs + length old < 256 \<Longrightarrow> length ?new + length old < 256"
      using length_filter_le [of "\<lambda>s. s \<notin> set old" srvs] by linarith
    with probe_new_service_result [OF _ _ w', of old] assms(1-3) run w' False show ?thesis
      by (intro exI [of _ w']) (auto simp: w)
  qed
qed

theorem init_pcb_probe_safe_witness:
  "\<exists>w'. mdns_init_pcb_probe demo_world TCPIP_ADAPTER_IF_STA MDNS_IP_PROTOCOL_V4 [5] True = Some w' \<and>
     pcb_state (interfaces w' TCPIP_ADAPTER_IF_STA MDNS_IP_PROTOCOL_V4) = PCB_PROBE_1 \<and>
     probe_list (interfaces w' TCPIP_ADAPTER_IF_STA MDNS_IP_PROTOCOL_V4) = Some [5]"
proof -
  have "\<not> str_null_or_empty (hostname demo_world)"
    by (simp add: str_null_or_empty_def lit_def)
  then show ?thesis
    using init_pcb_probe_safe [of demo_world TCPIP_ADAPTER_IF_STA MDNS_IP_PROTOCOL_V4 "[]" "[5]" True]
    by (auto simp: pcb_ok_def [of "pcb_zero\<lparr>pcb_state := PCB_RUNNING, pcb_pcb := True\<rparr>"]
        probe_list_def [of pcb_zero])
qed

section \<open>The probe and announce cycle\<close>

text \<open>The abstract machine of a control block. A packet \<open>p\<close> that is sent moves the block one state on, from
  the first probe to the running state; the result is the block afterwards and the packet that it sends next with its
  delay, if there is one. \<open>ann\<close> is the announcement for the probe, \<open>None\<close> if there is no memory for it: then
  the last probe is repeated. At the end of probing the array of services is given up. In the other states nothing
  happens.\<close>

definition pcb_sent :: "mdns_pcb_t \<Rightarrow> mdns_tx_packet_t \<Rightarrow> mdns_tx_packet_t option \<Rightarrow>
    mdns_pcb_t \<times> (mdns_tx_packet_t \<times> u32) option" where
  "pcb_sent b p ann = (case pcb_state b of
     PCB_PROBE_1 \<Rightarrow> (b\<lparr>pcb_state := PCB_PROBE_2\<rparr>,
       Some (p\<lparr>tx_questions := map (\<lambda>q. q\<lparr>oq_unicast := False\<rparr>) (tx_questions p)\<rparr>, 250))
   | PCB_PROBE_2 \<Rightarrow> (b\<lparr>pcb_state := PCB_PROBE_3\<rparr>, Some (p, 250))
   | PCB_PROBE_3 \<Rightarrow> (case ann of
       None \<Rightarrow> (b, Some (p, 250))
     | Some x \<Rightarrow> (b\<lparr>probe_running := False, probe_ip := False, probe_services_len := 0, failed_probes := 0,
         probe_services := None, pcb_state := PCB_ANNOUNCE_1\<rparr>, Some (x, 250)))
   | PCB_ANNOUNCE_1 \<Rightarrow> (b\<lparr>pcb_state := PCB_ANNOUNCE_2\<rparr>, Some (p, 1000))
   | PCB_ANNOUNCE_2 \<Rightarrow> (b\<lparr>pcb_state := PCB_ANNOUNCE_3\<rparr>, Some (p, 1000))
   | PCB_ANNOUNCE_3 \<Rightarrow> (b\<lparr>pcb_state := PCB_RUNNING\<rparr>, None)
   | _ \<Rightarrow> (b, None))"

text \<open>The queue when the next packet is scheduled at the time \<open>now\<close>.\<close>

definition queue_next :: "u32 \<Rightarrow> (mdns_tx_packet_t \<times> u32) option \<Rightarrow> mdns_tx_packet_t list \<Rightarrow> mdns_tx_packet_t list" where
  "queue_next now nxt qs = (case nxt of None \<Rightarrow> qs | Some (q, d) \<Rightarrow> tx_insert (q\<lparr>tx_send_at := now + d\<rparr>) qs)"

text \<open>A packet that announces what a probe has asked for: the four records of each service and the addresses, once
  each.\<close>

definition announced_keys :: "mdns_out_answer_t \<Rightarrow> (u16 \<times> srv_ptr option) set" where
  "announced_keys a = (if oa_type a = MDNS_TYPE_SRV
     then (\<lambda>t. (t, oa_service a)) ` {MDNS_TYPE_SDPTR, MDNS_TYPE_PTR, MDNS_TYPE_SRV, MDNS_TYPE_TXT}
     else if oa_type a = MDNS_TYPE_A \<or> oa_type a = MDNS_TYPE_AAAA then {(oa_type a, None)} else {})"

definition announces :: "mdns_tx_packet_t \<Rightarrow> mdns_tx_packet_t \<Rightarrow> bool" where
  "announces p x \<longleftrightarrow> tx_on (tx_if p) (tx_protocol p) x \<and> tx_dst x = mdns_multicast_addr (tx_protocol p) \<and>
     tx_port x = MDNS_SERVICE_PORT \<and> tx_flags x = MDNS_FLAGS_AUTHORITATIVE \<and>
     tx_questions x = [] \<and> tx_servers x = [] \<and> tx_additional x = [] \<and> distinct (map answer_key (tx_answers x)) \<and>
     answer_key ` set (tx_answers x) = \<Union> (announced_keys ` set (tx_servers p))"

text \<open>In these states the control block has another packet to send.\<close>

definition pcb_sends_again :: "mdns_pcb_state_t \<Rightarrow> bool" where
  "pcb_sends_again s \<longleftrightarrow> PCB_INIT < s \<and> s < PCB_ANNOUNCE_3"

lemma pcb_state_simps [simp]:
  "PCB_STATE_IS_PROBING b \<longleftrightarrow> pcb_state b \<in> {PCB_DUP, PCB_INIT, PCB_PROBE_1, PCB_PROBE_2, PCB_PROBE_3}"
  by (cases "pcb_state b") (simp_all add: PCB_STATE_IS_PROBING_def pcb_order_simps)

lemma next_packet_schedule:
  "tx_on i j p \<Longrightarrow> mdns_get_next_pcb_packet (mdns_schedule_tx_packet w p d) i j \<noteq> None"
  by (auto simp: mdns_get_next_pcb_packet_def mdns_schedule_tx_packet_def case_prod_beta find_None_iff
      simp del: not_None_eq)

lemma next_packet_set_pcb [simp]:
  "mdns_get_next_pcb_packet (set_pcb w i' j' b) i j = mdns_get_next_pcb_packet w i j"
  by (simp add: mdns_get_next_pcb_packet_def)

lemma alloc_answers_fails:
  "alloc_answers w dest rs = (ok, dest', w') \<Longrightarrow> (\<not> ok \<longrightarrow> False \<in> set (alloc_script w)) \<and> ticks w' = ticks w \<and>
     tx_queue w' = tx_queue w"
proof (induction rs arbitrary: w dest)
  case (Cons r rs)
  obtain t s f b where r: "r = (t, s, f, b)" by (cases r)
  obtain ok1 d1 w1 where a: "mdns_alloc_answer w dest t s f b = (ok1, d1, w1)"
    by (cases "mdns_alloc_answer w dest t s f b")
  have w1: "\<not> ok1 \<Longrightarrow> False \<in> set (alloc_script w)" "set (alloc_script w1) \<subseteq> set (alloc_script w)"
    "ticks w1 = ticks w" "tx_queue w1 = tx_queue w"
    using a by (auto simp: mdns_alloc_answer_def malloc_def Let_def split: if_splits list.splits)
  show ?case
    using Cons.prems Cons.IH [of w1 d1] w1 by (cases ok1) (auto simp: r a)
qed simp

lemma announce_from_probe_cases:
  assumes "mdns_create_announce_from_probe w p = (r, w1)"
  shows "ticks w1 = ticks w \<and> tx_queue w1 = tx_queue w \<and>
    (case r of None \<Rightarrow> False \<in> set (alloc_script w) | Some x \<Rightarrow> announces p x)"
proof -
  obtain q w2 where q: "mdns_alloc_packet_default w (tx_if p) (tx_protocol p) = (q, w2)" by (metis surj_pair)
  have w2: "ticks w2 = ticks w" "tx_queue w2 = tx_queue w" "set (alloc_script w2) \<subseteq> set (alloc_script w)"
    "q = None \<Longrightarrow> False \<in> set (alloc_script w)"
    using q by (auto simp: mdns_alloc_packet_default_def malloc_def fresh_ptr_def Let_def split: if_splits list.splits)
  show ?thesis
  proof (cases q)
    case None
    with assms q w2 show ?thesis by (simp add: mdns_create_announce_from_probe_def)
  next
    case (Some y)
    then have y: "tx_questions y = []" "tx_answers y = []" "tx_servers y = []" "tx_additional y = []" "tx_if y = tx_if p"
      "tx_protocol y = tx_protocol p" "tx_dst y = mdns_multicast_addr (tx_protocol p)" "tx_port y = MDNS_SERVICE_PORT"
      using q by (auto simp: mdns_alloc_packet_default_def fresh_ptr_def Let_def split: if_splits prod.splits)
    let ?rs = "concat (map announce_of_probe (tx_servers p))"
    obtain ok as w3 where a: "alloc_answers w2 [] ?rs = (ok, as, w3)" by (cases "alloc_answers w2 [] ?rs")
    have r: "r = (if ok then Some (y\<lparr>tx_flags := MDNS_FLAGS_AUTHORITATIVE, tx_answers := as\<rparr>) else None)" "w1 = w3"
      using assms q Some a y(2) by (auto simp: mdns_create_announce_from_probe_def add_answers_def)
    have keys: "(\<lambda>(t, s, f, b). (t, s)) ` set (announce_of_probe x) = announced_keys x" for x
      by (auto simp: announce_of_probe_def announced_keys_def announce_service_def)
    have "(\<lambda>(t, s, f, b). (t, s)) ` set ?rs = \<Union> (announced_keys ` set (tx_servers p))"
      by (simp add: image_UN keys)
    then show ?thesis
      using alloc_answers_keys [OF a] alloc_answers_fails [OF a] w2 y
      by (auto simp: r announces_def tx_on_def)
  qed
qed

lemma quiet_announce_from_probe:
  "mdns_create_announce_from_probe w p = (r, w1) \<Longrightarrow> quiet w0 w \<Longrightarrow> quiet w0 w1"
  by (auto simp: mdns_create_announce_from_probe_def split: prod.splits option.splits if_splits
      dest!: quiet_alloc_packet quiet_add_answers)


lemma schedule_queue_next:
  "tx_queue (mdns_schedule_tx_packet w p d) = queue_next (fst (now_ms w)) (Some (p, d)) (tx_queue w)"
  by (simp add: mdns_schedule_tx_packet_def queue_next_def now_ms_def split: list.split)

lemma now_ticks: "ticks w' = ticks w \<Longrightarrow> fst (now_ms w') = fst (now_ms w)"
  by (simp add: now_ms_def split: list.split)

text \<open>\<^verbatim>\<open>_mdns_tx_handle_packet\<close> is a step of this machine.\<close>

lemma tx_handle_cases:
  assumes "mdns_tx_handle_packet w p = Some w'" "length (tx_buffer w) = MDNS_MAX_PACKET_SIZE"
    "interfaces w (tx_if p) (tx_protocol p) = b"
  shows "\<exists>ws b' nxt ann. w' = set_pcb ws (tx_if p) (tx_protocol p) b' \<and> interfaces ws = interfaces w \<and>
    pcb_sent b p ann = (b', nxt) \<and> tx_queue ws = queue_next (fst (now_ms w)) nxt (tx_queue w) \<and>
    (case ann of None \<Rightarrow> pcb_state b = PCB_PROBE_3 \<longrightarrow> False \<in> set (alloc_script w) | Some x \<Rightarrow> announces p x)"
    (is "?G w'")
proof (cases "pcb_state b = PCB_OFF")
  case True
  have "set_pcb w (tx_if p) (tx_protocol p) b = w" using assms(3) by (simp add: set_pcb_def fun_upd_idem)
  with assms(1,3) True show ?thesis
    by (intro exI [of _ w] exI [of _ b] exI [of _ None])
      (simp add: mdns_tx_handle_packet_def pcb_sent_def queue_next_def)
next
  case False
  let ?i = "tx_if p" and ?j = "tx_protocol p"
  from False assms(1,3) obtain w1 where w1: "mdns_dispatch_tx_packet w p = Some w1"
    by (auto simp: mdns_tx_handle_packet_def Let_def split: bind_splits)
  have q: "interfaces w1 = interfaces w" "interfaces w1 ?i ?j = b"
    using quiet_dispatch [OF w1 assms(2)] assms(3) by (simp_all add: quiet_def)
  note f = dispatch_frame [OF w1 assms(2)]
  have sch: "interfaces (mdns_schedule_tx_packet w2 p2 d) = interfaces w2" for w2 p2 d
    using quiet_schedule [of w2 w2 p2 d] by (simp add: quiet_def)
  obtain r w2 where a: "mdns_create_announce_from_probe w1 p = (r, w2)" by (metis surj_pair)
  have q2: "interfaces w2 = interfaces w"
    using quiet_announce_from_probe [OF a quiet_refl] q by (simp add: quiet_def)
  note an = announce_from_probe_cases [OF a]
  have now: "fst (now_ms w1) = fst (now_ms w)" "fst (now_ms w2) = fst (now_ms w)"
    using now_ticks f an by metis+
  have same: "set_pcb ws ?i ?j b = ws" if "interfaces ws = interfaces w" for ws
    using that assms(3) by (simp add: set_pcb_def fun_upd_idem)
  note run = assms(1) [unfolded mdns_tx_handle_packet_def Let_def assms(3) if_not_P [OF False] w1 Option.bind.simps option.inject q(2), symmetric]
  have step: "?G (set_pcb ws ?i ?j b')" if "interfaces ws = interfaces w" "pcb_sent b p ann = (b', nxt)"
    "tx_queue ws = queue_next (fst (now_ms w)) nxt (tx_queue w)"
    "case ann of None \<Rightarrow> pcb_state b = PCB_PROBE_3 \<longrightarrow> False \<in> set (alloc_script w) | Some x \<Rightarrow> announces p x" for ws b' ann nxt
    using that by blast
  show ?thesis
  proof (cases "pcb_state b = PCB_PROBE_3")
    case True
    show ?thesis
    proof (cases r)
      case None
      have w3: "w' = set_pcb (mdns_schedule_tx_packet w2 p 250) ?i ?j b"
        using run True None by (simp add: a same sch q2)
      have "False \<in> set (alloc_script w)" using an None f by auto
      then show ?thesis
        unfolding w3 using True an f now
        by (intro step [where ann = None]) (simp_all add: sch q2 pcb_sent_def schedule_queue_next)
    next
      case (Some x)
      have w3: "w' = set_pcb (mdns_schedule_tx_packet w2 x 250) ?i ?j (b\<lparr>probe_running := False, probe_ip := False,
          probe_services_len := 0, failed_probes := 0, probe_services := None, pcb_state := PCB_ANNOUNCE_1\<rparr>)"
        using run True Some by (simp add: a)
      show ?thesis
        unfolding w3 using True an f now Some
        by (intro step [where ann = "Some x"]) (simp_all add: sch q2 pcb_sent_def schedule_queue_next)
    qed
  next
    case no: False
    define b' nxt where "b' = fst (pcb_sent b p None)" and "nxt = snd (pcb_sent b p None)"
    have w3: "w' = set_pcb (case nxt of None \<Rightarrow> w1 | Some (x, d) \<Rightarrow> mdns_schedule_tx_packet w1 x d) ?i ?j b'"
      unfolding run b'_def nxt_def pcb_sent_def using False no same [OF q(1)]
      by (cases "pcb_state b") simp_all
    have s: "pcb_sent b p None = (b', nxt)" by (simp add: b'_def nxt_def)
    show ?thesis
    proof (cases nxt)
      case None
      show ?thesis
        unfolding w3 None option.case
        by (rule step [OF q(1) s]) (use no f None in \<open>simp_all add: queue_next_def\<close>)
    next
      case (Some y)
      obtain x d where y: "y = (x, d)" by (cases y)
      have "tx_queue (mdns_schedule_tx_packet w1 x d) = queue_next (fst (now_ms w)) nxt (tx_queue w)"
        using f now by (simp add: schedule_queue_next Some y)
      moreover have "interfaces (mdns_schedule_tx_packet w1 x d) = interfaces w" by (simp add: sch q)
      ultimately show ?thesis
        unfolding w3 Some y option.case prod.case using no
        by (intro step [OF _ s]) (simp_all add: Some y)
    qed
  qed
qed

lemma pcb_sent_ok: "pcb_sent b p ann = (b', nxt) \<Longrightarrow> pcb_ok b \<Longrightarrow> pcb_ok b'"
  by (cases "pcb_state b"; cases ann)
    (auto simp: pcb_sent_def pcb_ok_def split: option.splits)

lemma queue_next_on:
  assumes "pcb_sent b p ann = (b', nxt)" "pcb_sends_again (pcb_state b)" "case ann of None \<Rightarrow> True | Some x \<Rightarrow> announces p x"
  shows "find (tx_on (tx_if p) (tx_protocol p)) (queue_next now nxt qs) \<noteq> None"
proof -
  obtain x d where x: "nxt = Some (x, d)" "tx_on (tx_if p) (tx_protocol p) x"
    using assms by (cases "pcb_state b"; cases ann)
      (auto simp: pcb_sent_def pcb_sends_again_def pcb_order_simps announces_def tx_on_def)
  have "tx_on (tx_if p) (tx_protocol p) (x\<lparr>tx_send_at := now + d\<rparr>)" using x(2) by (simp add: tx_on_def)
  then show ?thesis by (simp add: x(1) queue_next_def find_tx_insert del: not_None_eq)
qed

text \<open>C3: sending a scheduled packet is a step of the abstract machine of its control block and touches no
  other one. Probes 1 and 2 and announcements 1 and 2 move the block to the next state and the same
  packet is queued again, after probe 1 with its questions turned into multicast ones, 250 and 1000
  milliseconds later; announcement 3 leads to the running state; probe 3 leads to the first
  announcement: the array of probed services is given up and what is queued is a packet that announces
  the records proposed by the probe. Only if an allocation fails the third probe is repeated instead. In the
  states off, duplicate, new and running nothing changes. The queue is otherwise untouched, and the
  invariant of the block is kept.\<close>

theorem tx_handle_packet_step:
  assumes "mdns_tx_handle_packet w p = Some w'" "length (tx_buffer w) = MDNS_MAX_PACKET_SIZE"
    "interfaces w (tx_if p) (tx_protocol p) = b" "interfaces w' (tx_if p) (tx_protocol p) = b'"
  shows "(\<exists>ann nxt. pcb_sent b p ann = (b', nxt) \<and>
      tx_queue w' = queue_next (fst (now_ms w)) nxt (tx_queue w) \<and>
      (case ann of None \<Rightarrow> pcb_state b = PCB_PROBE_3 \<longrightarrow> False \<in> set (alloc_script w) | Some x \<Rightarrow> announces p x)) \<and>
    (pcb_ok b \<longrightarrow> pcb_ok b') \<and>
    (pcb_sends_again (pcb_state b) \<longrightarrow> mdns_get_next_pcb_packet w' (tx_if p) (tx_protocol p) \<noteq> None) \<and>
    (\<forall>i j. (i, j) \<noteq> (tx_if p, tx_protocol p) \<longrightarrow> interfaces w' i j = interfaces w i j)"
proof -
  obtain ws c ann nxt where w': "w' = set_pcb ws (tx_if p) (tx_protocol p) c" "interfaces ws = interfaces w"
    "pcb_sent b p ann = (c, nxt)" "tx_queue ws = queue_next (fst (now_ms w)) nxt (tx_queue w)"
    "case ann of None \<Rightarrow> pcb_state b = PCB_PROBE_3 \<longrightarrow> False \<in> set (alloc_script w) | Some x \<Rightarrow> announces p x"
    using tx_handle_cases [OF assms(1-3)] by blast
  have c: "b' = c" using assms(4) by (simp add: w'(1))
  have "case ann of None \<Rightarrow> True | Some x \<Rightarrow> announces p x" using w'(5) by (simp split: option.splits)
  from queue_next_on [OF w'(3) _ this] have
    "pcb_sends_again (pcb_state b) \<longrightarrow> mdns_get_next_pcb_packet w' (tx_if p) (tx_protocol p) \<noteq> None"
    by (simp add: mdns_get_next_pcb_packet_def w'(1,4) del: not_None_eq)
  moreover have "\<exists>ann nxt. pcb_sent b p ann = (b', nxt) \<and> tx_queue w' = queue_next (fst (now_ms w)) nxt (tx_queue w) \<and>
      (case ann of None \<Rightarrow> pcb_state b = PCB_PROBE_3 \<longrightarrow> False \<in> set (alloc_script w) | Some x \<Rightarrow> announces p x)"
    using w' c by (intro exI [of _ ann] exI [of _ nxt]) simp
  ultimately show ?thesis
    using pcb_sent_ok [OF w'(3)] w'(1,2) by (simp add: c)
qed

theorem tx_handle_packet_step_witness:
  "\<exists>w' x. mdns_tx_handle_packet (set_pcb demo_world TCPIP_ADAPTER_IF_STA MDNS_IP_PROTOCOL_V4
        (pcb_zero\<lparr>pcb_state := PCB_PROBE_3, pcb_pcb := True\<rparr>)) (demo_packet\<lparr>tx_answers := []\<rparr>) = Some w' \<and>
     pcb_state (interfaces w' TCPIP_ADAPTER_IF_STA MDNS_IP_PROTOCOL_V4) = PCB_ANNOUNCE_1 \<and>
     tx_queue w' = [x\<lparr>tx_send_at := 250\<rparr>] \<and> announces (demo_packet\<lparr>tx_answers := []\<rparr>) x"
proof -
  let ?b = "pcb_zero\<lparr>pcb_state := PCB_PROBE_3, pcb_pcb := True\<rparr>"
  let ?w = "set_pcb demo_world TCPIP_ADAPTER_IF_STA MDNS_IP_PROTOCOL_V4 ?b" and ?p = "demo_packet\<lparr>tx_answers := []\<rparr>"
  have len: "length (tx_buffer ?w) = MDNS_MAX_PACKET_SIZE" by (simp add: set_pcb_def)
  have p: "tx_if ?p = TCPIP_ADAPTER_IF_STA" "tx_protocol ?p = MDNS_IP_PROTOCOL_V4"
    by (simp_all add: demo_packet_def)
  have "mdns_dispatch_tx_packet ?w ?p \<noteq> None"
    by (rule dispatch_empty_packet) (simp_all add: demo_packet_def set_pcb_def)
  then have "mdns_tx_handle_packet ?w ?p \<noteq> None"
    by (auto simp: mdns_tx_handle_packet_def Let_def)
  then obtain w' where w': "mdns_tx_handle_packet ?w ?p = Some w'" by auto
  have e: "alloc_script ?w = []" "tx_queue ?w = []" "fst (now_ms ?w) = 0"
    "interfaces ?w TCPIP_ADAPTER_IF_STA MDNS_IP_PROTOCOL_V4 = ?b"
    by (simp_all add: now_ms_def) (simp add: set_pcb_def)+
  from tx_handle_packet_step [OF w' len refl refl] obtain ann nxt b' where
    st: "pcb_sent ?b ?p ann = (b', nxt)" "interfaces w' TCPIP_ADAPTER_IF_STA MDNS_IP_PROTOCOL_V4 = b'" and
    q: "tx_queue w' = queue_next 0 nxt []"
      "case ann of None \<Rightarrow> pcb_state ?b = PCB_PROBE_3 \<longrightarrow> False \<in> set [] | Some x \<Rightarrow> announces ?p x"
    unfolding p e by blast
  have "pcb_state b' = PCB_ANNOUNCE_1 \<and> (\<exists>x. tx_queue w' = [x\<lparr>tx_send_at := 250\<rparr>] \<and> announces ?p x)"
    using st(1) q by (cases ann) (auto simp: pcb_sent_def queue_next_def)
  then show ?thesis
    using w' st(2) by blast
qed

end
