(* ===== verification/Mdns_Service.thy ===== *)
theory Mdns_Service
  imports Mdns_Pcb
begin

text \<open>
  Services and names: \<^verbatim>\<open>_mdns_mangle_name\<close>, \<^verbatim>\<open>_mdns_allocate_txt\<close>, \<^verbatim>\<open>_mdns_create_service\<close>,
  the collision checks \<^verbatim>\<open>_mdns_check_srv_collision\<close>, \<^verbatim>\<open>_mdns_check_txt_collision\<close>,
  \<^verbatim>\<open>_mdns_check_a_collision\<close>, \<^verbatim>\<open>_mdns_check_aaaa_collision\<close>, the name tests
  \<^verbatim>\<open>_mdns_name_is_discovery\<close> and \<^verbatim>\<open>_mdns_name_is_ours\<close>, and the parsing of TXT data of
  \<^verbatim>\<open>src/src/mdns.c\<close>.
\<close>

section \<open>Renaming after a collision\<close>

text \<open>\<open>strrchr (in, '-')\<close>: the part before the last dash and the part behind it.\<close>

fun split_last_dash :: "cstring \<Rightarrow> (cstring \<times> cstring) option" where
  "split_last_dash [] = None"
| "split_last_dash (c # cs) = (case split_last_dash cs of
      Some (a, b) \<Rightarrow> Some (c # a, b)
    | None \<Rightarrow> if c = 0x2D then Some ([], cs) else None)"

text \<open>Adding one to the largest \<open>int\<close> and writing behind the end of the allocated string are
  undefined behaviour. The first component of the result is the null pointer when there is no
  memory.\<close>

definition mdns_mangle_name :: "mdns_world \<Rightarrow> cstring \<Rightarrow> (cptr option \<times> mdns_world) option" where
  "mdns_mangle_name w name =
     (let append2 = (let (r, w1) = strdup w (name @ lit ''-2'') in Some (r, w1)) in
      case split_last_dash name of
        None \<Rightarrow> append2
      | Some (base, tail) \<Rightarrow>
          let (suffix, endp) = strtol tail in
          if endp \<noteq> [] then append2
          else let (ok, w1) = malloc w in
            if \<not> ok then Some (None, w1)
            else if suffix = 2147483647 then None
            else let ret = base @ lit ''-'' @ dec (suffix + 1) in
              if length ret + 1 > length name + 2 then None
              else let (a, w2) = fresh_ptr w1 in Some (Some (a, ret), w2))"

section \<open>Creating services\<close>

text \<open>Items are pushed to the front; the loop ends at the first allocation that fails.\<close>

fun allocate_txt ::
  "mdns_world \<Rightarrow> mdns_txt_item list \<Rightarrow> mdns_txt_item list \<Rightarrow> mdns_txt_item list \<times> mdns_world" where
  "allocate_txt w [] new_txt = (new_txt, w)"
| "allocate_txt w ((key, val) # txt) new_txt =
     (let (ok1, w1) = malloc w in
      if \<not> ok1 then (new_txt, w1)
      else let (ok2, w2) = malloc w1 in
        if \<not> ok2 then (new_txt, w2)
        else let (ok3, w3) = malloc w2 in
          if \<not> ok3 then (new_txt, w3)
          else allocate_txt w3 txt ((key, val) # new_txt))"

definition mdns_allocate_txt ::
  "mdns_world \<Rightarrow> mdns_txt_item list \<Rightarrow> mdns_txt_item list \<times> mdns_world" where
  "mdns_allocate_txt w txt = allocate_txt w txt []"

definition mdns_create_service ::
  "mdns_world \<Rightarrow> cstring \<Rightarrow> cstring \<Rightarrow> u16 \<Rightarrow> cstring option \<Rightarrow> mdns_txt_item list \<Rightarrow>
   mdns_service_t option \<times> mdns_world" where
  "mdns_create_service w service proto port inst txt =
     (let (ok, w1) = malloc w in
      if \<not> ok then (None, w1)
      else let (new_txt, w2) = mdns_allocate_txt w1 txt in
        if txt \<noteq> [] \<and> new_txt = [] then (None, w2)
        else let (ins, w3) = (case inst of
                    None \<Rightarrow> (None, w2)
                  | Some i \<Rightarrow> strdup w2 (strndup i (MDNS_NAME_BUF_LEN - 1)));
                 (srv, w4) = strdup w3 (strndup service (MDNS_NAME_BUF_LEN - 1))
             in case srv of
                  None \<Rightarrow> (None, w4)
                | Some srv1 \<Rightarrow>
                    (case strdup w4 (strndup proto (MDNS_NAME_BUF_LEN - 1)) of
                       (None, w5) \<Rightarrow> (None, w5)
                     | (Some pro1, w5) \<Rightarrow>
                         (Some \<lparr>s_instance = ins, s_service = srv1, s_proto = pro1, s_priority = 0,
                                s_weight = 0, s_port = port, s_txt = new_txt\<rparr>, w5)))"

section \<open>Collisions\<close>

text \<open>The data of a SRV record that is compared on a conflict; both sides of
  \<^verbatim>\<open>_mdns_check_srv_collision\<close> are built like this, each in a local array of \<open>len\<close> bytes.\<close>

definition srv_data ::
  "nat \<Rightarrow> u16 \<Rightarrow> u16 \<Rightarrow> u16 \<Rightarrow> cstring \<Rightarrow> cstring \<Rightarrow> u8 list option" where
  "srv_data len priority weight port host domain = do {
     (_, b1) \<leftarrow> mdns_append_u16 (replicate len 0, 0) priority;
     (_, b2) \<leftarrow> mdns_append_u16 b1 weight;
     (_, data, index) \<leftarrow> mdns_append_u16 b2 port;
     data1 \<leftarrow> store8 data index (of_nat (length host));
     data2 \<leftarrow> store_block data1 (index + 1) host;
     data3 \<leftarrow> store8 data2 (index + 1 + length host) (of_nat (length domain));
     data4 \<leftarrow> store_block data3 (index + 2 + length host) domain;
     store8 data4 (index + 2 + length host + length domain) 0
   }"

definition mdns_check_srv_collision ::
  "mdns_world \<Rightarrow> mdns_service_t \<Rightarrow> u16 \<Rightarrow> u16 \<Rightarrow> u16 \<Rightarrow> cstring \<Rightarrow> cstring \<Rightarrow> int option" where
  "mdns_check_srv_collision w service priority weight port host domain =
     (if str_null_or_empty (hostname w) then Some 0
      else do {
        (_, our_host) \<leftarrow> hostname w;
        let our_len = 14 + length our_host;
        let their_len = 9 + length host + length domain;
        if their_len > our_len then Some 1
        else if their_len < our_len then Some (- 1)
        else do {
          our_data \<leftarrow> srv_data our_len (s_priority service) (s_weight service) (s_port service)
                        our_host MDNS_DEFAULT_DOMAIN;
          their_data \<leftarrow> srv_data their_len priority weight port host domain;
          let ret = memcmp our_data their_data;
          Some (if ret > 0 then - 1 else if ret < 0 then 1 else 0)
        }
      })"

text \<open>The loop that renders our TXT items into the array \<open>ours\<close>. \<^verbatim>\<open>_mdns_append_string\<close> checks
  the packet size, not the size of this array.\<close>

fun render_txt :: "mdns_world \<Rightarrow> wbuf \<Rightarrow> mdns_txt_item list \<Rightarrow> (wbuf \<times> mdns_world) option" where
  "render_txt w b [] = Some (b, w)"
| "render_txt w b ((key, val) # txt) =
     (let (ok, w1) = malloc w in
      if ok then do {
        (_, b1) \<leftarrow> mdns_append_string b (key @ lit ''='' @ val);
        render_txt w1 b1 txt
      }
      else render_txt w1 b txt)"

text \<open>The length loop of the code adds the size of the first item once per item.\<close>

definition txt_data_len :: "mdns_txt_item list \<Rightarrow> nat" where
  "txt_data_len txt = foldl (\<lambda>n _. n + (2 + length (fst (hd txt)) + length (snd (hd txt)))) 1 txt"

definition mdns_check_txt_collision ::
  "mdns_world \<Rightarrow> mdns_service_t \<Rightarrow> u8 list \<Rightarrow> (int \<times> mdns_world) option" where
  "mdns_check_txt_collision w service data =
     (let len = length data; txt = s_txt service in
      if len = 1 \<and> txt \<noteq> [] then Some (- 1, w)
      else if len > 1 \<and> txt = [] then Some (1, w)
      else if len = 1 \<and> txt = [] then Some (0, w)
      else let data_len = txt_data_len txt in
        if len > data_len then Some (1, w)
        else if len < data_len then Some (- 1, w)
        else do {
          (b, w1) \<leftarrow> render_txt w (map (stack_junk w) [0..<len], 0) txt;
          let ret = memcmp (fst b) data;
          Some (if ret > 0 then - 1 else if ret < 0 then 1 else 0, w1)
        })"

text \<open>The bytes of an IPv4 address in memory (network order in a little-endian word).\<close>

definition ip4_bytes :: "u32 \<Rightarrow> u8 list" where
  "ip4_bytes ip = [ucast ip, ucast (drop_bit 8 ip), ucast (drop_bit 16 ip), ucast (drop_bit 24 ip)]"

definition mdns_check_a_collision ::
  "mdns_world \<Rightarrow> u32 \<Rightarrow> tcpip_adapter_if_t \<Rightarrow> (int \<times> mdns_world) option" where
  "mdns_check_a_collision w ip tcpip_if =
     (if ip = 0 then Some (1, w)
      else case ip_info w tcpip_if of
        None \<Rightarrow> Some (1, w)
      | Some if_ip \<Rightarrow>
          let ret = memcmp (ip4_bytes if_ip) (ip4_bytes ip) in
          if ret > 0 then Some (- 1, w)
          else if ret < 0 then
            let other_if = mdns_get_other_if tcpip_if in
            if other_if = TCPIP_ADAPTER_IF_MAX then Some (1, w)
            else (case ip_info w other_if of
                None \<Rightarrow> Some (1, w)
              | Some other_ip \<Rightarrow>
                  if ip \<noteq> other_ip then Some (1, w)
                  else do {
                    w1 \<leftarrow> mdns_dup_interface w tcpip_if;
                    Some (2, w1)
                  })
          else Some (0, w))"

definition mdns_check_aaaa_collision ::
  "mdns_world \<Rightarrow> u8 list \<Rightarrow> tcpip_adapter_if_t \<Rightarrow> (int \<times> mdns_world) option" where
  "mdns_check_aaaa_collision w ip tcpip_if =
     (if ipv6_address_is_zero ip then Some (1, w)
      else case ip6_linklocal w tcpip_if of
        None \<Rightarrow> Some (1, w)
      | Some if_ip6 \<Rightarrow>
          let ret = memcmp (take 16 if_ip6) (take 16 ip) in
          if ret > 0 then Some (- 1, w)
          else if ret < 0 then
            let other_if = mdns_get_other_if tcpip_if in
            if other_if = TCPIP_ADAPTER_IF_MAX then Some (1, w)
            else (case ip6_linklocal w other_if of
                None \<Rightarrow> Some (1, w)
              | Some other_ip6 \<Rightarrow>
                  if memcmp (take 16 other_ip6) (take 16 ip) \<noteq> 0 then Some (1, w)
                  else do {
                    w1 \<leftarrow> mdns_dup_interface w tcpip_if;
                    Some (2, w1)
                  })
          else Some (0, w))"

section \<open>Whose name is it?\<close>

definition mdns_name_is_discovery :: "mdns_name_t \<Rightarrow> u16 \<Rightarrow> bool" where
  "mdns_name_is_discovery name type \<longleftrightarrow>
     n_host name \<noteq> [] \<and> strcaseeq (n_host name) (lit ''_services'') \<and>
     n_service name \<noteq> [] \<and> strcaseeq (n_service name) (lit ''_dns-sd'') \<and>
     n_proto name \<noteq> [] \<and> strcaseeq (n_proto name) (lit ''_udp'') \<and>
     n_domain name \<noteq> [] \<and> strcaseeq (n_domain name) MDNS_DEFAULT_DOMAIN \<and>
     type = MDNS_TYPE_PTR"

definition mdns_name_is_ours :: "mdns_world \<Rightarrow> mdns_name_t \<Rightarrow> bool option" where
  "mdns_name_is_ours w name =
     (if n_domain name = [] \<or> \<not> strcaseeq (n_domain name) MDNS_DEFAULT_DOMAIN then Some False
      else if n_service name = [] \<and> n_proto name = []
      then Some (case hostname w of
             None \<Rightarrow> False
           | Some (_, host) \<Rightarrow> n_host name \<noteq> [] \<and> host \<noteq> [] \<and> strcaseeq (n_host name) host)
      else if n_service name = [] \<or> n_proto name = [] then Some False
      else do {
        item \<leftarrow> mdns_get_service_item w (n_service name) (n_proto name);
        case item of
          None \<Rightarrow> Some False
        | Some a \<Rightarrow>
            if n_host name = [] then Some True
            else do {
              s \<leftarrow> srv_heap w a;
              Some (case mdns_get_service_instance_name w (Some s) of
                  None \<Rightarrow> False
                | Some (_, inst) \<Rightarrow> strcaseeq (n_host name) inst)
            }
      })"

section \<open>TXT data\<close>

text \<open>The loop of \<^verbatim>\<open>_mdns_txt_items_count_get\<close>; \<open>- 1\<close> is the error.\<close>

function txt_items_count :: "u8 list \<Rightarrow> nat \<Rightarrow> int \<Rightarrow> int" where
  "txt_items_count data i num_items =
     (if i < length data then
        let partLen = unat (data ! i) in
        if partLen = 0 then num_items
        else if i + 1 + partLen > length data then - 1
        else txt_items_count data (i + 1 + partLen) (num_items + 1)
      else num_items)"
  by pat_completeness auto
termination
  by (relation "measure (\<lambda>(data, i, n). length data - i)") auto

declare txt_items_count.simps [simp del]

definition mdns_txt_items_count_get :: "u8 list \<Rightarrow> int" where
  "mdns_txt_items_count_get data = (if length data = 1 then 0 else txt_items_count data 0 0)"

text \<open>The length of the key of an item; \<open>None\<close> for an item that starts with the equals sign.\<close>

definition mdns_txt_item_name_get_len :: "u8 list \<Rightarrow> nat option" where
  "mdns_txt_item_name_get_len item =
     (if item \<noteq> [] \<and> hd item = 0x3D then None
      else Some (length (takeWhile (\<lambda>c. c \<noteq> 0x3D) item)))"

text \<open>The loop of \<^verbatim>\<open>_mdns_result_txt_create\<close>. The code advances by the length of the key and one
  for the equals sign even when the item has none. \<open>Inl\<close> is the jump to \<open>handle_error\<close>.\<close>

function txt_create ::
  "mdns_world \<Rightarrow> u8 list \<Rightarrow> nat \<Rightarrow> nat \<Rightarrow> (cstring \<times> cstring option) list \<Rightarrow>
   ((unit + (cstring \<times> cstring option) list) \<times> mdns_world) option" where
  "txt_create w data room i txt =
     (if i < length data then
        let partLen = unat (data ! i) in
        if partLen = 0 then Some (Inr txt, w)
        else if i + 1 + partLen > length data then Some (Inl (), w)
        else let item = take partLen (drop (i + 1) data) in
          case mdns_txt_item_name_get_len item of
            None \<Rightarrow> txt_create w data room (i + 1 + partLen) txt
          | Some name_len \<Rightarrow>
              let (ok, w1) = malloc w in
              if \<not> ok then Some (Inl (), w1)
              else if length txt \<ge> room then None
              else let key = cstr_of (take name_len item);
                       value_len = partLen - name_len - 1
                in if value_len > 0 then
                     let (ok2, w2) = malloc w1 in
                     if \<not> ok2 then Some (Inl (), w2)
                     else txt_create w2 data room (i + 1 + name_len + 1 + value_len)
                            (txt @ [(key, Some (cstr_of (take value_len (drop (name_len + 1) item))))])
                   else txt_create w1 data room (i + 1 + name_len + 1) (txt @ [(key, None)])
      else Some (Inr txt, w))"
  by pat_completeness auto
termination
  by (relation "measure (\<lambda>(w, data, room, i, txt). length data - i)") auto

declare txt_create.simps [simp del]

definition mdns_result_txt_create ::
  "mdns_world \<Rightarrow> u8 list \<Rightarrow> ((cstring \<times> cstring option) list \<times> mdns_world) option" where
  "mdns_result_txt_create w data =
     (let num_items = mdns_txt_items_count_get data in
      if num_items \<le> 0 then Some ([], w)
      else let (ok, w1) = malloc w in
        if \<not> ok then Some ([], w1)
        else do {
          (r, w2) \<leftarrow> txt_create w1 data (nat num_items) 0 [];
          Some (case r of Inl _ \<Rightarrow> [] | Inr txt \<Rightarrow> txt, w2)
        })"

section \<open>What the service functions keep\<close>

lemma evolves_mangle: "mdns_mangle_name w name = Some (r, w1) \<Longrightarrow> evolves w0 w \<Longrightarrow> evolves w0 w1"
  by (auto simp: mdns_mangle_name_def Let_def split: option.splits prod.splits if_splits
      dest: evolves_malloc evolves_fresh_ptr evolves_strdup)

lemma evolves_a_collision: "mdns_check_a_collision w ip i = Some (c, w1) \<Longrightarrow> evolves w0 w \<Longrightarrow> evolves w0 w1"
  by (auto simp: mdns_check_a_collision_def Let_def split: option.splits if_splits bind_splits
      elim: evolves_dup_interface)

lemma evolves_aaaa_collision: "mdns_check_aaaa_collision w ip i = Some (c, w1) \<Longrightarrow> evolves w0 w \<Longrightarrow> evolves w0 w1"
  by (auto simp: mdns_check_aaaa_collision_def Let_def split: option.splits if_splits bind_splits
      elim: evolves_dup_interface)

lemma evolves_render_txt: "render_txt w b txt = Some (b1, w1) \<Longrightarrow> evolves w0 w \<Longrightarrow> evolves w0 w1"
proof (induction w b "txt" rule: render_txt.induct)
  case (2 w b key val items)
  obtain ok w2 where m: "malloc w = (ok, w2)" by (metis surj_pair)
  note e = evolves_malloc [OF m 2(4)]
  show ?case
    using 2(1) [OF m [symmetric], of _ ] 2(2) [OF m [symmetric]] 2(3) e
    by (cases ok) (auto simp: m split: bind_splits)
qed simp

lemma evolves_txt_collision: "mdns_check_txt_collision w s data = Some (c, w1) \<Longrightarrow> evolves w0 w \<Longrightarrow> evolves w0 w1"
  by (auto simp: mdns_check_txt_collision_def Let_def split: if_splits bind_splits dest: evolves_render_txt)

lemma evolves_txt_create: "txt_create w data room i items = Some (r, w1) \<Longrightarrow> evolves w0 w \<Longrightarrow> evolves w0 w1"
proof (induction w data room i items rule: txt_create.induct)
  case (1 w data room i items)
  obtain ok w2 where m: "malloc w = (ok, w2)" by (metis surj_pair)
  obtain ok2 w3 where m2: "malloc w2 = (ok2, w3)" by (metis surj_pair)
  note e = evolves_malloc [OF m 1(5)] and e2 = evolves_malloc [OF m2 evolves_malloc [OF m 1(5)]]
  note run = 1(4) [unfolded txt_create.simps [of w data room i items] Let_def m m2 prod.case]
  show ?case
  proof (cases "i < length data \<and> unat (data ! i) \<noteq> 0 \<and> i + 1 + unat (data ! i) \<le> length data")
    case False
    with run 1(5) show ?thesis by (auto split: if_splits)
  next
    case True
    then have c: "i < length data" "unat (data ! i) \<noteq> 0" "\<not> length data < i + 1 + unat (data ! i)" by auto
    let ?item = "take (unat (data ! i)) (drop (i + 1) data)"
    show ?thesis
    proof (cases "mdns_txt_item_name_get_len ?item")
      case None
      with run c 1(1) [OF c(1) refl c(2,3) refl None _ 1(5)] show ?thesis by simp
    next
      case (Some n)
      note step = run [unfolded if_P [OF c(1)] if_not_P [OF c(2)] if_not_P [OF c(3)] Some option.case]
      consider "\<not> ok" | "ok" "room \<le> length items"
        | (val) "ok" "\<not> room \<le> length items" "0 < unat (data ! i) - n - 1"
        | (key) "ok" "\<not> room \<le> length items" "\<not> 0 < unat (data ! i) - n - 1" by blast
      then show ?thesis
      proof cases
        case val
        note ih = 1(2) [OF c(1) refl c(2,3) refl Some refl m [symmetric] _ val(2) refl refl val(3) refl m2 [symmetric]]
        show ?thesis
        proof (cases ok2)
          case True
          with step val have "txt_create w3 data room (i + 1 + n + 1 + (unat (data ! i) - n - 1))
              (items @ [(cstr_of (take n ?item), Some (cstr_of (take (unat (data ! i) - n - 1) (drop (n + 1) ?item))))]) = Some (r, w1)"
            by (simp only: simp_thms if_True if_False)
          with ih val True e2 show ?thesis by blast
        qed (use step val e2 in simp)
      next
        case key
        with step have "txt_create w2 data room (i + 1 + n + 1) (items @ [(cstr_of (take n ?item), None)]) = Some (r, w1)"
          by (simp only: simp_thms if_True if_False)
        with 1(3) [OF c(1) refl c(2,3) refl Some refl m [symmetric] _ key(2) refl refl key(3)] key e show ?thesis
          by blast
      qed (use step e in simp_all)
    qed
  qed
qed

lemma evolves_result_txt: "mdns_result_txt_create w data = Some (items, w1) \<Longrightarrow> evolves w0 w \<Longrightarrow> evolves w0 w1"
  by (auto simp: mdns_result_txt_create_def Let_def split: prod.splits if_splits bind_splits
      dest: evolves_malloc evolves_txt_create)

lemma name_is_ours_item:
  assumes "mdns_name_is_ours w name = Some True" "n_service name \<noteq> []" "n_proto name \<noteq> []"
  obtains a where "mdns_get_service_item w (n_service name) (n_proto name) = Some (Some a)"
  using assms by (auto simp: mdns_name_is_ours_def split: if_splits bind_splits option.splits)

lemma digit_value: "is_digit d \<Longrightarrow> unat d - 48 < 10"
  by (auto simp: is_digit_def word_le_nat_alt)

lemma digits_value_less: "list_all is_digit ds \<Longrightarrow> digits_value ds < 10 ^ length ds"
proof (induction ds rule: rev_induct)
  case (snoc d ds)
  then have "digits_value ds < 10 ^ length ds" "unat d - 48 < 10"
    by (auto dest: digit_value)
  then show ?case by (simp add: digits_value_append)
qed (simp add: digits_value_def)

text \<open>The suffix of a name and its value: the number \<open>strtol\<close> finds needs no more digits than it read.\<close>

lemma strtol_bound:
  assumes "strtol s = (n, [])" "n < 2147483647"
  shows "length (dec (n + 1)) \<le> Suc (length s)"
proof -
  define s1 where "s1 = dropWhile is_space s"
  define s2 where "s2 = (if s1 \<noteq> [] \<and> hd s1 = 0x2B then tl s1 else s1)"
  define ds where "ds = takeWhile is_digit s2"
  have l: "length ds \<le> length s"
  proof -
    have "length ds \<le> length s2" unfolding ds_def by (rule length_takeWhile_le)
    also have "length s2 \<le> length s1" by (simp add: s2_def)
    also have "length s1 \<le> length s" unfolding s1_def by (rule length_dropWhile_le)
    finally show ?thesis .
  qed
  have run: "strtol s = (if ds = [] then (0, s) else (min (digits_value ds) 2147483647, dropWhile is_digit s2))"
    by (simp add: strtol_def Let_def ds_def s2_def s1_def)
  show ?thesis
  proof (cases "ds = []")
    case True
    with assms run show ?thesis by (subst dec.simps) simp
  next
    case False
    have "list_all is_digit ds" by (auto simp: ds_def list_all_iff dest: set_takeWhileD)
    moreover have "n = digits_value ds" using assms run False by (simp add: min_def split: if_splits)
    ultimately have "n < 10 ^ length ds" using digits_value_less by blast
    then have "n + 1 < 10 ^ Suc (length ds)" by simp
    from length_dec [OF this] l show ?thesis by simp
  qed
qed

lemma split_last_dash_Some: "split_last_dash s = Some (a, b) \<Longrightarrow> s = a @ 0x2D # b \<and> 0x2D \<notin> set b"
proof (induction s arbitrary: a)
  case (Cons c cs)
  have "0x2D \<notin> set cs" if "split_last_dash cs = None" for cs :: cstring
    using that by (induction cs) (auto split: option.splits if_splits)
  with Cons show ?case by (auto split: option.splits if_splits)
qed simp

section \<open>Renaming is safe and makes progress\<close>

text \<open>C31: resolving a name conflict. The new name of \<^verbatim>\<open>_mdns_mangle_name\<close> always fits into the memory that
  is allocated for it: the only undefined behaviour is adding one to a numeric suffix that is already the
  largest \<open>int\<close>. The new name differs from the old one and is at most two characters longer; a name
  without a numeric suffix gets the suffix 2, any other name the next number.\<close>

theorem mangle_name_correct:
  "(mdns_mangle_name w name = None \<longleftrightarrow> fst (malloc w) \<and>
      (\<exists>base tail. split_last_dash name = Some (base, tail) \<and> strtol tail = (2147483647, []))) \<and>
    (\<forall>a new w1. mdns_mangle_name w name = Some (Some (a, new), w1) \<longrightarrow> new \<noteq> name \<and> length new \<le> length name + 2 \<and>
      (case split_last_dash name of
         None \<Rightarrow> new = name @ lit ''-2''
       | Some (base, tail) \<Rightarrow> (case strtol tail of (n, rest) \<Rightarrow>
           new = (if rest = [] then base @ lit ''-'' @ dec (n + 1) else name @ lit ''-2''))))"
proof (cases "\<exists>base tail n. split_last_dash name = Some (base, tail) \<and> strtol tail = (n, [])")
  case True
  then obtain base tail n where s: "split_last_dash name = Some (base, tail)" "strtol tail = (n, [])" by blast
  note name = split_last_dash_Some [OF s(1)]
  obtain ok w1 where m: "malloc w = (ok, w1)" by (cases "malloc w")
  show ?thesis
  proof (cases "n = 2147483647")
    case True
    with s m show ?thesis by (auto simp: mdns_mangle_name_def Let_def split: prod.splits)
  next
    case False
    have "n < 2147483647" using s(2) False by (auto simp: strtol_def Let_def min_def split: if_splits)
    from strtol_bound [OF s(2) this] have len: "length (dec (n + 1)) \<le> Suc (length tail)" .
    have "tail \<noteq> dec (n + 1)"
      using strtol_dec [of "n + 1"] s(2) \<open>n < 2147483647\<close> by auto
    with s m False len name show ?thesis
      by (auto simp: mdns_mangle_name_def Let_def lit_def of_char_def fresh_ptr_def split: prod.splits)
  qed
next
  case False
  then have "mdns_mangle_name w name = (case strdup w (name @ lit ''-2'') of (r, w1) \<Rightarrow> Some (r, w1))"
    by (auto simp: mdns_mangle_name_def Let_def split: option.splits prod.splits)
  with False show ?thesis
    by (auto simp: strdup_def fresh_ptr_def lit_def split: prod.splits option.splits if_splits)
qed

theorem mangle_name_correct_witness:
  "\<exists>a w1. mdns_mangle_name boot_world (lit ''esp-9'') = Some (Some (a, lit ''esp-10''), w1) \<and> lit ''esp-10'' \<noteq> lit ''esp-9''"
proof -
  have st: "split_last_dash (lit ''esp-9'') = Some (lit ''esp'', lit ''9'')"
    by (simp add: lit_def of_char_def)
  have n: "strtol (lit ''9'') = (9, [])"
    by (simp add: strtol_def lit_def of_char_def is_space_def is_digit_def digits_value_def)
  have new: "lit ''esp'' @ lit ''-'' @ dec 10 = lit ''esp-10''" by (simp add: dec.simps lit_def of_char_def)
  obtain a x w1 where run: "mdns_mangle_name boot_world (lit ''esp-9'') = Some (Some (a, x), w1)"
    using st n by (simp add: mdns_mangle_name_def Let_def malloc_def boot_world_def fresh_ptr_def dec.simps)
  with mangle_name_correct [of boot_world "lit ''esp-9''"] st n new
  have "x = lit ''esp-10''" "x \<noteq> lit ''esp-9''" by auto
  with run show ?thesis by blast
qed

section \<open>SRV conflicts\<close>

lemma srv_data_bytes:
  assumes "len = 9 + length host + length domain"
  shows "srv_data len priority weight port host domain = Some (u16_bytes priority @ u16_bytes weight @ u16_bytes port @
    [of_nat (length host)] @ host @ [of_nat (length domain)] @ domain @ [0])"
proof -
  let ?n = "length host" and ?m = "length domain"
  have "srv_data len priority weight port host domain =
      Some (put (replicate len 0) 0 (u16_bytes priority @ u16_bytes weight @ u16_bytes port @
        [of_nat ?n] @ host @ [of_nat ?m] @ domain @ [0]))"
    by (simp add: srv_data_def assms append_u16_put store8_put store_block_put)
  then show ?thesis by (simp add: put_def assms)
qed

text \<open>C30: a conflict over a SRV record has exactly one winner. When two hosts compare the same two
  records, each its own with that of the other, their verdicts are opposite; they agree that there is no
  conflict only if host name, priority, weight and port are the same. The comparison stays inside the two
  arrays it builds.\<close>

theorem srv_collision_antisym:
  assumes "hostname w1 = Some (a1, h1)" "h1 \<noteq> []" "hostname w2 = Some (a2, h2)" "h2 \<noteq> []"
  shows "\<exists>c \<in> {- 1, 0, 1}.
    mdns_check_srv_collision w1 s1 (s_priority s2) (s_weight s2) (s_port s2) h2 MDNS_DEFAULT_DOMAIN = Some c \<and>
    mdns_check_srv_collision w2 s2 (s_priority s1) (s_weight s1) (s_port s1) h1 MDNS_DEFAULT_DOMAIN = Some (- c) \<and>
    (c = 0 \<longleftrightarrow> h1 = h2 \<and> s_priority s1 = s_priority s2 \<and> s_weight s1 = s_weight s2 \<and> s_port s1 = s_port s2)"
proof (cases "length h1 = length h2")
  case False
  then show ?thesis
    using assms by (cases "length h1 < length h2")
      (auto simp: mdns_check_srv_collision_def str_null_or_empty_def MDNS_DEFAULT_DOMAIN_def Let_def)
next
  case True
  let ?d = "\<lambda>s h. u16_bytes (s_priority s) @ u16_bytes (s_weight s) @ u16_bytes (s_port s) @
    [of_nat (length h)] @ h @ [of_nat (length MDNS_DEFAULT_DOMAIN)] @ MDNS_DEFAULT_DOMAIN @ [0]"
  have dom: "length MDNS_DEFAULT_DOMAIN = 5" by (simp add: MDNS_DEFAULT_DOMAIN_def)
  have data: "srv_data (14 + length h) (s_priority s) (s_weight s) (s_port s) h MDNS_DEFAULT_DOMAIN = Some (?d s h)" for s h
    by (rule srv_data_bytes) (simp add: dom)
  have inj: "u16_bytes x = u16_bytes y \<longleftrightarrow> x = y" for x y
    using u16_join [of x] u16_join [of y] unfolding u16_bytes_def by (metis list.inject)
  let ?r = "memcmp (?d s1 h1) (?d s2 h2)"
  have eq: "?r = 0 \<longleftrightarrow> h1 = h2 \<and> s_priority s1 = s_priority s2 \<and> s_weight s1 = s_weight s2 \<and> s_port s1 = s_port s2"
    using True by (subst memcmp_eq_0_iff) (auto simp: inj)
  have c1: "mdns_check_srv_collision w1 s1 (s_priority s2) (s_weight s2) (s_port s2) h2 MDNS_DEFAULT_DOMAIN = Some (- ?r)"
    using assms True data [of h1 s1] data [of h2 s2] memcmp_range [of "?d s1 h1" "?d s2 h2"]
    by (auto simp: mdns_check_srv_collision_def str_null_or_empty_def dom Let_def)
  have c2: "mdns_check_srv_collision w2 s2 (s_priority s1) (s_weight s1) (s_port s1) h1 MDNS_DEFAULT_DOMAIN = Some ?r"
    using assms True data [of h1 s1] data [of h2 s2] memcmp_range [of "?d s1 h1" "?d s2 h2"]
      memcmp_antisym [of "?d s2 h2" "?d s1 h1"]
    by (auto simp: mdns_check_srv_collision_def str_null_or_empty_def dom Let_def)
  show ?thesis
    using c1 c2 eq memcmp_range [of "?d s1 h1" "?d s2 h2"] by (intro bexI [of _ "- ?r"]) auto
qed

theorem srv_collision_antisym_witness:
  "\<exists>c \<in> {- 1, 0, 1}. mdns_check_srv_collision demo_world demo_service 0 0 81 (lit ''esp'') MDNS_DEFAULT_DOMAIN = Some c \<and>
     mdns_check_srv_collision demo_world (demo_service\<lparr>s_port := 81\<rparr>) 0 0 80 (lit ''esp'') MDNS_DEFAULT_DOMAIN = Some (- c) \<and> c \<noteq> 0"
proof -
  have "lit ''esp'' \<noteq> []" by (simp add: lit_def)
  with srv_collision_antisym [of demo_world 4 "lit ''esp''" demo_world 4 "lit ''esp''" demo_service "demo_service\<lparr>s_port := 81\<rparr>"]
  show ?thesis by (simp add: demo_service_def)
qed

section \<open>TXT data\<close>

text \<open>The data of a TXT record with the given items.\<close>

definition txt_bytes :: "mdns_txt_item list \<Rightarrow> u8 list" where
  "txt_bytes items = concat (map (\<lambda>(k, v). string_bytes (k @ lit ''='' @ v)) items)"

text \<open>Items that a TXT record can carry: a key that is not empty and has no equals sign, and at most 254
  characters in all.\<close>

definition txt_item_ok :: "mdns_txt_item \<Rightarrow> bool" where
  "txt_item_ok kv = (case kv of (k, v) \<Rightarrow>
     k \<noteq> [] \<and> 0x3D \<notin> set k \<and> cstr_ok k \<and> cstr_ok v \<and> length k + length v < 254)"

lemma lit_eq: "lit ''='' = [0x3D]"
  by (simp add: lit_def of_char_def)

lemma txt_bytes_simps [simp]:
  "txt_bytes [] = []" "txt_bytes ((k, v) # items) = string_bytes (k @ lit ''='' @ v) @ txt_bytes items"
  by (simp_all add: txt_bytes_def)

lemma string_bytes_item:
  "txt_item_ok (k, v) \<Longrightarrow> string_bytes (k @ lit ''='' @ v) = of_nat (length k + length v + 1) # k @ 0x3D # v"
  by (simp add: string_bytes_def txt_item_ok_def lit_eq)

lemma append_txt_items_bytes:
  "alloc_script w = [] \<Longrightarrow> length p = MDNS_MAX_PACKET_SIZE \<Longrightarrow> list_all txt_item_ok items \<Longrightarrow>
   i + length (txt_bytes items) + 1 < MDNS_MAX_PACKET_SIZE \<Longrightarrow> n + length (txt_bytes items) < 65536 \<Longrightarrow>
   mdns_append_txt_items w (p, i) items n =
     Some (n + length (txt_bytes items), True, (put p i (txt_bytes items), i + length (txt_bytes items)), w)"
proof (induction items arbitrary: p i n)
  case (Cons kv items)
  obtain k v where kv: "kv = (k, v)" by (cases kv)
  let ?s = "k @ lit ''='' @ v"
  have ok: "txt_item_ok (k, v)" using Cons.prems(3) kv by simp
  have len: "length ?s mod 256 = length ?s" "length ?s + 1 < 256" "length (string_bytes ?s) = length ?s + 1"
    using ok by (simp_all add: txt_item_ok_def lit_eq)
  have "mdns_append_string (p, i) ?s = Some ((length ?s + 1) mod 256, put p i (string_bytes ?s), i + length ?s + 1)"
    using append_string_put [of i ?s p] Cons.prems(2,4) len by (simp add: kv)
  moreover have "(length ?s + 1) mod 256 = length ?s + 1" using len(2) by simp
  moreover have "mdns_append_txt_items w (put p i (string_bytes ?s), i + length ?s + 1) items (n + (length ?s + 1)) =
      Some (n + (length ?s + 1) + length (txt_bytes items), True,
        (put (put p i (string_bytes ?s)) (i + length ?s + 1) (txt_bytes items), i + length ?s + 1 + length (txt_bytes items)), w)"
    using Cons.prems len by (intro Cons.IH) (simp_all add: kv)
  moreover have "put (put p i (string_bytes ?s)) (i + length ?s + 1) (txt_bytes items) = put p i (txt_bytes (kv # items))"
    using Cons.prems(2,4) len by (simp add: kv flip: len(3))
  moreover have "(n + (length ?s + 1)) mod 65536 = n + (length ?s + 1)"
    using Cons.prems(5) len by (simp add: kv)
  ultimately show ?case
    using Cons.prems(1) len by (simp add: kv malloc_def)
qed simp

lemma txt_items_count_bytes:
  "list_all txt_item_ok items \<Longrightarrow> txt_items_count (pre @ txt_bytes items) (length pre) n = n + int (length items)"
proof (induction items arbitrary: pre n)
  case Nil
  then show ?case by (subst txt_items_count.simps) simp
next
  case (Cons kv items)
  obtain k v where kv: "kv = (k, v)" by (cases kv)
  have ok: "txt_item_ok (k, v)" using Cons.prems kv by simp
  let ?b = "of_nat (length k + length v + 1) # k @ 0x3D # v"
  have u: "unat (of_nat (length k + length v + 1) :: u8) = length k + length v + 1"
    using ok by (simp only: unat_of_nat) (simp add: txt_item_ok_def)
  have "txt_items_count (pre @ ?b @ txt_bytes items) (length pre + length ?b) (n + 1) = n + 1 + int (length items)"
    using Cons.IH [of "pre @ ?b" "n + 1"] Cons.prems by simp
  then show ?case
    using u by (subst txt_items_count.simps) (simp add: kv string_bytes_item [OF ok] nth_append Let_def ac_simps)
qed

text \<open>What the parser makes of an item: an empty value is reported as no value.\<close>

definition txt_result :: "mdns_txt_item \<Rightarrow> cstring \<times> cstring option" where
  "txt_result kv = (fst kv, if snd kv = [] then None else Some (snd kv))"

lemma txt_item_parts:
  assumes "txt_item_ok (k, v)"
  shows "mdns_txt_item_name_get_len (k @ 0x3D # v) = Some (length k)" "cstr_of k = k" "cstr_of v = v"
proof -
  have k: "k \<noteq> []" "0x3D \<notin> set k" using assms by (simp_all add: txt_item_ok_def)
  then have "takeWhile (\<lambda>c. c \<noteq> 0x3D) (k @ 0x3D # v) = k" "hd k \<noteq> 0x3D"
    by (auto simp: takeWhile_tail takeWhile_eq_all_conv dest: hd_in_set)
  with k(1) show "mdns_txt_item_name_get_len (k @ 0x3D # v) = Some (length k)"
    by (simp add: mdns_txt_item_name_get_len_def)
qed (use assms in \<open>simp_all add: txt_item_ok_def cstr_of_id\<close>)

lemma txt_create_bytes:
  assumes "alloc_script w = []"
  shows "list_all txt_item_ok items \<Longrightarrow> length acc + length items \<le> room \<Longrightarrow>
    txt_create w (pre @ txt_bytes items) room (length pre) acc = Some (Inr (acc @ map txt_result items), w)"
proof (induction items arbitrary: pre acc)
  case Nil
  then show ?case by (subst txt_create.simps) simp
next
  case (Cons kv items)
  obtain k v where kv: "kv = (k, v)" by (cases kv)
  have ok: "txt_item_ok (k, v)" using Cons.prems kv by simp
  let ?b = "of_nat (length k + length v + 1) # k @ 0x3D # v"
  have u: "unat (of_nat (length k + length v + 1) :: u8) = length k + length v + 1"
    using ok by (simp only: unat_of_nat) (simp add: txt_item_ok_def)
  have m: "malloc w = (True, w)" by (simp add: malloc_def assms)
  have "txt_create w (pre @ ?b @ txt_bytes items) room (length pre + length ?b) (acc @ [txt_result kv]) =
      Some (Inr (acc @ map txt_result (kv # items)), w)"
    using Cons.IH [of "acc @ [txt_result kv]" "pre @ ?b"] Cons.prems by simp
  moreover have "pre @ txt_bytes (kv # items) = pre @ ?b @ txt_bytes items"
    by (simp add: kv string_bytes_item [OF ok])
  ultimately show ?case
    using u Cons.prems txt_item_parts [OF ok]
    by (simp only:) (subst txt_create.simps, auto simp: kv nth_append Let_def m txt_result_def ac_simps)
qed

text \<open>C29: the TXT items of a service survive the network: the data that the record writer emits for
  them is parsed by the receiving side into the same items in the same order, an empty value becoming no
  value.\<close>

theorem txt_round_trip:
  assumes "alloc_script w = []" "length p = MDNS_MAX_PACKET_SIZE" "list_all txt_item_ok items" "items \<noteq> []"
    "i + length (txt_bytes items) + 1 < MDNS_MAX_PACKET_SIZE"
  shows "\<exists>q n. mdns_append_txt_items w (p, i) items 0 = Some (n, True, (q, i + n), w) \<and> take i q = take i p \<and>
    mdns_result_txt_create w (take n (drop i q)) = Some (map txt_result items, w)"
proof -
  let ?d = "txt_bytes items" and ?q = "put p i (txt_bytes items)"
  have run: "mdns_append_txt_items w (p, i) items 0 = Some (length ?d, True, (?q, i + length ?d), w)"
    using append_txt_items_bytes [OF assms(1,2,3,5), of 0] assms(5) by simp
  have d: "take (length ?d) (drop i ?q) = ?d"
    using assms(2,5) by (simp add: put_def)
  obtain k v rest where "items = (k, v) # rest" using assms(4) by (metis list.exhaust surj_pair)
  then have "length ?d \<noteq> 1" "0 < length items"
    using assms(3) by (auto simp: string_bytes_item)
  moreover have "malloc w = (True, w)" by (simp add: malloc_def assms(1))
  ultimately have "mdns_result_txt_create w ?d = Some (map txt_result items, w)"
    using txt_items_count_bytes [OF assms(3), of "[]" 0] txt_create_bytes [OF assms(1,3), of "[]" "length items" "[]"]
    by (simp add: mdns_result_txt_create_def mdns_txt_items_count_get_def)
  with run d assms(2,5) show ?thesis by (intro exI [of _ ?q] exI [of _ "length ?d"]) simp
qed

theorem txt_round_trip_witness:
  "\<exists>q n. mdns_append_txt_items demo_world (replicate 1460 0, 12) [(lit ''path'', lit ''/'')] 0 = Some (n, True, (q, 12 + n), demo_world) \<and>
     mdns_result_txt_create demo_world (take n (drop 12 q)) = Some ([(lit ''path'', Some (lit ''/''))], demo_world)"
proof -
  have "list_all txt_item_ok [(lit ''path'', lit ''/'')]"
    by (simp add: txt_item_ok_def cstr_ok_def lit_def of_char_def)
  moreover have "lit ''/'' \<noteq> []" "length (txt_bytes [(lit ''path'', lit ''/'')]) = 7"
    by (simp_all add: lit_def)
  ultimately show ?thesis
    using txt_round_trip [of demo_world "replicate 1460 0" "[(lit ''path'', lit ''/'')]" 12] by (auto simp: txt_result_def)
qed


text \<open>a device takes its own TXT record for a conflict. The length of its own data is computed as one
  byte more than the data has, so a host that receives exactly the data that it sends for a service with
  one TXT item does not find it equal: it believes that it won a conflict.\<close>

theorem txt_own_data_conflict:
  assumes "txt_item_ok (k, v)" "s_txt s = [(k, v)]"
  shows "mdns_check_txt_collision w s (txt_bytes (s_txt s)) = Some (- 1, w)"
  using assms by (simp add: mdns_check_txt_collision_def string_bytes_item txt_data_len_def)

theorem txt_own_data_conflict_witness:
  "mdns_check_txt_collision demo_world (demo_service\<lparr>s_txt := [(lit ''path'', lit ''/'')]\<rparr>) (6 # lit ''path=/'') = Some (- 1, demo_world)"
proof -
  have ok: "txt_item_ok (lit ''path'', lit ''/'')" by (simp add: txt_item_ok_def cstr_ok_def lit_def of_char_def)
  have "txt_bytes [(lit ''path'', lit ''/'')] = 6 # lit ''path=/''" by (simp add: string_bytes_def lit_def of_char_def)
  with txt_own_data_conflict [OF ok, of "demo_service\<lparr>s_txt := [(lit ''path'', lit ''/'')]\<rparr>" demo_world] show ?thesis by simp
qed

end
