(* ===== verification/Mdns_Search.thy ===== *)
theory Mdns_Search
  imports Mdns_Service
begin

text \<open>
  Searches: \<^verbatim>\<open>_mdns_search_init\<close>, \<^verbatim>\<open>_mdns_search_add\<close>, \<^verbatim>\<open>_mdns_search_finish\<close>,
  \<^verbatim>\<open>_mdns_search_finish_done\<close>, the functions that add parsed records to the results of a search,
  \<^verbatim>\<open>_mdns_search_find_from\<close>, \<^verbatim>\<open>_mdns_create_search_packet\<close> and the sending of searches of
  \<^verbatim>\<open>src/src/mdns.c\<close>. A search is named by its address \<open>so_ptr\<close>; a result of a search by its
  position in the list of results, to which new results are added in front.
\<close>

section \<open>The chain of searches\<close>

text \<open>The three optional strings of a search; \<open>None\<close> is the failure of an allocation.\<close>

definition search_string ::
  "mdns_world \<Rightarrow> cstring option \<Rightarrow> cptr option option \<times> mdns_world" where
  "search_string w s =
     (case s of
        None \<Rightarrow> (Some None, w)
      | Some t \<Rightarrow>
          if t = [] then (Some None, w)
          else (case strdup w (strndup t (MDNS_NAME_BUF_LEN - 1)) of
              (None, w1) \<Rightarrow> (None, w1)
            | (Some c, w1) \<Rightarrow> (Some (Some c), w1)))"

definition mdns_search_init ::
  "mdns_world \<Rightarrow> cstring option \<Rightarrow> cstring option \<Rightarrow> cstring option \<Rightarrow> u16 \<Rightarrow> u32 \<Rightarrow> nat \<Rightarrow>
   mdns_search_once_t option \<times> mdns_world" where
  "mdns_search_init w name service proto type timeout max_results =
     (let (ok, w1) = malloc w in
      if \<not> ok then (None, w1)
      else let (ok2, w2) = malloc w1 in
        if \<not> ok2 then (None, w2)
        else case search_string w2 name of
          (None, w3) \<Rightarrow> (None, w3)
        | (Some inst, w3) \<Rightarrow>
            (case search_string w3 service of
               (None, w4) \<Rightarrow> (None, w4)
             | (Some srv, w4) \<Rightarrow>
                 (case search_string w4 proto of
                    (None, w5) \<Rightarrow> (None, w5)
                  | (Some pro, w5) \<Rightarrow>
                      let (now, w6) = now_ms w5; (a, w7) = fresh_ptr w6 in
                      (Some \<lparr>so_ptr = a, so_state = SEARCH_INIT, so_started_at = now, so_sent_at = 0,
                             so_timeout = timeout, so_done = False, so_type = type,
                             so_max_results = max_results mod 256, so_num_results = 0,
                             so_instance = inst, so_service = srv, so_proto = pro,
                             so_result = []\<rparr>, w7))))"

definition mdns_search_add :: "mdns_world \<Rightarrow> mdns_search_once_t \<Rightarrow> mdns_world" where
  "mdns_search_add w search = w\<lparr>search_once := search # search_once w\<rparr>"

definition find_search :: "mdns_world \<Rightarrow> nat \<Rightarrow> mdns_search_once_t option" where
  "find_search w ptr = find (\<lambda>s. so_ptr s = ptr) (search_once w)"

definition set_search :: "mdns_world \<Rightarrow> mdns_search_once_t \<Rightarrow> mdns_world" where
  "set_search w s =
     w\<lparr>search_once := map (\<lambda>t. if so_ptr t = so_ptr s then s else t) (search_once w)\<rparr>"

text \<open>Giving the semaphore hands the search to the waiting caller, who frees it: finishing a search
  that is no longer in the chain is a use after free.\<close>

definition mdns_search_finish :: "mdns_world \<Rightarrow> nat \<Rightarrow> mdns_world option" where
  "mdns_search_finish w ptr = do {
     s \<leftarrow> find_search w ptr;
     Some (w\<lparr>search_once := remove_first (\<lambda>t. so_ptr t = ptr) (search_once w),
             finished := s\<lparr>so_state := SEARCH_OFF, so_done := True\<rparr> # finished w\<rparr>)
   }"

definition search_is_full :: "mdns_search_once_t \<Rightarrow> bool" where
  "search_is_full s \<longleftrightarrow> so_max_results s \<noteq> 0 \<and> so_num_results s \<ge> so_max_results s"

fun search_finish_done :: "mdns_world \<Rightarrow> mdns_search_once_t list \<Rightarrow> mdns_world option" where
  "search_finish_done w [] = Some w"
| "search_finish_done w (s # ss) = do {
     w1 \<leftarrow> (if search_is_full s then mdns_search_finish w (so_ptr s) else Some w);
     search_finish_done w1 ss
   }"

definition mdns_search_finish_done :: "mdns_world \<Rightarrow> mdns_world option" where
  "mdns_search_finish_done w = search_finish_done w (search_once w)"

section \<open>Results\<close>

definition result_zero :: "tcpip_adapter_if_t \<Rightarrow> mdns_ip_protocol_t \<Rightarrow> mdns_result_t" where
  "result_zero tcpip_if ip_protocol =
     \<lparr>r_if = tcpip_if, r_protocol = ip_protocol, r_instance_name = None, r_hostname = None,
      r_port = 0, r_txt = [], r_addr = []\<rparr>"

definition result_on :: "tcpip_adapter_if_t \<Rightarrow> mdns_ip_protocol_t \<Rightarrow> mdns_result_t \<Rightarrow> bool" where
  "result_on tcpip_if ip_protocol r \<longleftrightarrow> r_if r = tcpip_if \<and> r_protocol r = ip_protocol"

text \<open>\<open>!_str_null_or_empty (t) && !strcasecmp (s, t)\<close>.\<close>

definition same_string :: "cstring \<Rightarrow> cstring option \<Rightarrow> bool" where
  "same_string s t \<longleftrightarrow> (case t of None \<Rightarrow> False | Some u \<Rightarrow> u \<noteq> [] \<and> strcaseeq s u)"

definition ip_addr_eq :: "ip_addr_t \<Rightarrow> ip_addr_t \<Rightarrow> bool" where
  "ip_addr_eq a b =
     (case (a, b) of
        (IP4 x, IP4 y) \<Rightarrow> x = y
      | (IP6 x, IP6 y) \<Rightarrow> take 16 x = take 16 y
      | _ \<Rightarrow> False)"

text \<open>The copy of an address: 16 bytes of an IPv6 address.\<close>

definition mdns_result_addr_create_ip :: "mdns_world \<Rightarrow> ip_addr_t \<Rightarrow> ip_addr_t option \<times> mdns_world" where
  "mdns_result_addr_create_ip w ip =
     (let (ok, w1) = malloc w in
      (if ok then Some (case ip of IP4 x \<Rightarrow> IP4 x | IP6 x \<Rightarrow> IP6 (take 16 x)) else None, w1))"

definition mdns_result_add_ip :: "mdns_world \<Rightarrow> mdns_result_t \<Rightarrow> ip_addr_t \<Rightarrow> mdns_result_t \<times> mdns_world" where
  "mdns_result_add_ip w r ip =
     (if list_ex (\<lambda>a. ip_addr_eq a ip) (r_addr r) then (r, w)
      else case mdns_result_addr_create_ip w ip of
        (None, w1) \<Rightarrow> (r, w1)
      | (Some a, w1) \<Rightarrow> (r\<lparr>r_addr := a # r_addr r\<rparr>, w1))"

text \<open>The position of the first result that satisfies a predicate.\<close>

fun result_index :: "(mdns_result_t \<Rightarrow> bool) \<Rightarrow> mdns_result_t list \<Rightarrow> nat option" where
  "result_index P [] = None"
| "result_index P (r # rs) = (if P r then Some 0 else map_option Suc (result_index P rs))"

definition search_has_room :: "mdns_search_once_t \<Rightarrow> bool" where
  "search_has_room s \<longleftrightarrow> so_max_results s = 0 \<or> so_num_results s < so_max_results s"

text \<open>Linking a new result in front; the counter is a \<open>uint8_t\<close>.\<close>

definition push_result :: "mdns_search_once_t \<Rightarrow> mdns_result_t \<Rightarrow> mdns_search_once_t" where
  "push_result s r = s\<lparr>so_result := r # so_result s, so_num_results := (so_num_results s + 1) mod 256\<rparr>"

definition is_ip4 :: "ip_addr_t \<Rightarrow> bool" where
  "is_ip4 ip = (case ip of IP4 _ \<Rightarrow> True | IP6 _ \<Rightarrow> False)"

definition mdns_search_result_add_ip ::
  "mdns_world \<Rightarrow> mdns_search_once_t \<Rightarrow> cstring \<Rightarrow> ip_addr_t \<Rightarrow> tcpip_adapter_if_t \<Rightarrow>
   mdns_ip_protocol_t \<Rightarrow> mdns_search_once_t \<times> mdns_world" where
  "mdns_search_result_add_ip w search hostnam ip tcpip_if ip_protocol =
     (if so_type search = MDNS_TYPE_A \<and> is_ip4 ip \<or> so_type search = MDNS_TYPE_AAAA \<and> \<not> is_ip4 ip \<or>
         so_type search = MDNS_TYPE_ANY
      then (case result_index (result_on tcpip_if ip_protocol) (so_result search) of
          Some k \<Rightarrow>
            let (r, w1) = mdns_result_add_ip w (so_result search ! k) ip
            in (search\<lparr>so_result := (so_result search)[k := r]\<rparr>, w1)
        | None \<Rightarrow>
            if \<not> search_has_room search then (search, w)
            else let (ok, w1) = malloc w in
              if \<not> ok then (search, w1)
              else (case mdns_result_addr_create_ip w1 ip of
                  (None, w2) \<Rightarrow> (search, w2)
                | (Some a, w2) \<Rightarrow>
                    (push_result search ((result_zero tcpip_if ip_protocol)\<lparr>r_addr := [a]\<rparr>), w2)))
      else if so_type search = MDNS_TYPE_PTR
      then (case result_index (\<lambda>r. result_on tcpip_if ip_protocol r \<and> same_string hostnam (r_hostname r))
              (so_result search) of
          Some k \<Rightarrow>
            let (r, w1) = mdns_result_add_ip w (so_result search ! k) ip
            in (search\<lparr>so_result := (so_result search)[k := r]\<rparr>, w1)
        | None \<Rightarrow> (search, w))
      else (search, w))"

text \<open>The first component is the position of the result, \<open>None\<close> for the null pointer.\<close>

definition mdns_search_result_add_ptr ::
  "mdns_world \<Rightarrow> mdns_search_once_t \<Rightarrow> cstring \<Rightarrow> tcpip_adapter_if_t \<Rightarrow> mdns_ip_protocol_t \<Rightarrow>
   nat option \<times> mdns_search_once_t \<times> mdns_world" where
  "mdns_search_result_add_ptr w search inst tcpip_if ip_protocol =
     (case result_index (\<lambda>r. result_on tcpip_if ip_protocol r \<and> same_string inst (r_instance_name r))
             (so_result search) of
        Some k \<Rightarrow> (Some k, search, w)
      | None \<Rightarrow>
          if \<not> search_has_room search then (None, search, w)
          else let (ok, w1) = malloc w in
            if \<not> ok then (None, search, w1)
            else let (ok2, w2) = malloc w1 in
              if \<not> ok2 then (None, search, w2)
              else (Some 0, push_result search
                     ((result_zero tcpip_if ip_protocol)\<lparr>r_instance_name := Some inst\<rparr>), w2))"

definition mdns_search_result_add_srv ::
  "mdns_world \<Rightarrow> mdns_search_once_t \<Rightarrow> cstring \<Rightarrow> u16 \<Rightarrow> tcpip_adapter_if_t \<Rightarrow> mdns_ip_protocol_t \<Rightarrow>
   mdns_search_once_t \<times> mdns_world" where
  "mdns_search_result_add_srv w search hostnam port tcpip_if ip_protocol =
     (if list_ex (\<lambda>r. result_on tcpip_if ip_protocol r \<and> same_string hostnam (r_hostname r))
           (so_result search)
      then (search, w)
      else if \<not> search_has_room search then (search, w)
      else let (ok, w1) = malloc w in
        if \<not> ok then (search, w1)
        else let (ok2, w2) = malloc w1 in
          if \<not> ok2 then (search, w2)
          else (push_result search
                 ((result_zero tcpip_if ip_protocol)\<lparr>r_hostname := Some hostnam, r_port := port\<rparr>), w2))"

definition mdns_search_result_add_txt ::
  "mdns_world \<Rightarrow> mdns_search_once_t \<Rightarrow> (cstring \<times> cstring option) list \<Rightarrow> tcpip_adapter_if_t \<Rightarrow>
   mdns_ip_protocol_t \<Rightarrow> mdns_search_once_t \<times> mdns_world" where
  "mdns_search_result_add_txt w search txt tcpip_if ip_protocol =
     (case result_index (result_on tcpip_if ip_protocol) (so_result search) of
        Some k \<Rightarrow>
          let r = so_result search ! k in
          (if r_txt r \<noteq> [] then search
           else search\<lparr>so_result := (so_result search)[k := r\<lparr>r_txt := txt\<rparr>]\<rparr>, w)
      | None \<Rightarrow>
          if \<not> search_has_room search then (search, w)
          else let (ok, w1) = malloc w in
            if \<not> ok then (search, w1)
            else (push_result search ((result_zero tcpip_if ip_protocol)\<lparr>r_txt := txt\<rparr>), w1))"

section \<open>The search that a record answers\<close>

text \<open>\<open>strcasecmp (s, p) == 0\<close> with a pointer that may be null.\<close>

definition casecmp_ptr :: "cstring \<Rightarrow> cptr option \<Rightarrow> bool option" where
  "casecmp_ptr s p = map_option (\<lambda>(_, t). strcaseeq s t) p"

fun mdns_search_find_from ::
  "mdns_search_once_t list \<Rightarrow> mdns_name_t \<Rightarrow> u16 \<Rightarrow> tcpip_adapter_if_t \<Rightarrow> mdns_ip_protocol_t \<Rightarrow>
   nat option option" where
  "mdns_search_find_from [] name type tcpip_if ip_protocol = Some None"
| "mdns_search_find_from (s # ss) name type tcpip_if ip_protocol =
     (let next = mdns_search_find_from ss name type tcpip_if ip_protocol;
          this = Some (Some (so_ptr s))
      in
      if so_state s = SEARCH_OFF then next
      else if type = MDNS_TYPE_A \<or> type = MDNS_TYPE_AAAA then
        if so_type s = MDNS_TYPE_ANY \<and> so_service s \<noteq> None \<or>
           so_type s \<noteq> MDNS_TYPE_ANY \<and> so_type s \<noteq> type \<and> so_type s \<noteq> MDNS_TYPE_PTR then next
        else if so_type s \<noteq> MDNS_TYPE_PTR then do {
          eq \<leftarrow> casecmp_ptr (n_host name) (so_instance s);
          if eq then this else next
        }
        else if list_ex (\<lambda>r. result_on tcpip_if ip_protocol r \<and>
                  same_string (n_host name) (r_hostname r)) (so_result s) then this
        else next
      else if type = MDNS_TYPE_SRV \<or> type = MDNS_TYPE_TXT then
        if so_type s = MDNS_TYPE_ANY \<and> so_service s = None \<or>
           so_type s \<noteq> MDNS_TYPE_ANY \<and> so_type s \<noteq> type \<and> so_type s \<noteq> MDNS_TYPE_PTR then next
        else do {
          eq_srv \<leftarrow> casecmp_ptr (n_service name) (so_service s);
          eq \<leftarrow> (if eq_srv then casecmp_ptr (n_proto name) (so_proto s) else Some False);
          if \<not> eq then next
          else if so_type s \<noteq> MDNS_TYPE_PTR then do {
            eq_ins \<leftarrow> casecmp_ptr (n_host name) (so_instance s);
            if eq_ins then this else next
          }
          else this
        }
      else if type = MDNS_TYPE_PTR \<and> type = so_type s then do {
        eq_srv \<leftarrow> casecmp_ptr (n_service name) (so_service s);
        eq \<leftarrow> (if eq_srv then casecmp_ptr (n_proto name) (so_proto s) else Some False);
        if eq then this else next
      }
      else next)"

section \<open>Sending searches\<close>

text \<open>The known answers of a PTR search; \<open>None\<close> when an allocation fails. The addresses of the
  strings of an answer are not looked at.\<close>

fun known_answers ::
  "mdns_world \<Rightarrow> mdns_search_once_t \<Rightarrow> tcpip_adapter_if_t \<Rightarrow> mdns_ip_protocol_t \<Rightarrow> mdns_result_t list \<Rightarrow>
   mdns_out_answer_t list \<Rightarrow> mdns_out_answer_t list option \<times> mdns_world" where
  "known_answers w search tcpip_if ip_protocol [] as = (Some as, w)"
| "known_answers w search tcpip_if ip_protocol (r # rs) as =
     (case (r_instance_name r, r_hostname r) of
        (Some inst, Some _) \<Rightarrow>
          if \<not> result_on tcpip_if ip_protocol r \<or> r_addr r = []
          then known_answers w search tcpip_if ip_protocol rs as
          else let (ok, w1) = malloc w in
            if \<not> ok then (None, w1)
            else known_answers w1 search tcpip_if ip_protocol rs
              (as @ [\<lparr>oa_type = MDNS_TYPE_PTR, oa_bye = False, oa_flush = False, oa_service = None,
                      oa_custom_instance = Some (0, inst), oa_custom_service = so_service search,
                      oa_custom_proto = so_proto search\<rparr>])
      | _ \<Rightarrow> known_answers w search tcpip_if ip_protocol rs as)"

definition mdns_create_search_packet ::
  "mdns_world \<Rightarrow> mdns_search_once_t \<Rightarrow> tcpip_adapter_if_t \<Rightarrow> mdns_ip_protocol_t \<Rightarrow>
   mdns_tx_packet_t option \<times> mdns_world" where
  "mdns_create_search_packet w search tcpip_if ip_protocol =
     (case mdns_alloc_packet_default w tcpip_if ip_protocol of
        (None, w1) \<Rightarrow> (None, w1)
      | (Some packet, w1) \<Rightarrow>
          let (ok, w2) = malloc w1 in
          if \<not> ok then (None, w2)
          else
            let q = \<lparr>oq_type = so_type search, oq_unicast = (so_type search \<noteq> MDNS_TYPE_PTR),
                     oq_host = so_instance search, oq_service = so_service search,
                     oq_proto = so_proto search, oq_domain = Some default_domain_ptr\<rparr>;
                packet1 = packet\<lparr>tx_questions := tx_questions packet @ [q]\<rparr>
            in if so_type search \<noteq> MDNS_TYPE_PTR then (Some packet1, w2)
               else (case known_answers w2 search tcpip_if ip_protocol (so_result search)
                         (tx_answers packet1) of
                   (None, w3) \<Rightarrow> (None, w3)
                 | (Some as, w3) \<Rightarrow> (Some (packet1\<lparr>tx_answers := as\<rparr>), w3)))"

definition mdns_search_send_pcb ::
  "mdns_world \<Rightarrow> mdns_search_once_t \<Rightarrow> tcpip_adapter_if_t \<Rightarrow> mdns_ip_protocol_t \<Rightarrow> mdns_world option" where
  "mdns_search_send_pcb w search tcpip_if ip_protocol =
     (if pcb_pcb (interfaces w tcpip_if ip_protocol) \<and>
         pcb_state (interfaces w tcpip_if ip_protocol) > PCB_INIT
      then (case mdns_create_search_packet w search tcpip_if ip_protocol of
          (None, w1) \<Rightarrow> Some w1
        | (Some packet, w1) \<Rightarrow> mdns_dispatch_tx_packet w1 packet)
      else Some w)"

definition mdns_search_send :: "mdns_world \<Rightarrow> nat \<Rightarrow> mdns_world option" where
  "mdns_search_send w ptr =
     (case find_search w ptr of
        None \<Rightarrow> Some w
      | Some search \<Rightarrow> for_each_pcb (\<lambda>w i j. mdns_search_send_pcb w search i j) all_pcbs w)"

section \<open>Results keep to the limit of their search\<close>

lemma push_result_ok: "search_ok s \<Longrightarrow> search_has_room s \<Longrightarrow> search_ok (push_result s r)"
  by (auto simp: search_ok_def search_has_room_def push_result_def mod_Suc)

lemma push_result_ptr [simp]: "so_ptr (push_result s r) = so_ptr s"
  by (simp add: push_result_def)

lemma search_ok_update [simp]: "search_ok (s\<lparr>so_result := (so_result s)[k := r]\<rparr>) = search_ok s"
  by (simp add: search_ok_def)

text \<open>A search that is as good as those of the world \<open>w0\<close>.\<close>

definition admits :: "mdns_world \<Rightarrow> mdns_search_once_t \<Rightarrow> bool" where
  "admits w0 s \<longleftrightarrow> (length (tx_buffer w0) = MDNS_MAX_PACKET_SIZE \<longrightarrow> searches_ok w0 \<longrightarrow> search_ok s)"

lemma admits_mem: "evolves w0 w \<Longrightarrow> s \<in> set (search_once w) \<Longrightarrow> admits w0 s"
  by (auto simp: admits_def evolves_def)

lemma find_search_Some: "find_search w p = Some s \<Longrightarrow> s \<in> set (search_once w) \<and> so_ptr s = p"
  by (auto simp: find_search_def find_Some_iff)

lemma admits_find: "find_search w p = Some s \<Longrightarrow> evolves w0 w \<Longrightarrow> admits w0 s"
  by (auto dest: find_search_Some admits_mem)

lemma evolves_set_search: "evolves w0 w \<Longrightarrow> admits w0 s \<Longrightarrow> evolves w0 (set_search w s)"
  by (auto simp: set_search_def admits_def evolves_def queue_refs_def srv_names_def [abs_def])

lemma admits_set_result [simp]: "admits w0 (s\<lparr>so_result := (so_result s)[k := r]\<rparr>) = admits w0 s"
  by (simp add: admits_def)

lemma evolves_result_add_ip: "mdns_result_add_ip w r ip = (r1, w1) \<Longrightarrow> evolves w0 w \<Longrightarrow> evolves w0 w1"
  by (auto simp: mdns_result_add_ip_def mdns_result_addr_create_ip_def split: if_splits prod.splits
      dest: evolves_malloc)

text \<open>The contract of the functions that add a record to the results of a search.\<close>

locale result_op =
  fixes add :: "mdns_world \<Rightarrow> mdns_search_once_t \<Rightarrow> mdns_search_once_t \<times> mdns_world"
  assumes add_world: "add w s = (s1, w1) \<Longrightarrow> evolves w0 w \<Longrightarrow> evolves w0 w1"
    and add_ok: "add w s = (s1, w1) \<Longrightarrow> search_ok s \<Longrightarrow> search_ok s1"
    and add_ptr: "add w s = (s1, w1) \<Longrightarrow> so_ptr s1 = so_ptr s"
begin

lemma add_admits: "add w s = (s1, w1) \<Longrightarrow> admits w0 s \<Longrightarrow> admits w0 s1"
  by (auto simp: admits_def dest: add_ok)

lemma stored:
  assumes "add w s = (s1, w1)" "evolves w0 w" "admits w0 s"
  shows "evolves w0 (set_search w1 s1)"
  using add_world [OF assms(1,2)] add_admits [OF assms(1,3)] by (rule evolves_set_search)

lemma stored_found:
  assumes "add w s = (s1, w1)" "evolves w0 w" "find_search w p = Some s"
  shows "evolves w0 (set_search w1 s1)"
  using stored [OF assms(1,2)] admits_find [OF assms(3,2)] by simp

end

lemmas result_op_simps = mdns_search_result_add_ip_def mdns_search_result_add_ptr_def
  mdns_search_result_add_srv_def mdns_search_result_add_txt_def mdns_result_addr_create_ip_def Let_def

interpretation ip_result: result_op "\<lambda>w s. mdns_search_result_add_ip w s h ip i j"
  by unfold_locales (auto simp: result_op_simps split: if_splits prod.splits option.splits
      dest: evolves_malloc evolves_result_add_ip intro: push_result_ok)

interpretation ptr_result: result_op "\<lambda>w s. snd (mdns_search_result_add_ptr w s h i j)"
  by unfold_locales (auto simp: result_op_simps split: if_splits prod.splits option.splits
      dest: evolves_malloc intro: push_result_ok)

interpretation srv_result: result_op "\<lambda>w s. mdns_search_result_add_srv w s h port i j"
  by unfold_locales (auto simp: result_op_simps split: if_splits prod.splits option.splits
      dest: evolves_malloc intro: push_result_ok)

interpretation txt_result: result_op "\<lambda>w s. mdns_search_result_add_txt w s items i j"
  by unfold_locales (auto simp: result_op_simps split: if_splits prod.splits option.splits
      dest: evolves_malloc intro: push_result_ok)

lemma evolves_search_finish: "mdns_search_finish w p = Some w' \<Longrightarrow> evolves w0 w \<Longrightarrow> evolves w0 w'"
  by (auto simp: mdns_search_finish_def split: bind_splits intro!: evolves_searches
      dest!: subsetD [OF set_remove_first])

lemma evolves_finish_done_from: "search_finish_done w ss = Some w' \<Longrightarrow> evolves w0 w \<Longrightarrow> evolves w0 w'"
  by (induction w ss rule: search_finish_done.induct)
    (auto split: bind_splits if_splits dest: evolves_search_finish)

lemma evolves_finish_done: "mdns_search_finish_done w = Some w' \<Longrightarrow> evolves w0 w \<Longrightarrow> evolves w0 w'"
  by (auto simp: mdns_search_finish_done_def dest: evolves_finish_done_from)

lemma evolves_search_string: "search_string w s = (r, w1) \<Longrightarrow> evolves w0 w \<Longrightarrow> evolves w0 w1"
  by (auto simp: search_string_def split: option.splits if_splits prod.splits dest: evolves_strdup)

lemma search_init_world:
  "mdns_search_init w n s p t d m = (r, w1) \<Longrightarrow> evolves w0 w \<Longrightarrow> evolves w0 w1"
  by (auto simp: mdns_search_init_def Let_def split: prod.splits if_splits option.splits
      dest!: evolves_malloc evolves_search_string evolves_now evolves_fresh_ptr)

lemma search_init_ok: "mdns_search_init w n s p t d m = (Some r, w1) \<Longrightarrow> search_ok r"
  by (auto simp: mdns_search_init_def Let_def search_ok_def split: prod.splits if_splits option.splits)

text \<open>Sending a search.\<close>

lemma evolves_known_answers: "known_answers w s i j rs as = (r, w1) \<Longrightarrow> evolves w0 w \<Longrightarrow> evolves w0 w1"
  by (induction w s i j rs as rule: known_answers.induct)
    (auto split: option.splits if_splits prod.splits dest: evolves_malloc)

lemma evolves_create_search_packet:
  "mdns_create_search_packet w s i j = (r, w1) \<Longrightarrow> evolves w0 w \<Longrightarrow> evolves w0 w1"
  by (auto simp: mdns_create_search_packet_def Let_def split: option.splits if_splits prod.splits
      dest!: evolves_malloc evolves_known_answers evolves_alloc_packet)

lemma evolves_search_send_pcb: "mdns_search_send_pcb w s i j = Some w' \<Longrightarrow> evolves w0 w \<Longrightarrow> evolves w0 w'"
  by (auto simp: mdns_search_send_pcb_def split: option.splits if_splits prod.splits
      dest: evolves_create_search_packet evolves_dispatch)

interpretation search_op: pcb_op "\<lambda>w i j. mdns_search_send_pcb w search i j" "{}"
  by unfold_locales (erule evolves_search_send_pcb, rule evolves_refl)

lemma evolves_search_send: "mdns_search_send w p = Some w' \<Longrightarrow> evolves w0 w \<Longrightarrow> evolves w0 w'"
  by (auto simp: mdns_search_send_def split: option.splits elim!: evolves_trans dest: search_op.each_evolves [rotated])

section \<open>Finishing searches\<close>

lemma find_search_hd [simp]: "search_once w = s # ss \<Longrightarrow> find_search w (so_ptr s) = Some s"
  by (simp add: find_search_def)

lemma find_remove_distinct:
  "distinct (map f xs) \<Longrightarrow> x \<in> set xs \<Longrightarrow> find (\<lambda>y. f y = f x) xs = Some x \<and> remove_first (\<lambda>y. f y = f x) xs = filter (\<lambda>y. f y \<noteq> f x) xs"
proof (induction xs)
  case (Cons y xs)
  show ?case
  proof (cases "f y = f x")
    case True
    then have "\<forall>z\<in>set xs. f z \<noteq> f x" "y = x"
      using Cons.prems by (auto simp: image_iff)
    then show ?thesis by simp
  next
    case False
    with Cons show ?thesis by auto
  qed
qed simp

lemma search_finish_distinct:
  assumes "distinct (map so_ptr (search_once w))" "s \<in> set (search_once w)"
  shows "mdns_search_finish w (so_ptr s) = Some (w\<lparr>search_once := filter (\<lambda>t. so_ptr t \<noteq> so_ptr s) (search_once w),
     finished := s\<lparr>so_state := SEARCH_OFF, so_done := True\<rparr> # finished w\<rparr>)"
  using find_remove_distinct [OF assms] by (simp add: mdns_search_finish_def find_search_def)

lemma search_finish_done_from:
  assumes "distinct (map so_ptr ss)"
  shows "distinct (map so_ptr (search_once w)) \<Longrightarrow> set ss \<subseteq> set (search_once w) \<Longrightarrow>
    search_finish_done w ss = Some (w\<lparr>search_once := filter (\<lambda>t. so_ptr t \<notin> so_ptr ` set (filter search_is_full ss)) (search_once w),
      finished := rev (map (\<lambda>s. s\<lparr>so_state := SEARCH_OFF, so_done := True\<rparr>) (filter search_is_full ss)) @ finished w\<rparr>)"
  using assms
proof (induction ss arbitrary: w)
  case (Cons s ss)
  show ?case
  proof (cases "search_is_full s")
    case True
    let ?w = "w\<lparr>search_once := filter (\<lambda>t. so_ptr t \<noteq> so_ptr s) (search_once w),
      finished := s\<lparr>so_state := SEARCH_OFF, so_done := True\<rparr> # finished w\<rparr>"
    have fin: "mdns_search_finish w (so_ptr s) = Some ?w"
      using search_finish_distinct [of w s] Cons.prems by simp
    have "distinct (map so_ptr (search_once ?w))" "set ss \<subseteq> set (search_once ?w)" "distinct (map so_ptr ss)"
      using Cons.prems by (auto simp: distinct_map_filter image_iff)
    from Cons.IH [OF this] fin True show ?thesis
      by (simp add: filter_filter conj_commute)
  next
    case False
    with Cons show ?thesis by simp
  qed
qed simp

lemma search_finish_done_eq:
  assumes "distinct (map so_ptr (search_once w))"
  shows "mdns_search_finish_done w = Some (w\<lparr>search_once := filter (\<lambda>s. \<not> search_is_full s) (search_once w),
    finished := rev (map (\<lambda>s. s\<lparr>so_state := SEARCH_OFF, so_done := True\<rparr>) (filter search_is_full (search_once w))) @ finished w\<rparr>)"
proof -
  have "so_ptr t \<in> so_ptr ` set (filter search_is_full (search_once w)) \<longleftrightarrow> search_is_full t" if "t \<in> set (search_once w)" for t
    using assms that by (auto simp: distinct_map inj_on_def)
  then have "filter (\<lambda>t. so_ptr t \<notin> so_ptr ` set (filter search_is_full (search_once w))) (search_once w) =
      filter (\<lambda>s. \<not> search_is_full s) (search_once w)"
    by (intro filter_cong) auto
  then show ?thesis
    using search_finish_done_from [OF assms assms subset_refl] by (simp add: mdns_search_finish_done_def)
qed

text \<open>after a packet from a responder, \<^verbatim>\<open>_mdns_search_finish_done\<close> finishes exactly the searches that have
  as many results as they asked for: it returns without touching freed memory, takes them from the chain,
  leaves all others in their order and hands their results to the callers that wait for them.\<close>

theorem search_finish_done_exact:
  assumes "distinct (map so_ptr (search_once w))"
  shows "mdns_search_finish_done w = Some (w\<lparr>search_once := filter (\<lambda>s. \<not> search_is_full s) (search_once w),
    finished := rev (map (\<lambda>s. s\<lparr>so_state := SEARCH_OFF, so_done := True\<rparr>) (filter search_is_full (search_once w))) @ finished w\<rparr>)"
  using assms by (rule search_finish_done_eq)

text \<open>A search with one result out of one.\<close>

definition full_search :: mdns_search_once_t where
  "full_search = \<lparr>so_ptr = 9, so_state = SEARCH_RUNNING, so_started_at = 0, so_sent_at = 0, so_timeout = 100,
     so_done = False, so_type = MDNS_TYPE_PTR, so_max_results = 1, so_num_results = 1, so_instance = None,
     so_service = Some (10, lit ''_http''), so_proto = Some (11, lit ''_tcp''),
     so_result = [result_zero TCPIP_ADAPTER_IF_STA MDNS_IP_PROTOCOL_V4]\<rparr>"

theorem search_finish_done_exact_witness:
  "\<exists>w'. mdns_search_finish_done (demo_world\<lparr>search_once := [full_search]\<rparr>) = Some w' \<and> search_once w' = [] \<and>
     map so_ptr (finished w') = 9 # map so_ptr (finished demo_world)"
  using search_finish_done_exact [of "demo_world\<lparr>search_once := [full_search]\<rparr>"]
  by (simp add: search_is_full_def full_search_def)

section \<open>Which search a record answers\<close>

text \<open>The searches that the public functions make have the strings that their type of record needs:
  a search for the services of a type has no instance, one for an address has only a host name.\<close>

definition search_wf :: "mdns_search_once_t \<Rightarrow> bool" where
  "search_wf s \<longleftrightarrow> (so_service s \<noteq> None \<longrightarrow> so_proto s \<noteq> None) \<and>
     (so_type s \<notin> {MDNS_TYPE_A, MDNS_TYPE_AAAA, MDNS_TYPE_ANY} \<longrightarrow> so_service s \<noteq> None) \<and>
     (so_type s \<noteq> MDNS_TYPE_PTR \<longrightarrow> so_instance s \<noteq> None)"

text \<open>What it means that a record answers a search. \<open>names_match\<close> compares a name with a string that
  the search has.\<close>

definition names_match :: "cstring \<Rightarrow> cptr option \<Rightarrow> bool" where
  "names_match t p \<longleftrightarrow> (\<exists>a s. p = Some (a, s) \<and> strcaseeq t s)"

definition answers_search ::
  "mdns_name_t \<Rightarrow> u16 \<Rightarrow> tcpip_adapter_if_t \<Rightarrow> mdns_ip_protocol_t \<Rightarrow> mdns_search_once_t \<Rightarrow> bool" where
  "answers_search name type i j s \<longleftrightarrow> so_state s \<noteq> SEARCH_OFF \<and>
     (if type \<in> {MDNS_TYPE_A, MDNS_TYPE_AAAA} then
        if so_type s = MDNS_TYPE_PTR
        then \<exists>r\<in>set (so_result s). result_on i j r \<and> same_string (n_host name) (r_hostname r)
        else (so_type s = type \<or> so_type s = MDNS_TYPE_ANY \<and> so_service s = None) \<and>
          names_match (n_host name) (so_instance s)
      else type \<in> {MDNS_TYPE_PTR, MDNS_TYPE_SRV, MDNS_TYPE_TXT} \<and>
        names_match (n_service name) (so_service s) \<and> names_match (n_proto name) (so_proto s) \<and>
        (so_type s = MDNS_TYPE_PTR \<or> type \<noteq> MDNS_TYPE_PTR \<and>
           (so_type s = type \<or> so_type s = MDNS_TYPE_ANY) \<and> names_match (n_host name) (so_instance s)))"

lemma casecmp_ptr_match: "p \<noteq> None \<Longrightarrow> casecmp_ptr t p = Some (names_match t p)"
  by (auto simp: casecmp_ptr_def names_match_def)



end
