(* ===== verification/Mdns_Parse.thy ===== *)
theory Mdns_Parse
  imports Mdns_Search
begin

text \<open>
  The parser of incoming packets: \<^verbatim>\<open>_mdns_question_matches\<close>, \<^verbatim>\<open>_mdns_remove_parsed_question\<close>,
  \<^verbatim>\<open>_mdns_strdup_check\<close> and \<^verbatim>\<open>mdns_parse_packet\<close> of \<^verbatim>\<open>src/src/mdns.c\<close>. The function
  \<^verbatim>\<open>mdns_parse_packet\<close> is one C function of more than four hundred lines; it is split here at its
  loops and at the branches on the record type. The local variables that live across records are
  the fields of \<open>mdns_rx_state\<close>; \<open>Clear\<close> is the jump to \<open>clear_rx_packet\<close>. Reading outside the
  received payload is undefined behaviour.
\<close>

section \<open>Questions\<close>

text \<open>\<open>strcasecmp (s, p) == 0\<close> with a string of a parsed question, which may be null.\<close>

definition casecmp_null :: "cstring \<Rightarrow> cstring option \<Rightarrow> bool option" where
  "casecmp_null s p = map_option (strcaseeq s) p"

text \<open>The conjunction of three comparisons, evaluated from left to right.\<close>

definition question_names :: "mdns_parsed_question_t \<Rightarrow> mdns_service_t \<Rightarrow> bool option" where
  "question_names q s = do {
     a \<leftarrow> casecmp_null (snd (s_service s)) (pq_service q);
     if \<not> a then Some False
     else do {
       b \<leftarrow> casecmp_null (snd (s_proto s)) (pq_proto q);
       if \<not> b then Some False else casecmp_null MDNS_DEFAULT_DOMAIN (pq_domain q)
     }
   }"

definition mdns_question_matches ::
  "mdns_world \<Rightarrow> mdns_parsed_question_t \<Rightarrow> u16 \<Rightarrow> srv_ptr option \<Rightarrow> bool option" where
  "mdns_question_matches w q type service =
     (if pq_type q \<noteq> type then Some False
      else if type = MDNS_TYPE_A \<or> type = MDNS_TYPE_AAAA then Some True
      else if type = MDNS_TYPE_PTR \<or> type = MDNS_TYPE_SDPTR then do {
        a \<leftarrow> service;
        s \<leftarrow> srv_heap w a;
        question_names q s
      }
      else if type = MDNS_TYPE_SRV \<or> type = MDNS_TYPE_TXT then do {
        a \<leftarrow> service;
        s \<leftarrow> srv_heap w a;
        case (mdns_get_service_instance_name w (Some s), pq_host q) of
          (Some (_, name), Some host) \<Rightarrow>
            if strcaseeq name host then question_names q s else Some False
        | _ \<Rightarrow> Some False
      }
      else Some False)"

fun remove_question ::
  "mdns_world \<Rightarrow> u16 \<Rightarrow> srv_ptr option \<Rightarrow> mdns_parsed_question_t list \<Rightarrow>
   mdns_parsed_question_t list option" where
  "remove_question w type service [] = Some []"
| "remove_question w type service (q # qs) = do {
     m \<leftarrow> mdns_question_matches w q type service;
     if m then Some qs
     else do {
       qs1 \<leftarrow> remove_question w type service qs;
       Some (q # qs1)
     }
   }"

text \<open>The first question is dereferenced without a test for an empty list.\<close>

definition mdns_remove_parsed_question ::
  "mdns_world \<Rightarrow> mdns_parsed_packet_t \<Rightarrow> u16 \<Rightarrow> srv_ptr option \<Rightarrow> mdns_parsed_packet_t option" where
  "mdns_remove_parsed_question w parsed_packet type service =
     (if pp_questions parsed_packet = [] then None
      else do {
        qs \<leftarrow> remove_question w type service (pp_questions parsed_packet);
        Some (parsed_packet\<lparr>pp_questions := qs\<rparr>)
      })"

text \<open>The first component of the result is false if the copy cannot be allocated.\<close>

definition mdns_strdup_check :: "mdns_world \<Rightarrow> cstring \<Rightarrow> bool \<times> cstring option \<times> mdns_world" where
  "mdns_strdup_check w s =
     (if s \<noteq> [] then (let (ok, w1) = malloc w in if ok then (True, Some s, w1) else (False, None, w1))
      else (True, None, w))"

text \<open>The questions that a service discovery stands for, one for each service. In this and in the
  following functions \<open>None\<close> in the first component of the result is the jump to
  \<open>clear_rx_packet\<close>.\<close>

fun discovery_questions ::
  "mdns_world \<Rightarrow> bool \<Rightarrow> srv_ptr list \<Rightarrow> mdns_parsed_question_t list \<Rightarrow>
   (mdns_parsed_question_t list option \<times> mdns_world) option" where
  "discovery_questions w unicast [] qs = Some (Some qs, w)"
| "discovery_questions w unicast (a # as) qs =
     (let (ok, w1) = malloc w in
      if \<not> ok then Some (None, w1)
      else do {
        s \<leftarrow> srv_heap w1 a;
        let (ok1, w2) = malloc w1;
        let (ok2, w3) = malloc w2;
        let (ok3, w4) = malloc w3;
        if \<not> ok1 \<or> \<not> ok2 \<or> \<not> ok3 then Some (None, w4)
        else discovery_questions w4 unicast as
          (\<lparr>pq_type = MDNS_TYPE_SDPTR, pq_unicast = unicast, pq_host = None,
            pq_service = Some (snd (s_service s)), pq_proto = Some (snd (s_proto s)),
            pq_domain = Some MDNS_DEFAULT_DOMAIN\<rparr> # qs)
      })"

definition name_question ::
  "mdns_world \<Rightarrow> mdns_name_t \<Rightarrow> u16 \<Rightarrow> bool \<Rightarrow> mdns_parsed_question_t option \<times> mdns_world" where
  "name_question w name type unicast =
     (let (ok, w1) = malloc w in
      if \<not> ok then (None, w1)
      else case mdns_strdup_check w1 (n_host name) of
        (False, _, w2) \<Rightarrow> (None, w2)
      | (True, host, w2) \<Rightarrow>
          (case mdns_strdup_check w2 (n_service name) of
             (False, _, w3) \<Rightarrow> (None, w3)
           | (True, srv, w3) \<Rightarrow>
               (case mdns_strdup_check w3 (n_proto name) of
                  (False, _, w4) \<Rightarrow> (None, w4)
                | (True, pro, w4) \<Rightarrow>
                    (case mdns_strdup_check w4 (n_domain name) of
                       (False, _, w5) \<Rightarrow> (None, w5)
                     | (True, dmn, w5) \<Rightarrow>
                         (Some \<lparr>pq_type = type, pq_unicast = unicast, pq_host = host,
                                pq_service = srv, pq_proto = pro, pq_domain = dmn\<rparr>, w5)))))"

text \<open>The body of the loop over the questions, behind the class of the question.\<close>

definition parse_question ::
  "mdns_world \<Rightarrow> mdns_parsed_packet_t \<Rightarrow> mdns_name_t \<Rightarrow> u16 \<Rightarrow> bool \<Rightarrow>
   (mdns_parsed_packet_t option \<times> mdns_world) option" where
  "parse_question w parsed_packet name type unicast =
     (if mdns_name_is_discovery name type then do {
        (qs, w1) \<leftarrow> discovery_questions w unicast (services w) (pp_questions parsed_packet);
        Some (map_option (\<lambda>qs. parsed_packet\<lparr>pp_discovery := True, pp_questions := qs\<rparr>) qs, w1)
      }
      else if n_sub name then Some (Some parsed_packet, w)
      else do {
        ours \<leftarrow> mdns_name_is_ours w name;
        if \<not> ours then Some (Some parsed_packet, w)
        else
          let (q, w1) = name_question w name type unicast;
              probe = (pp_probe parsed_packet \<or> type = MDNS_TYPE_ANY \<and> n_host name \<noteq> [])
          in Some (map_option (\<lambda>q. parsed_packet\<lparr>pp_probe := probe,
                                     pp_questions := q # pp_questions parsed_packet\<rparr>) q, w1)
      })"

fun parse_questions ::
  "nat \<Rightarrow> u8 list \<Rightarrow> nat \<Rightarrow> mdns_world \<Rightarrow> mdns_parsed_packet_t \<Rightarrow>
   ((nat \<times> mdns_parsed_packet_t) option \<times> mdns_world) option" where
  "parse_questions 0 data content w parsed_packet = Some (Some (content, parsed_packet), w)"
| "parse_questions (Suc qs) data content w parsed_packet = do {
     (next_data, name) \<leftarrow> mdns_parse_fqdn data content;
     case next_data of
       None \<Rightarrow> Some (None, w)
     | Some content1 \<Rightarrow> do {
         type \<leftarrow> mdns_read_u16 data content1;
         clas \<leftarrow> mdns_read_u16 data (content1 + 2);
         if clas AND 0x7FFF \<noteq> 1 \<or> n_invalid name
         then parse_questions qs data (content1 + 4) w parsed_packet
         else do {
           (p, w1) \<leftarrow> parse_question w parsed_packet name type (clas AND 0x8000 \<noteq> 0);
           case p of
             None \<Rightarrow> Some (None, w1)
           | Some parsed_packet1 \<Rightarrow> parse_questions qs data (content1 + 4) w1 parsed_packet1
         }
       }
   }"

section \<open>Records\<close>

record mdns_rx_state =
  rs_w :: mdns_world
  rs_pp :: mdns_parsed_packet_t
  rs_do_not_reply :: bool
  rs_search :: "nat option"

datatype rx_flow = Continue | Clear

text \<open>What the parser knows of a record before it looks at the type: the name, the fixed fields,
  the place of its data and whose record it is.\<close>

record mdns_rr =
  rr_name :: mdns_name_t
  rr_type :: u16
  rr_clas :: u16
  rr_ttl :: u32
  rr_data_ptr :: nat
  rr_data_len :: nat
  rr_discovery :: bool
  rr_ours :: bool
  rr_service :: "srv_ptr option"

abbreviation (input) rx_pcb :: "mdns_rx_packet_t \<Rightarrow> mdns_rx_state \<Rightarrow> mdns_pcb_t" where
  "rx_pcb packet rs \<equiv> interfaces (rs_w rs) (rx_if packet) (rx_protocol packet)"

definition rx_remove_question :: "mdns_rx_state \<Rightarrow> u16 \<Rightarrow> srv_ptr option \<Rightarrow> mdns_rx_state option" where
  "rx_remove_question rs type service = do {
     pp \<leftarrow> mdns_remove_parsed_question (rs_w rs) (rs_pp rs) type service;
     Some (rs\<lparr>rs_pp := pp\<rparr>)
   }"

definition rx_remove_answer ::
  "mdns_rx_packet_t \<Rightarrow> mdns_rx_state \<Rightarrow> u16 \<Rightarrow> srv_ptr option \<Rightarrow> mdns_rx_state option" where
  "rx_remove_answer packet rs type service = do {
     w \<leftarrow> mdns_remove_scheduled_answer (rs_w rs) (rx_if packet) (rx_protocol packet) type service;
     Some (rs\<lparr>rs_w := w\<rparr>)
   }"

definition rx_ptr :: "mdns_rx_packet_t \<Rightarrow> u8 list \<Rightarrow> mdns_rr \<Rightarrow> mdns_rx_state \<Rightarrow> mdns_rx_state option" where
  "rx_ptr packet data rr rs = do {
     (next_data, name) \<leftarrow> mdns_parse_fqdn data (rr_data_ptr rr);
     if next_data = None then Some rs
     else case rs_search rs of
       Some p \<Rightarrow> do {
         s \<leftarrow> find_search (rs_w rs) p;
         let (_, s1, w1) = mdns_search_result_add_ptr (rs_w rs) s (n_host name) (rx_if packet)
                             (rx_protocol packet);
         Some (rs\<lparr>rs_w := set_search w1 s1\<rparr>)
       }
     | None \<Rightarrow>
         if \<not> (rr_discovery rr \<or> rr_ours rr) \<or> n_sub name then Some rs
         else do {
           ours \<leftarrow> mdns_name_is_ours (rs_w rs) name;
           if \<not> ours then Some rs
           else if rr_discovery rr then do {
             service \<leftarrow> mdns_get_service_item (rs_w rs) (n_service name) (n_proto name);
             rx_remove_question rs MDNS_TYPE_SDPTR service
           }
           else if pp_questions (rs_pp rs) \<noteq> [] \<and> \<not> pp_probe (rs_pp rs)
           then rx_remove_question rs (rr_type rr) (rr_service rr)
           else if rr_ttl rr > 2250 then rx_remove_answer packet rs (rr_type rr) (rr_service rr)
           else Some rs
         }
   }"

text \<open>The result of a PTR search that a SRV or TXT record belongs to; it is added if it is not there
  yet. The first component of the result is the null pointer if that fails.\<close>

definition rx_search_result ::
  "mdns_rx_packet_t \<Rightarrow> mdns_rr \<Rightarrow> mdns_rx_state \<Rightarrow> mdns_search_once_t \<Rightarrow> nat option \<times> mdns_rx_state" where
  "rx_search_result packet rr rs s =
     (case result_index (\<lambda>r. result_on (rx_if packet) (rx_protocol packet) r \<and>
              r_instance_name r = Some (n_host (rr_name rr))) (so_result s) of
        Some k \<Rightarrow> (Some k, rs)
      | None \<Rightarrow>
          let (k, s1, w1) = mdns_search_result_add_ptr (rs_w rs) s (n_host (rr_name rr)) (rx_if packet)
                              (rx_protocol packet)
          in (k, rs\<lparr>rs_w := set_search w1 s1\<rparr>))"

text \<open>The mangled name that replaces a name in conflict; it stays if there is no memory.\<close>

definition mangled :: "mdns_world \<Rightarrow> cptr option \<Rightarrow> (cptr option \<times> mdns_world) option" where
  "mangled w name = do {
     (_, old) \<leftarrow> name;
     (new, w1) \<leftarrow> mdns_mangle_name w old;
     Some (if new = None then name else new, w1)
   }"

text \<open>A lost SRV conflict: rename and probe again, or say goodbye and probe again. A null service
  is dereferenced on every path.\<close>

definition rx_srv_conflict :: "mdns_rx_packet_t \<Rightarrow> srv_ptr option \<Rightarrow> mdns_world \<Rightarrow> mdns_world option" where
  "rx_srv_conflict packet service w = do {
     a \<leftarrow> service;
     s \<leftarrow> srv_heap w a;
     let pcb = interfaces w (rx_if packet) (rx_protocol packet);
     if probe_running pcb then
       let w1 = set_pcb w (rx_if packet) (rx_protocol packet)
                  (pcb\<lparr>failed_probes := failed_probes pcb + 1\<rparr>)
       in if \<not> str_null_or_empty (s_instance s) then do {
            (inst, w2) \<leftarrow> mangled w1 (s_instance s);
            mdns_probe_all_pcbs (w2\<lparr>srv_heap := (srv_heap w2)(a \<mapsto> s\<lparr>s_instance := inst\<rparr>)\<rparr>)
              [a] False False
          }
          else if \<not> str_null_or_empty (server_instance w1) then do {
            (inst, w2) \<leftarrow> mangled w1 (server_instance w1);
            mdns_restart_all_pcbs_no_instance (w2\<lparr>server_instance := inst\<rparr>)
          }
          else do {
            (host, w2) \<leftarrow> mangled w1 (hostname w1);
            mdns_restart_all_pcbs (w2\<lparr>hostname := host\<rparr>)
          }
     else do {
       w1 \<leftarrow> mdns_pcb_send_bye w (rx_if packet) (rx_protocol packet) [a] False;
       mdns_init_pcb_probe w1 (rx_if packet) (rx_protocol packet) [a] False
     }
   }"

definition rx_srv_ours ::
  "mdns_rx_packet_t \<Rightarrow> mdns_rr \<Rightarrow> mdns_name_t \<Rightarrow> u16 \<Rightarrow> u16 \<Rightarrow> u16 \<Rightarrow> mdns_rx_state \<Rightarrow>
   mdns_rx_state option" where
  "rx_srv_ours packet rr name priority weight port rs =
     (let pp = rs_pp rs in
      if pp_questions pp \<noteq> [] \<and> \<not> pp_probe pp
      then rx_remove_question rs (rr_type rr) (rr_service rr)
      else if pp_distributed pp then rx_remove_answer packet rs (rr_type rr) (rr_service rr)
      else do {
        col \<leftarrow> (if rr_clas rr > 1 then Some 1
                else if rr_clas rr = 0 then Some (- 1)
                else case rr_service rr of
                  None \<Rightarrow> Some 0
                | Some a \<Rightarrow> do {
                    s \<leftarrow> srv_heap (rs_w rs) a;
                    mdns_check_srv_collision (rs_w rs) s priority weight port (n_host name) (n_domain name)
                  });
        if col \<noteq> 0 \<and> (pp_probe pp \<or> pp_authoritative pp)
        then if col > 0 \<or> port = 0 then do {
               w1 \<leftarrow> rx_srv_conflict packet (rr_service rr) (rs_w rs);
               Some (rs\<lparr>rs_do_not_reply := True, rs_w := w1\<rparr>)
             }
             else Some rs
        else if rr_ttl rr > 60 \<and> col = 0 \<and> \<not> pp_authoritative pp \<and> \<not> pp_probe pp \<and> pp_questions pp = []
        then rx_remove_answer packet rs (rr_type rr) (rr_service rr)
        else Some rs
      })"

definition rx_srv_search ::
  "mdns_rx_packet_t \<Rightarrow> mdns_name_t \<Rightarrow> u16 \<Rightarrow> nat \<Rightarrow> nat option \<Rightarrow> mdns_rx_state \<Rightarrow> mdns_rx_state option" where
  "rx_srv_search packet name port p result rs = do {
     s \<leftarrow> find_search (rs_w rs) p;
     if so_type s = MDNS_TYPE_PTR then do {
       k \<leftarrow> result;
       let r = so_result s ! k;
       if r_hostname r = None then
         let (ok, w1) = malloc (rs_w rs);
             r1 = r\<lparr>r_port := port, r_hostname := (if ok then Some (n_host name) else None)\<rparr>
         in Some (rs\<lparr>rs_w := set_search w1 (s\<lparr>so_result := (so_result s)[k := r1]\<rparr>)\<rparr>)
       else Some rs
     }
     else
       let (s1, w1) = mdns_search_result_add_srv (rs_w rs) s (n_host name) port (rx_if packet)
                        (rx_protocol packet)
       in Some (rs\<lparr>rs_w := set_search w1 s1\<rparr>)
   }"

definition rx_srv :: "mdns_rx_packet_t \<Rightarrow> u8 list \<Rightarrow> mdns_rr \<Rightarrow> mdns_rx_state \<Rightarrow> mdns_rx_state option" where
  "rx_srv packet data rr rs = do {
     (go, result, rs1) \<leftarrow> (case rs_search rs of
         None \<Rightarrow> Some (True, None, rs)
       | Some p \<Rightarrow> do {
           s \<leftarrow> find_search (rs_w rs) p;
           if so_type s = MDNS_TYPE_PTR
           then (let (k, rs1) = rx_search_result packet rr rs s in Some (k \<noteq> None, k, rs1))
           else Some (True, None, rs)
         });
     if \<not> go then Some rs1
     else do {
       (next_data, name) \<leftarrow> mdns_parse_fqdn data (rr_data_ptr rr + 6);
       if next_data = None then Some rs1
       else do {
         priority \<leftarrow> mdns_read_u16 data (rr_data_ptr rr);
         weight \<leftarrow> mdns_read_u16 data (rr_data_ptr rr + 2);
         port \<leftarrow> mdns_read_u16 data (rr_data_ptr rr + 4);
         case rs_search rs1 of
           Some p \<Rightarrow> rx_srv_search packet name port p result rs1
         | None \<Rightarrow> if rr_ours rr then rx_srv_ours packet rr name priority weight port rs1 else Some rs1
       }
     }
   }"

definition rx_txt_ours ::
  "mdns_rx_packet_t \<Rightarrow> u8 list \<Rightarrow> mdns_rr \<Rightarrow> mdns_rx_state \<Rightarrow> mdns_rx_state option" where
  "rx_txt_ours packet txt_data rr rs =
     (let pp = rs_pp rs in
      if pp_questions pp \<noteq> [] \<and> \<not> pp_probe pp
      then rx_remove_question rs (rr_type rr) (rr_service rr)
      else do {
        (col, w1) \<leftarrow> (if rr_clas rr > 1 then Some (1, rs_w rs)
                else if rr_clas rr = 0 then Some (- 1, rs_w rs)
                else case rr_service rr of
                  None \<Rightarrow> Some (0, rs_w rs)
                | Some a \<Rightarrow> do {
                    s \<leftarrow> srv_heap (rs_w rs) a;
                    mdns_check_txt_collision (rs_w rs) s txt_data
                  });
        let rs1 = rs\<lparr>rs_w := w1\<rparr>;
        if col \<noteq> 0 \<and> \<not> probe_running (rx_pcb packet rs1) then do {
          a \<leftarrow> rr_service rr;
          w2 \<leftarrow> mdns_init_pcb_probe w1 (rx_if packet) (rx_protocol packet) [a] True;
          Some (rs1\<lparr>rs_do_not_reply := True, rs_w := w2\<rparr>)
        }
        else if rr_ttl rr > 2250 \<and> col = 0 \<and> \<not> pp_authoritative pp \<and> \<not> pp_probe pp \<and>
                pp_questions pp = [] \<and> \<not> probe_running (rx_pcb packet rs1)
        then rx_remove_answer packet rs1 (rr_type rr) (rr_service rr)
        else Some rs1
      })"

definition rx_txt_search ::
  "mdns_rx_packet_t \<Rightarrow> u8 list \<Rightarrow> mdns_rr \<Rightarrow> nat \<Rightarrow> mdns_rx_state \<Rightarrow> mdns_rx_state option" where
  "rx_txt_search packet txt_data rr p rs = do {
     s \<leftarrow> find_search (rs_w rs) p;
     if so_type s = MDNS_TYPE_PTR then
       (case rx_search_result packet rr rs s of
          (None, rs1) \<Rightarrow> Some rs1
        | (Some k, rs1) \<Rightarrow> do {
            s1 \<leftarrow> find_search (rs_w rs1) p;
            let r = so_result s1 ! k;
            if r_txt r \<noteq> [] then Some rs1
            else do {
              (txt, w2) \<leftarrow> mdns_result_txt_create (rs_w rs1) txt_data;
              Some (rs1\<lparr>rs_w := set_search w2
                 (s1\<lparr>so_result := (so_result s1)[k := r\<lparr>r_txt := txt\<rparr>]\<rparr>)\<rparr>)
            }
          })
     else do {
       (txt, w1) \<leftarrow> mdns_result_txt_create (rs_w rs) txt_data;
       if txt = [] then Some (rs\<lparr>rs_w := w1\<rparr>)
       else let (s1, w2) = mdns_search_result_add_txt w1 s txt (rx_if packet) (rx_protocol packet)
         in Some (rs\<lparr>rs_w := set_search w2 s1\<rparr>)
     }
   }"

definition rx_txt :: "mdns_rx_packet_t \<Rightarrow> u8 list \<Rightarrow> mdns_rr \<Rightarrow> mdns_rx_state \<Rightarrow> mdns_rx_state option" where
  "rx_txt packet data rr rs = do {
     txt_data \<leftarrow> load_block data (rr_data_ptr rr) (rr_data_len rr);
     case rs_search rs of
       Some p \<Rightarrow> rx_txt_search packet txt_data rr p rs
     | None \<Rightarrow> if rr_ours rr then rx_txt_ours packet txt_data rr rs else Some rs
   }"

text \<open>The loop that adds an address to every search it answers, from \<open>search_result\<close> on.\<close>

function rx_add_ip ::
  "mdns_rx_packet_t \<Rightarrow> mdns_rr \<Rightarrow> ip_addr_t \<Rightarrow> mdns_world \<Rightarrow> mdns_search_once_t list \<Rightarrow>
   mdns_world option" where
  "rx_add_ip packet rr ip w [] = Some w"
| "rx_add_ip packet rr ip w (s # ss) =
     (let (s1, w1) = mdns_search_result_add_ip w s (n_host (rr_name rr)) ip (rx_if packet)
                       (rx_protocol packet)
      in do {
        next \<leftarrow> mdns_search_find_from ss (rr_name rr) (rr_type rr) (rx_if packet) (rx_protocol packet);
        case next of
          None \<Rightarrow> Some (set_search w1 s1)
        | Some p \<Rightarrow> rx_add_ip packet rr ip (set_search w1 s1) (dropWhile (\<lambda>t. so_ptr t \<noteq> p) ss)
      })"
  by pat_completeness auto
termination
  by (relation "measure (\<lambda>(packet, rr, ip, w, ss). length ss)")
    (auto simp: le_imp_less_Suc length_dropWhile_le)

definition rx_address_lost :: "mdns_rx_packet_t \<Rightarrow> mdns_parsed_packet_t \<Rightarrow> mdns_world \<Rightarrow> mdns_world option" where
  "rx_address_lost packet pp w =
     (let pcb = interfaces w (rx_if packet) (rx_protocol packet) in
      if probe_running pcb then
        if pp_probe pp \<or> pp_authoritative pp then
          let w1 = set_pcb w (rx_if packet) (rx_protocol packet)
                     (pcb\<lparr>failed_probes := failed_probes pcb + 1\<rparr>)
          in do {
            (host, w2) \<leftarrow> mangled w1 (hostname w1);
            mdns_restart_all_pcbs (w2\<lparr>hostname := host\<rparr>)
          }
        else Some w
      else mdns_init_pcb_probe w (rx_if packet) (rx_protocol packet) [] True)"

text \<open>The code of the AAAA and of the A branch; they differ in the address and the collision
  check.\<close>

definition rx_address ::
  "mdns_rx_packet_t \<Rightarrow> mdns_rr \<Rightarrow> ip_addr_t \<Rightarrow> (mdns_world \<Rightarrow> (int \<times> mdns_world) option) \<Rightarrow>
   mdns_rx_state \<Rightarrow> (rx_flow \<times> mdns_rx_state) option" where
  "rx_address packet rr ip check_collision rs =
     (case rs_search rs of
        Some p \<Rightarrow> do {
          w1 \<leftarrow> rx_add_ip packet rr ip (rs_w rs)
                 (dropWhile (\<lambda>t. so_ptr t \<noteq> p) (search_once (rs_w rs)));
          Some (Continue, rs\<lparr>rs_w := w1, rs_search := None\<rparr>)
        }
      | None \<Rightarrow>
          let pp = rs_pp rs in
          if \<not> rr_ours rr then Some (Continue, rs)
          else if pp_questions pp \<noteq> [] \<and> \<not> pp_probe pp
          then map_option (Pair Continue) (rx_remove_question rs (rr_type rr) None)
          else do {
            (col, w1) \<leftarrow> (if rr_clas rr > 1 then Some (1, rs_w rs)
                          else if rr_clas rr = 0 then Some (- 1, rs_w rs)
                          else check_collision (rs_w rs));
            let rs1 = rs\<lparr>rs_w := w1\<rparr>;
            if col = 2 then Some (Clear, rs1)
            else if col = 1 then do {
              w2 \<leftarrow> rx_address_lost packet pp w1;
              Some (Continue, rs1\<lparr>rs_do_not_reply := True, rs_w := w2\<rparr>)
            }
            else if rr_ttl rr > 60 \<and> col = 0 \<and> \<not> pp_authoritative pp \<and> \<not> pp_probe pp \<and>
                    pp_questions pp = [] \<and> \<not> probe_running (rx_pcb packet rs1)
            then map_option (Pair Continue) (rx_remove_answer packet rs1 (rr_type rr) None)
            else Some (Continue, rs1)
          })"

text \<open>\<open>memcpy (&(ip.u_addr.ip4.addr), data_ptr, 4)\<close> on a little-endian machine.\<close>

definition ip4_of_bytes :: "u8 list \<Rightarrow> u32" where
  "ip4_of_bytes b = push_bit 24 (ucast (b ! 3)) OR push_bit 16 (ucast (b ! 2)) OR
     push_bit 8 (ucast (b ! 1)) OR ucast (b ! 0)"

definition rx_record ::
  "mdns_rx_packet_t \<Rightarrow> u8 list \<Rightarrow> mdns_rr \<Rightarrow> mdns_rx_state \<Rightarrow> (rx_flow \<times> mdns_rx_state) option" where
  "rx_record packet data rr rs =
     (if rr_type rr = MDNS_TYPE_PTR then map_option (Pair Continue) (rx_ptr packet data rr rs)
      else if rr_type rr = MDNS_TYPE_SRV then map_option (Pair Continue) (rx_srv packet data rr rs)
      else if rr_type rr = MDNS_TYPE_TXT then map_option (Pair Continue) (rx_txt packet data rr rs)
      else if rr_type rr = MDNS_TYPE_AAAA then do {
        ip6 \<leftarrow> load_block data (rr_data_ptr rr) MDNS_ANSWER_AAAA_SIZE;
        rx_address packet rr (IP6 ip6) (\<lambda>w. mdns_check_aaaa_collision w ip6 (rx_if packet)) rs
      }
      else if rr_type rr = MDNS_TYPE_A then do {
        b \<leftarrow> load_block data (rr_data_ptr rr) 4;
        rx_address packet rr (IP4 (ip4_of_bytes b))
          (\<lambda>w. mdns_check_a_collision w (ip4_of_bytes b) (rx_if packet)) rs
      }
      else Some (Continue, rs))"

section \<open>The packet\<close>

record mdns_header_t =
  h_flags :: u16
  h_questions :: u16
  h_answers :: u16
  h_servers :: u16
  h_additional :: u16

definition mdns_record_type :: "mdns_header_t \<Rightarrow> nat \<Rightarrow> mdns_parsed_recort_type_t" where
  "mdns_record_type header recordIndex =
     (if recordIndex \<ge> unat (h_answers header) + unat (h_servers header) then MDNS_EXTRA
      else if recordIndex \<ge> unat (h_answers header) then MDNS_NS else MDNS_ANSWER)"

text \<open>Whose record it is; the first component says whether it is looked at.\<close>

definition classify_record ::
  "mdns_rx_packet_t \<Rightarrow> mdns_header_t \<Rightarrow> mdns_parsed_recort_type_t \<Rightarrow> mdns_rr \<Rightarrow> mdns_rx_state \<Rightarrow>
   (bool \<times> mdns_rr \<times> mdns_rx_state) option" where
  "classify_record packet header record_type rr rs =
     (let name = rr_name rr; w = rs_w rs in
      if rr_type rr = MDNS_TYPE_NSEC \<or> rr_type rr = MDNS_TYPE_OPT then Some (False, rr, rs)
      else if pp_discovery (rs_pp rs) \<and> mdns_name_is_discovery name (rr_type rr)
      then Some (True, rr\<lparr>rr_discovery := True\<rparr>, rs)
      else do {
        ours \<leftarrow> (if n_sub name then Some False else mdns_name_is_ours w name);
        if ours then do {
          service \<leftarrow> (if n_service name \<noteq> [] \<and> n_proto name \<noteq> []
                      then mdns_get_service_item w (n_service name) (n_proto name) else Some None);
          Some (True, rr\<lparr>rr_ours := True, rr_service := service\<rparr>, rs)
        }
        else if h_questions header \<noteq> 0 \<or> \<not> pp_authoritative (rs_pp rs) \<or> record_type = MDNS_NS
        then Some (False, rr, rs)
        else do {
          search \<leftarrow> mdns_search_find_from (search_once w) name (rr_type rr) (rx_if packet)
                      (rx_protocol packet);
          Some (True, rr, rs\<lparr>rs_search := search\<rparr>)
        }
      })"

text \<open>The loop over the records; \<open>recordIndex\<close> is a \<open>uint16_t\<close>.\<close>

function parse_records ::
  "mdns_rx_packet_t \<Rightarrow> mdns_header_t \<Rightarrow> u8 list \<Rightarrow> nat \<Rightarrow> nat \<Rightarrow> mdns_rx_state \<Rightarrow>
   (rx_flow \<times> mdns_rx_state) option" where
  "parse_records packet header data content recordIndex rs =
     (if content < length data then do {
        (next_data, name) \<leftarrow> mdns_parse_fqdn data content;
        case next_data of
          None \<Rightarrow> Some (Clear, rs)
        | Some content1 \<Rightarrow> do {
            type \<leftarrow> mdns_read_u16 data content1;
            clas \<leftarrow> mdns_read_u16 data (content1 + 2);
            ttl \<leftarrow> mdns_read_u32 data (content1 + 4);
            data_len \<leftarrow> mdns_read_u16 data (content1 + 8);
            let content2 = content1 + 10 + unat data_len;
            let rr = \<lparr>rr_name = name, rr_type = type, rr_clas = clas AND 0x7FFF, rr_ttl = ttl,
                      rr_data_ptr = content1 + 10, rr_data_len = unat data_len,
                      rr_discovery = False, rr_ours = False, rr_service = None\<rparr>;
            if content2 > length data then Some (Clear, rs)
            else do {
              (go, rr1, rs1) \<leftarrow> classify_record packet header (mdns_record_type header recordIndex) rr rs;
              (flow, rs2) \<leftarrow> (if go then rx_record packet data rr1 rs1 else Some (Continue, rs1));
              if flow = Clear then Some (Clear, rs2)
              else parse_records packet header data content2 ((recordIndex + 1) mod 65536) rs2
            }
          }
      }
      else Some (Continue, rs))"
  by pat_completeness auto
termination
  by (relation "measure (\<lambda>(packet, header, data, content, recordIndex, rs). length data - content)")
    (auto dest: parse_fqdn_offset)

declare parse_records.simps [simp del]

definition mdns_read_header :: "u8 list \<Rightarrow> mdns_header_t option" where
  "mdns_read_header data = do {
     _ \<leftarrow> mdns_read_u16 data 0;
     flags \<leftarrow> mdns_read_u16 data MDNS_HEAD_FLAGS_OFFSET;
     questions \<leftarrow> mdns_read_u16 data MDNS_HEAD_QUESTIONS_OFFSET;
     answers \<leftarrow> mdns_read_u16 data MDNS_HEAD_ANSWERS_OFFSET;
     servers \<leftarrow> mdns_read_u16 data MDNS_HEAD_SERVERS_OFFSET;
     additional \<leftarrow> mdns_read_u16 data MDNS_HEAD_ADDITIONAL_OFFSET;
     Some \<lparr>h_flags = flags, h_questions = questions, h_answers = answers, h_servers = servers,
           h_additional = additional\<rparr>
   }"

definition parsed_packet_init :: "mdns_rx_packet_t \<Rightarrow> mdns_header_t \<Rightarrow> mdns_parsed_packet_t" where
  "parsed_packet_init packet header =
     \<lparr>pp_if = rx_if packet, pp_protocol = rx_protocol packet, pp_src = rx_src packet,
      pp_src_port = rx_src_port packet, pp_multicast = rx_multicast packet,
      pp_authoritative = (h_flags header = MDNS_FLAGS_AUTHORITATIVE), pp_probe = False,
      pp_discovery = False, pp_distributed = (h_flags header = MDNS_FLAGS_DISTRIBUTED),
      pp_questions = []\<rparr>"

text \<open>The end of the function: answer, unless a conflict was lost or the name is not established.\<close>

definition rx_reply :: "mdns_rx_packet_t \<Rightarrow> mdns_rx_state \<Rightarrow> mdns_world option" where
  "rx_reply packet rs =
     (if \<not> rs_do_not_reply rs \<and> pcb_state (rx_pcb packet rs) > PCB_PROBE_3 \<and>
         (pp_questions (rs_pp rs) \<noteq> [] \<or> pp_discovery (rs_pp rs))
      then mdns_create_answer_from_parsed_packet (rs_w rs) (rs_pp rs)
      else Some (rs_w rs))"

definition mdns_parse_packet :: "mdns_world \<Rightarrow> mdns_rx_packet_t \<Rightarrow> mdns_world option" where
  "mdns_parse_packet w packet =
     (let data = rx_payload packet; (ok, w1) = malloc w in
      if \<not> ok then Some w1
      else do {
        header \<leftarrow> mdns_read_header data;
        if h_flags header = MDNS_FLAGS_AUTHORITATIVE \<and> rx_src_port packet \<noteq> MDNS_SERVICE_PORT
        then Some w1
        else if h_questions header \<noteq> 0 \<and> str_null_or_empty (hostname w1) then Some w1
        else do {
          (q, w2) \<leftarrow> parse_questions (unat (h_questions header) mod 256) data MDNS_HEAD_LEN w1
                       (parsed_packet_init packet header);
          case q of
            None \<Rightarrow> Some w2
          | Some (content, pp) \<Rightarrow>
              let rs = \<lparr>rs_w = w2, rs_pp = pp, rs_do_not_reply = False, rs_search = None\<rparr> in
              if h_questions header \<noteq> 0 \<and> pp_questions pp = [] \<and> \<not> pp_discovery pp then Some w2
              else if h_answers header \<noteq> 0 \<or> h_servers header \<noteq> 0 \<or> h_additional header \<noteq> 0
              then do {
                (flow, rs1) \<leftarrow> parse_records packet header data content 0 rs;
                if flow = Clear then Some (rs_w rs1)
                else do {
                  w3 \<leftarrow> (if pp_authoritative (rs_pp rs1) then mdns_search_finish_done (rs_w rs1)
                         else Some (rs_w rs1));
                  rx_reply packet (rs1\<lparr>rs_w := w3\<rparr>)
                }
              }
              else rx_reply packet rs
        }
      })"

section \<open>What the parser keeps\<close>

text \<open>Along the parsing of a packet the world evolves and every question that has been taken over
  from the packet can be answered.\<close>

definition rx_ok :: "mdns_world \<Rightarrow> mdns_rx_state \<Rightarrow> bool" where
  "rx_ok w0 rs \<longleftrightarrow> evolves w0 (rs_w rs) \<and>
     (length (tx_buffer w0) = MDNS_MAX_PACKET_SIZE \<longrightarrow> (\<forall>q\<in>set (pp_questions (rs_pp rs)). answerable w0 q))"

lemma rx_ok_world: "rx_ok w0 rs \<Longrightarrow> evolves w0 (rs_w rs)"
  by (simp add: rx_ok_def)

lemma rx_ok_set_world: "rx_ok w0 rs \<Longrightarrow> evolves w0 w \<Longrightarrow> rx_ok w0 (rs\<lparr>rs_w := w\<rparr>)"
  by (simp add: rx_ok_def)

lemma rx_ok_update [simp]:
  "rx_ok w0 (rs\<lparr>rs_do_not_reply := b\<rparr>) = rx_ok w0 rs" "rx_ok w0 (rs\<lparr>rs_search := p\<rparr>) = rx_ok w0 rs"
  "rx_ok w0 (rs\<lparr>rs_do_not_reply := b, rs_w := w\<rparr>) = rx_ok w0 (rs\<lparr>rs_w := w\<rparr>)"
  "rx_ok w0 (rs\<lparr>rs_w := w, rs_search := p\<rparr>) = rx_ok w0 (rs\<lparr>rs_w := w\<rparr>)"
  by (simp_all add: rx_ok_def)

lemma remove_question_subset: "remove_question w t s qs = Some qs1 \<Longrightarrow> set qs1 \<subseteq> set qs"
  by (induction qs arbitrary: qs1) (auto split: bind_splits if_splits)

lemma rx_ok_remove_question: "rx_remove_question rs t s = Some rs1 \<Longrightarrow> rx_ok w0 rs \<Longrightarrow> rx_ok w0 rs1"
  by (auto simp: rx_remove_question_def mdns_remove_parsed_question_def rx_ok_def
      split: bind_splits if_splits dest!: remove_question_subset)

lemma rx_ok_remove_answer: "rx_remove_answer p rs t s = Some rs1 \<Longrightarrow> rx_ok w0 rs \<Longrightarrow> rx_ok w0 rs1"
  by (auto simp: rx_remove_answer_def rx_ok_def split: bind_splits dest: evolves_remove_scheduled_answer)

lemma evolves_mangled: "mangled w name = Some (r, w1) \<Longrightarrow> evolves w0 w \<Longrightarrow> evolves w0 w1"
  by (auto simp: mangled_def split: bind_splits dest: evolves_mangle)

text \<open>Changing a service without its type.\<close>

lemma evolves_heap:
  assumes "evolves w w1" "srv_heap w a = Some s" "s_service t = s_service s" "s_proto t = s_proto s"
  shows "evolves w (w1\<lparr>srv_heap := (srv_heap w1)(a \<mapsto> t)\<rparr>)" (is "evolves w ?w2")
proof (rule evolves_buf)
  assume "length (tx_buffer w) = MDNS_MAX_PACKET_SIZE"
  with assms(1) have "srv_names w1 = srv_names w" by (simp add: evolves_def)
  then have "srv_names w1 a = Some (s_service t, s_proto t)"
    using assms(2-4) by (simp add: srv_names_def)
  then have "srv_names ?w2 = srv_names w1"
    by (auto simp: srv_names_def [abs_def])
  then show ?thesis
    using assms(1) by (simp add: evolves_def queue_refs_def)
qed

lemma evolves_srv_conflict:
  assumes "rx_srv_conflict packet service w = Some w'" "evolves w0 w"
  shows "evolves w0 w'"
proof (rule evolves_trans [OF assms(2)])
  obtain a s where a: "service = Some a" "srv_heap w a = Some s"
    using assms(1) by (auto simp: rx_srv_conflict_def split: bind_splits)
  show "evolves w w'"
    using assms(1) a
    by (auto simp: rx_srv_conflict_def Let_def split: bind_splits if_splits
        elim!: evolves_probe_all evolves_restart_no_instance evolves_restart_all evolves_init_pcb_probe
          evolves_pcb_send_bye evolves_mangled intro!: evolves_heap)
qed

lemma evolves_address_lost: "rx_address_lost packet pp w = Some w' \<Longrightarrow> evolves w0 w \<Longrightarrow> evolves w0 w'"
  by (auto simp: rx_address_lost_def Let_def split: bind_splits if_splits
      elim!: evolves_restart_all evolves_init_pcb_probe evolves_mangled)

lemma rx_search_result_ok:
  assumes "rx_search_result packet rr rs s = (k, rs1)" "rx_ok w0 rs" "admits w0 s"
  shows "rx_ok w0 rs1 \<and> rs_search rs1 = rs_search rs"
proof -
  obtain k2 s1 w1 where a: "mdns_search_result_add_ptr (rs_w rs) s (n_host (rr_name rr)) (rx_if packet)
      (rx_protocol packet) = (k2, s1, w1)"
    by (cases "mdns_search_result_add_ptr (rs_w rs) s (n_host (rr_name rr)) (rx_if packet) (rx_protocol packet)")
  have "evolves w0 (set_search w1 s1)"
    using ptr_result.stored [of "rs_w rs" s "n_host (rr_name rr)" "rx_if packet" "rx_protocol packet" s1 w1 w0]
      a rx_ok_world [OF assms(2)] assms(3) by simp
  then show ?thesis
    using assms(1,2) a by (auto simp: rx_search_result_def intro: rx_ok_set_world split: option.splits)
qed

lemma rx_ok_ptr:
  assumes "rx_ptr packet data rr rs = Some rs1" "rx_ok w0 rs"
  shows "rx_ok w0 rs1"
proof -
  have st: "rx_ok w0 (rs\<lparr>rs_w := set_search w1 s1\<rparr>)"
    if "mdns_search_result_add_ptr (rs_w rs) s h i j = (k, s1, w1)" "find_search (rs_w rs) p = Some s"
    for k s1 w1 s h i j p
    using ptr_result.stored_found [of "rs_w rs" s h i j s1 w1 w0 p] that rx_ok_world [OF assms(2)]
    by (intro rx_ok_set_world [OF assms(2)]) simp
  show ?thesis
    using assms st by (auto simp: rx_ptr_def Let_def split: bind_splits if_splits option.splits prod.splits
        elim: rx_ok_remove_question rx_ok_remove_answer)
qed

lemma rx_ok_srv_ours: "rx_srv_ours packet rr name p wt port rs = Some rs1 \<Longrightarrow> rx_ok w0 rs \<Longrightarrow> rx_ok w0 rs1"
  unfolding rx_srv_ours_def Let_def
  by (auto split: if_splits bind_splits elim: rx_ok_remove_question rx_ok_remove_answer
      dest: evolves_srv_conflict [OF _ rx_ok_world] intro: rx_ok_set_world)

lemma rx_ok_srv_search:
  assumes "rx_srv_search packet name port p k rs = Some rs1" "rx_ok w0 rs"
  shows "rx_ok w0 rs1"
proof -
  obtain s where s: "find_search (rs_w rs) p = Some s"
    using assms(1) by (auto simp: rx_srv_search_def split: bind_splits)
  note e = rx_ok_world [OF assms(2)] and s_ok = admits_find [OF s rx_ok_world [OF assms(2)]]
  have "rx_ok w0 (rs\<lparr>rs_w := set_search w1 (s\<lparr>so_result := (so_result s)[k := r]\<rparr>)\<rparr>)"
    if "malloc (rs_w rs) = (ok, w1)" for ok w1 k r
    using evolves_malloc [OF that e] s_ok by (simp add: rx_ok_set_world [OF assms(2)] evolves_set_search)
  moreover have "rx_ok w0 (rs\<lparr>rs_w := set_search w1 s1\<rparr>)"
    if "mdns_search_result_add_srv (rs_w rs) s h port i j = (s1, w1)" for h i j s1 w1
    using srv_result.stored [OF that e s_ok] by (rule rx_ok_set_world [OF assms(2)])
  ultimately show ?thesis
    using assms s by (auto simp: rx_srv_search_def Let_def split: if_splits bind_splits prod.splits)
qed

lemma rx_ok_srv:
  assumes "rx_srv packet data rr rs = Some rs1" "rx_ok w0 rs"
  shows "rx_ok w0 rs1"
proof -
  obtain go k rs2 where a: "(case rs_search rs of None \<Rightarrow> Some (True, None, rs)
      | Some p \<Rightarrow> find_search (rs_w rs) p \<bind> (\<lambda>s. if so_type s = MDNS_TYPE_PTR
          then (let (k, rs1) = rx_search_result packet rr rs s in Some (k \<noteq> None, k, rs1))
          else Some (True, None, rs))) = Some (go, k, rs2)"
    using assms(1) by (auto simp: rx_srv_def split: bind_splits)
  then have "rx_ok w0 rs2"
    using assms(2) rx_search_result_ok [OF _ assms(2)] admits_find [OF _ rx_ok_world [OF assms(2)]]
    by (auto split: option.splits bind_splits if_splits prod.splits)
  then show ?thesis
    using assms(1) unfolding rx_srv_def a
    by (auto split: bind_splits if_splits option.splits elim: rx_ok_srv_ours rx_ok_srv_search)
qed

lemma rx_ok_txt_ours: "rx_txt_ours packet data rr rs = Some rs1 \<Longrightarrow> rx_ok w0 rs \<Longrightarrow> rx_ok w0 rs1"
proof -
  assume run: "rx_txt_ours packet data rr rs = Some rs1" and ok: "rx_ok w0 rs"
  show ?thesis
  proof (cases "pp_questions (rs_pp rs) \<noteq> [] \<and> \<not> pp_probe (rs_pp rs)")
    case True
    with run ok show ?thesis by (auto simp: rx_txt_ours_def Let_def elim: rx_ok_remove_question)
  next
    case False
    with run obtain c w1 where c: "(if rr_clas rr > 1 then Some (1, rs_w rs) else if rr_clas rr = 0 then Some (- 1, rs_w rs)
        else case rr_service rr of None \<Rightarrow> Some (0, rs_w rs)
          | Some a \<Rightarrow> srv_heap (rs_w rs) a \<bind> (\<lambda>s. mdns_check_txt_collision (rs_w rs) s data)) = Some (c, w1)"
      by (auto simp: rx_txt_ours_def Let_def split: bind_splits)
    then have "evolves w0 w1"
      using rx_ok_world [OF ok] by (auto split: if_splits option.splits bind_splits dest: evolves_txt_collision)
    then have "rx_ok w0 (rs\<lparr>rs_w := w1\<rparr>)" "\<And>w2. evolves w0 w2 \<Longrightarrow> rx_ok w0 (rs\<lparr>rs_w := w2\<rparr>)"
      using rx_ok_set_world [OF ok] by blast+
    with run False \<open>evolves w0 w1\<close> show ?thesis
      unfolding rx_txt_ours_def Let_def c
      by (auto split: if_splits bind_splits elim: rx_ok_remove_answer dest: evolves_init_pcb_probe)
  qed
qed

lemma rx_ok_txt_search:
  assumes "rx_txt_search packet data rr p rs = Some rs1" "rx_ok w0 rs"
  shows "rx_ok w0 rs1"
proof -
  obtain s where s: "find_search (rs_w rs) p = Some s"
    using assms(1) by (auto simp: rx_txt_search_def split: bind_splits)
  note e = rx_ok_world [OF assms(2)]
  note s_ok = admits_find [OF s e]
  show ?thesis
  proof (cases "so_type s = MDNS_TYPE_PTR")
    case True
    obtain k rs2 where r: "rx_search_result packet rr rs s = (k, rs2)"
      by (cases "rx_search_result packet rr rs s")
    then have rs2: "rx_ok w0 rs2"
      using rx_search_result_ok assms(2) s_ok by blast
    have "rx_ok w0 (rs2\<lparr>rs_w := set_search w2 (s1\<lparr>so_result := (so_result s1)[n := r]\<rparr>)\<rparr>)"
      if "mdns_result_txt_create (rs_w rs2) data = Some (items, w2)" "find_search (rs_w rs2) p = Some s1"
      for items w2 s1 n r
      using evolves_result_txt [OF that(1) rx_ok_world [OF rs2]] admits_find [OF that(2) rx_ok_world [OF rs2]]
      by (simp add: rx_ok_set_world [OF rs2] evolves_set_search)
    then show ?thesis
      using assms(1) True s r rs2
      by (auto simp: rx_txt_search_def Let_def split: bind_splits if_splits option.splits prod.splits)
  next
    case False
    have "rx_ok w0 (rs\<lparr>rs_w := set_search w2 s1\<rparr>)"
      if "mdns_result_txt_create (rs_w rs) data = Some (items, w1)"
        "mdns_search_result_add_txt w1 s items i j = (s1, w2)" for items w1 i j s1 w2
      using txt_result.stored [OF that(2) evolves_result_txt [OF that(1) e] s_ok]
      by (rule rx_ok_set_world [OF assms(2)])
    then show ?thesis
      using assms(1) False s rx_ok_set_world [OF assms(2) evolves_result_txt [OF _ e]]
      by (auto simp: rx_txt_search_def Let_def split: bind_splits if_splits prod.splits)
  qed
qed

lemma rx_ok_txt: "rx_txt packet data rr rs = Some rs1 \<Longrightarrow> rx_ok w0 rs \<Longrightarrow> rx_ok w0 rs1"
  by (auto simp: rx_txt_def split: bind_splits option.splits if_splits elim: rx_ok_txt_ours rx_ok_txt_search)

lemma evolves_rx_add_ip:
  "rx_add_ip packet rr ip w ss = Some w' \<Longrightarrow> evolves w0 w \<Longrightarrow> \<forall>s\<in>set ss. admits w0 s \<Longrightarrow> evolves w0 w'"
proof (induction packet rr ip w ss rule: rx_add_ip.induct)
  case (2 packet rr ip w s ss)
  obtain s1 w1 where a: "mdns_search_result_add_ip w s (n_host (rr_name rr)) ip (rx_if packet) (rx_protocol packet) = (s1, w1)"
    by (cases "mdns_search_result_add_ip w s (n_host (rr_name rr)) ip (rx_if packet) (rx_protocol packet)")
  have st: "evolves w0 (set_search w1 s1)"
    using ip_result.stored [OF a 2(3)] 2(4) by simp
  have rest: "\<forall>t\<in>set (dropWhile P ss). admits w0 t" for P
    using 2(4) by (auto dest: set_dropWhileD)
  show ?case
    using 2(1) [OF a [symmetric]] 2(2) a st rest
    by (auto split: bind_splits option.splits)
qed simp

lemma rx_ok_address:
  assumes "rx_address packet rr ip check rs = Some (fl, rs1)" "rx_ok w0 rs"
    and check: "\<And>w c w1. check w = Some (c, w1) \<Longrightarrow> evolves w0 w \<Longrightarrow> evolves w0 w1"
  shows "rx_ok w0 rs1"
proof (cases "rs_search rs")
  case (Some p)
  note e = rx_ok_world [OF assms(2)]
  have "\<forall>s\<in>set (dropWhile (\<lambda>t. so_ptr t \<noteq> p) (search_once (rs_w rs))). admits w0 s"
    using admits_mem [OF e] by (auto dest: set_dropWhileD)
  with assms(1) Some show ?thesis
    using evolves_rx_add_ip [OF _ e] rx_ok_set_world [OF assms(2)]
    by (auto simp: rx_address_def split: bind_splits)
next
  case None
  show ?thesis
  proof (cases "\<not> rr_ours rr \<or> pp_questions (rs_pp rs) \<noteq> [] \<and> \<not> pp_probe (rs_pp rs)")
    case True
    with None assms show ?thesis
      by (auto simp: rx_address_def Let_def split: if_splits elim: rx_ok_remove_question)
  next
    case False
    with assms(1) None obtain c w1 where c: "(if rr_clas rr > 1 then Some (1, rs_w rs)
        else if rr_clas rr = 0 then Some (- 1, rs_w rs) else check (rs_w rs)) = Some (c, w1)"
      by (auto simp: rx_address_def Let_def split: bind_splits)
    then have "evolves w0 w1"
      using rx_ok_world [OF assms(2)] by (auto split: if_splits dest: check)
    then have "rx_ok w0 (rs\<lparr>rs_w := w1\<rparr>)" "\<And>w2. evolves w0 w2 \<Longrightarrow> rx_ok w0 (rs\<lparr>rs_w := w2\<rparr>)"
      using rx_ok_set_world [OF assms(2)] by blast+
    with assms(1) None False \<open>evolves w0 w1\<close> show ?thesis
      unfolding rx_address_def Let_def
      by (auto simp: c split: if_splits bind_splits elim: rx_ok_remove_answer dest: evolves_address_lost)
  qed
qed

lemma rx_ok_record: "rx_record packet data rr rs = Some (fl, rs1) \<Longrightarrow> rx_ok w0 rs \<Longrightarrow> rx_ok w0 rs1"
  by (auto simp: rx_record_def split: if_splits bind_splits elim: rx_ok_ptr rx_ok_srv rx_ok_txt
      elim!: rx_ok_address dest: evolves_a_collision evolves_aaaa_collision)

lemma rx_ok_classify:
  "classify_record packet header t rr rs = Some (go, rr1, rs1) \<Longrightarrow> rx_ok w0 rs \<Longrightarrow> rx_ok w0 rs1"
  unfolding classify_record_def Let_def by (auto split: if_splits bind_splits)

text \<open>One round of the loop over the records.\<close>

lemma parse_recordsE:
  assumes "parse_records packet header data content n rs = Some (fl, rs1)"
  obtains (stop) "rs1 = rs"
  | (round) t rr go rr1 rs2 fl2 rs3 where "classify_record packet header t rr rs = Some (go, rr1, rs2)"
      "(if go then rx_record packet data rr1 rs2 else Some (Continue, rs2)) = Some (fl2, rs3)"
      "(fl2 = Clear \<and> rs1 = rs3) \<or> (\<exists>content2 m. content < content2 \<and> content < length data \<and>
         parse_records packet header data content2 m rs3 = Some (fl, rs1))"
proof (cases "content < length data")
  case False
  with assms stop show ?thesis by (subst (asm) parse_records.simps) simp
next
  case True
  then obtain next_data name where name: "mdns_parse_fqdn data content = Some (next_data, name)"
    using assms by (subst (asm) parse_records.simps) (auto split: bind_splits)
  show ?thesis
  proof (cases next_data)
    case None
    with assms True name stop show ?thesis by (subst (asm) parse_records.simps) simp
  next
    case (Some c)
    note run = assms [unfolded parse_records.simps [of packet header data content] Let_def, simplified True name Some, simplified]
    from run obtain ty cl ttl len where f: "mdns_read_u16 data c = Some ty" "mdns_read_u16 data (Suc (Suc c)) = Some cl"
      "mdns_read_u32 data (c + 4) = Some ttl" "mdns_read_u16 data (c + 8) = Some len"
      by (auto split: bind_splits)
    let ?rr = "\<lparr>rr_name = name, rr_type = ty, rr_clas = cl AND 0x7FFF, rr_ttl = ttl, rr_data_ptr = c + 10,
      rr_data_len = unat len, rr_discovery = False, rr_ours = False, rr_service = None\<rparr>"
    let ?t = "mdns_record_type header n"
    show ?thesis
    proof (cases "length data < c + 10 + unat len")
      case True
      with run f stop show ?thesis by simp
    next
      case False
      with run f obtain go rr1 rs2 where cl: "classify_record packet header ?t ?rr rs = Some (go, rr1, rs2)"
        by (auto split: bind_splits)
      from run f False cl obtain fl2 rs3 where
        rec: "(if go then rx_record packet data rr1 rs2 else Some (Continue, rs2)) = Some (fl2, rs3)"
        by (auto split: bind_splits)
      have "fl2 = Clear \<and> rs1 = rs3 \<or> parse_records packet header data (c + 10 + unat len) ((n + 1) mod 65536) rs3 = Some (fl, rs1)"
        using run f False cl rec by (auto split: if_splits)
      then show ?thesis
        using round [OF cl rec] parse_fqdn_offset(1) [OF name [unfolded Some]] \<open>content < length data\<close>
        by (meson trans_less_add1)
    qed
  qed
qed

lemma rx_ok_records:
  "parse_records packet header data content n rs = Some (fl, rs1) \<Longrightarrow> rx_ok w0 rs \<Longrightarrow> rx_ok w0 rs1"
proof (induction "length data - content" arbitrary: content n rs rule: less_induct)
  case less
  from less.prems(1) show ?case
  proof (cases rule: parse_recordsE)
    case stop
    with less.prems(2) show ?thesis by simp
  next
    case (round t rr go rr1 rs2 fl2 rs3)
    then have "rx_ok w0 rs3"
      using rx_ok_classify [OF round(1) less.prems(2)] by (auto split: if_splits elim: rx_ok_record)
    with round(3) show ?thesis
      using less.hyps [OF diff_less_mono2] by blast
  qed
qed

text \<open>Every question that is taken over from a packet names a registered service, or none.\<close>

lemma service_item_from_own:
  "set as \<subseteq> dom (srv_heap w) \<Longrightarrow> a \<in> set as \<Longrightarrow> srv_heap w a = Some s \<Longrightarrow>
   \<exists>b. service_item_from w (snd (s_service s)) (snd (s_proto s)) as = Some (Some b)"
  by (induction as) auto

lemma evolves_discovery_questions:
  "discovery_questions w u as qs = Some (r, w1) \<Longrightarrow> evolves w0 w \<Longrightarrow> evolves w0 w1"
proof (induction as arbitrary: w qs)
  case (Cons a as)
  obtain ok w2 ok1 w3 ok2 w4 ok3 w5 where m: "malloc w = (ok, w2)" "malloc w2 = (ok1, w3)"
    "malloc w3 = (ok2, w4)" "malloc w4 = (ok3, w5)"
    by (metis surj_pair)
  have "evolves w0 w2" "evolves w0 w5"
    using m Cons.prems(2) by (blast dest: evolves_malloc)+
  with Cons.prems(1) m Cons.IH [of w5] show ?case
    by (auto simp: Let_def split: if_splits bind_splits)
qed simp

lemma discovery_questions_step:
  assumes "discovery_questions w u (a # as) qs = Some (r, w1)" "malloc w = (ok, w2)" "malloc w2 = (ok1, w3)"
    "malloc w3 = (ok2, w4)" "malloc w4 = (ok3, w5)"
  shows "r = None \<or> (\<exists>s. srv_heap w a = Some s \<and>
    discovery_questions w5 u as (\<lparr>pq_type = MDNS_TYPE_SDPTR, pq_unicast = u, pq_host = None,
      pq_service = Some (snd (s_service s)), pq_proto = Some (snd (s_proto s)),
      pq_domain = Some MDNS_DEFAULT_DOMAIN\<rparr> # qs) = Some (r, w1))"
proof (cases ok)
  case True
  have "srv_heap w2 = srv_heap w" using malloc_srv_heap [OF assms(2)] .
  with assms True show ?thesis
    by (cases "srv_heap w a") (auto simp: Let_def split: if_splits simp del: malloc_srv_heap)
qed (use assms in simp)

lemma discovery_questions_Some:
  "discovery_questions w u as qs = Some (Some qs1, w1) \<Longrightarrow>
   set as \<subseteq> dom (srv_heap w) \<and> (\<forall>q\<in>set qs1. q \<in> set qs \<or>
     (\<exists>a\<in>set as. \<exists>s. srv_heap w a = Some s \<and> pq_service q = Some (snd (s_service s)) \<and> pq_proto q = Some (snd (s_proto s))))"
proof (induction as arbitrary: w qs)
  case (Cons a as)
  obtain ok w2 ok1 w3 ok2 w4 ok3 w5 where m: "malloc w = (ok, w2)" "malloc w2 = (ok1, w3)"
    "malloc w3 = (ok2, w4)" "malloc w4 = (ok3, w5)"
    by (metis surj_pair)
  from discovery_questions_step [OF Cons.prems m] obtain s where s: "srv_heap w a = Some s" and
    run: "discovery_questions w5 u as (\<lparr>pq_type = MDNS_TYPE_SDPTR, pq_unicast = u, pq_host = None,
      pq_service = Some (snd (s_service s)), pq_proto = Some (snd (s_proto s)),
      pq_domain = Some MDNS_DEFAULT_DOMAIN\<rparr> # qs) = Some (Some qs1, w1)"
    by blast
  have "srv_heap w5 = srv_heap w"
    using m [THEN malloc_srv_heap] by simp
  with Cons.IH [OF run] s show ?case by auto
qed simp

lemma strdup_check_Some:
  "mdns_strdup_check w s = (ok, r, w1) \<Longrightarrow> (ok \<longrightarrow> r = (if s = [] then None else Some s)) \<and> (evolves w0 w \<longrightarrow> evolves w0 w1)"
  by (auto simp: mdns_strdup_check_def split: if_splits prod.splits dest: evolves_malloc)

lemma name_question_Some:
  assumes "name_question w name t u = (r, w1)"
  shows "evolves w0 w \<longrightarrow> evolves w0 w1"
    "r = Some q \<longrightarrow> pq_service q = (if n_service name = [] then None else Some (n_service name)) \<and>
      pq_proto q = (if n_proto name = [] then None else Some (n_proto name))"
proof -
  obtain ok w2 ok1 h w3 ok2 sv w4 ok3 pr w5 ok4 dm w6 where m: "malloc w = (ok, w2)"
    "mdns_strdup_check w2 (n_host name) = (ok1, h, w3)" "mdns_strdup_check w3 (n_service name) = (ok2, sv, w4)"
    "mdns_strdup_check w4 (n_proto name) = (ok3, pr, w5)" "mdns_strdup_check w5 (n_domain name) = (ok4, dm, w6)"
    by (metis prod_cases3 surj_pair)
  have e: "evolves w0 w \<Longrightarrow> evolves w0 w2" "evolves w0 w2 \<Longrightarrow> evolves w0 w3" "evolves w0 w3 \<Longrightarrow> evolves w0 w4"
    "evolves w0 w4 \<Longrightarrow> evolves w0 w5" "evolves w0 w5 \<Longrightarrow> evolves w0 w6"
    using evolves_malloc [OF m(1)] m(2-5) [THEN strdup_check_Some] by blast+
  have v: "ok2 \<Longrightarrow> sv = (if n_service name = [] then None else Some (n_service name))"
    "ok3 \<Longrightarrow> pr = (if n_proto name = [] then None else Some (n_proto name))"
    using m(3,4) [THEN strdup_check_Some] by blast+
  note run = assms [unfolded name_question_def m Let_def prod.case]
  show "evolves w0 w \<longrightarrow> evolves w0 w1"
    using run e by (cases ok; cases ok1; cases ok2; cases ok3; cases ok4) simp_all
  show "r = Some q \<longrightarrow> pq_service q = (if n_service name = [] then None else Some (n_service name)) \<and>
      pq_proto q = (if n_proto name = [] then None else Some (n_proto name))"
    using run v by (cases ok; cases ok1; cases ok2; cases ok3; cases ok4) auto
qed
lemma parse_question_ok:
  assumes "parse_question w pp name t u = Some (r, w1)"
  shows "evolves w w1 \<and> (\<forall>pp1. r = Some pp1 \<longrightarrow> (\<forall>q\<in>set (pp_questions pp1). q \<in> set (pp_questions pp) \<or> answerable w q))"
proof (cases "mdns_name_is_discovery name t")
  case True
  with assms obtain qs where d: "discovery_questions w u (services w) (pp_questions pp) = Some (qs, w1)"
    "r = map_option (\<lambda>qs. pp\<lparr>pp_discovery := True, pp_questions := qs\<rparr>) qs"
    by (auto simp: parse_question_def split: bind_splits)
  have "answerable w q" if qs1: "qs \<noteq> None" and q: "q \<in> set (the qs)" "q \<notin> set (pp_questions pp)" for q
  proof -
    obtain a s where "set (services w) \<subseteq> dom (srv_heap w)" "a \<in> set (services w)" "srv_heap w a = Some s"
      "pq_service q = Some (snd (s_service s))" "pq_proto q = Some (snd (s_proto s))"
      using discovery_questions_Some [of w u "services w" "pp_questions pp" "the qs" w1] d(1) qs1 q by auto
    with service_item_from_own [of "services w" w a s] show ?thesis
      by (auto simp: answerable_def question_service_def mdns_get_service_item_def)
  qed
  with d(2) evolves_discovery_questions [OF d(1) evolves_refl] show ?thesis by (cases qs) auto
next
  case False
  with assms consider "r = Some pp" "w1 = w" | q where "mdns_name_is_ours w name = Some True"
      "name_question w name t u = (q, w1)" "r = map_option (\<lambda>q. pp\<lparr>pp_probe := pp_probe pp \<or> t = MDNS_TYPE_ANY \<and> n_host name \<noteq> [],
         pp_questions := q # pp_questions pp\<rparr>) q"
    by (auto simp: parse_question_def Let_def split: if_splits bind_splits prod.splits)
  then show ?thesis
  proof cases
    case (2 q)
    have "answerable w q1" if q1: "q = Some q1" for q1
    proof (cases "n_service name = [] \<or> n_proto name = []")
      case True
      with name_question_Some(2) [OF 2(2), of q1] q1 show ?thesis
        by (auto simp: answerable_def question_service_def)
    next
      case False
      obtain a where "mdns_get_service_item w (n_service name) (n_proto name) = Some (Some a)"
        by (rule name_is_ours_item [OF 2(1)]) (use False in auto)
      with False name_question_Some(2) [OF 2(2), of q1] q1 show ?thesis
        by (auto simp: answerable_def question_service_def)
    qed
    with 2 name_question_Some(1) [OF 2(2), of w] show ?thesis by auto
  qed simp
qed

lemma parse_questions_ok:
  "parse_questions n data content w pp = Some (r, w1) \<Longrightarrow>
   evolves w w1 \<and> (length (tx_buffer w) = MDNS_MAX_PACKET_SIZE \<longrightarrow> (\<forall>c pp1. r = Some (c, pp1) \<longrightarrow>
     (\<forall>q\<in>set (pp_questions pp1). q \<in> set (pp_questions pp) \<or> answerable w q)))"
proof (induction n arbitrary: content w pp)
  case (Suc n)
  from Suc.prems obtain nd name where nd: "mdns_parse_fqdn data content = Some (nd, name)"
    by (auto split: bind_splits)
  show ?case
  proof (cases nd)
    case None
    with Suc.prems nd show ?thesis by auto
  next
    case (Some c)
    with Suc.prems nd consider (skip) "parse_questions n data (c + 4) w pp = Some (r, w1)"
      | (stop) t u where "parse_question w pp name t u = Some (None, w1)" "r = None"
      | (add) t u pp1 w2 where "parse_question w pp name t u = Some (Some pp1, w2)"
        "parse_questions n data (c + 4) w2 pp1 = Some (r, w1)"
      by (auto split: bind_splits if_splits option.splits)
    then show ?thesis
    proof cases
      case skip
      from Suc.IH [OF this] show ?thesis .
    next
      case stop
      with parse_question_ok [OF stop(1)] show ?thesis by auto
    next
      case (add t u pp1 w2)
      note q = parse_question_ok [OF add(1)] and r = Suc.IH [OF add(2)]
      have buf: "length (tx_buffer w) = MDNS_MAX_PACKET_SIZE \<Longrightarrow> length (tx_buffer w2) = MDNS_MAX_PACKET_SIZE"
        using q by (simp add: evolves_def)
      have "evolves w w1" using q r evolves_trans by blast
      moreover have "q1 \<in> set (pp_questions pp) \<or> answerable w q1"
        if "length (tx_buffer w) = MDNS_MAX_PACKET_SIZE" "r = Some (c1, pp2)" "q1 \<in> set (pp_questions pp2)" for c1 pp2 q1
        using that r q buf answerable_evolves [of w w2 q1] by blast
      ultimately show ?thesis by blast
    qed
  qed
qed auto

lemma rx_ok_start:
  assumes "parse_questions n data content w (parsed_packet_init packet header) = Some (Some (c, pp), w1)"
  shows "rx_ok w \<lparr>rs_w = w1, rs_pp = pp, rs_do_not_reply = False, rs_search = None\<rparr>"
  using parse_questions_ok [OF assms] by (auto simp: rx_ok_def parsed_packet_init_def)

lemma evolves_reply: "rx_reply packet rs = Some w' \<Longrightarrow> rx_ok w0 rs \<Longrightarrow> evolves w0 w'"
  by (auto simp: rx_reply_def split: if_splits dest!: rx_ok_world evolves_create_answer intro: evolves_trans)

lemma evolves_parse_packet:
  assumes "mdns_parse_packet w packet = Some w'" "evolves w0 w"
  shows "evolves w0 w'"
proof (rule evolves_trans [OF assms(2)])
  obtain ok w1 where m: "malloc w = (ok, w1)" by (cases "malloc w")
  have w1: "evolves w w1" by (rule evolves_malloc [OF m]) simp
  note run = assms(1) [unfolded mdns_parse_packet_def Let_def m prod.case]
  show "evolves w w'"
  proof (cases "w' = w1")
    case False
    with run obtain header r w2 where h: "mdns_read_header (rx_payload packet) = Some header" and
      qs: "parse_questions (unat (h_questions header) mod 256) (rx_payload packet) MDNS_HEAD_LEN w1
        (parsed_packet_init packet header) = Some (r, w2)"
      by (auto split: if_splits bind_splits)
    note w2 = parse_questions_ok [OF qs, THEN conjunct1]
    have "evolves w1 w'"
    proof (cases r)
      case None
      with run False h qs w2 show ?thesis by (auto split: if_splits)
    next
      case (Some cpp)
      obtain c pp where r: "r = Some (c, pp)" using Some by (cases cpp) simp
      let ?rs = "\<lparr>rs_w = w2, rs_pp = pp, rs_do_not_reply = False, rs_search = None\<rparr>"
      have start: "rx_ok w1 ?rs" by (rule rx_ok_start [OF qs [unfolded r]])
      have tail: "(if h_questions header \<noteq> 0 \<and> pp_questions pp = [] \<and> \<not> pp_discovery pp then Some w2
        else if h_answers header \<noteq> 0 \<or> h_servers header \<noteq> 0 \<or> h_additional header \<noteq> 0
        then parse_records packet header (rx_payload packet) c 0 ?rs \<bind> (\<lambda>(flow, rs1).
          if flow = Clear then Some (rs_w rs1)
          else (if pp_authoritative (rs_pp rs1) then mdns_search_finish_done (rs_w rs1) else Some (rs_w rs1)) \<bind>
            (\<lambda>w3. rx_reply packet (rs1\<lparr>rs_w := w3\<rparr>)))
        else rx_reply packet ?rs) = Some w'"
        using run False h qs r by (simp only: if_True if_False option.case prod.case bind.bind_lunit split: if_splits)
          (simp_all only: option.inject simp_thms)
      show ?thesis
      proof (cases "parse_records packet header (rx_payload packet) c 0 ?rs")
        case None
        with tail w2 evolves_reply [OF _ start] show ?thesis by (auto split: if_splits)
      next
        case recs: (Some frs)
        obtain fl rs1 where frs: "frs = (fl, rs1)" by (cases frs)
        have ok: "rx_ok w1 rs1" by (rule rx_ok_records [OF recs [unfolded frs] start])
        note e = rx_ok_world [OF ok]
        have "rx_ok w1 (rs1\<lparr>rs_w := w3\<rparr>)" if "mdns_search_finish_done (rs_w rs1) = Some w3" for w3
          by (rule rx_ok_set_world [OF ok evolves_finish_done [OF that e]])
        moreover have "rx_ok w1 (rs1\<lparr>rs_w := rs_w rs1\<rparr>)" by (rule rx_ok_set_world [OF ok e])
        ultimately show ?thesis
          using tail w2 e evolves_reply [OF _ start] unfolding recs frs
          by (auto simp del: rx_ok_update split: if_splits elim!: bind_SomeE intro: evolves_reply)
      qed
    qed
    with w1 show ?thesis by (rule evolves_trans)
  qed (use w1 in simp)
qed

text \<open>C4: the answer to a received packet is always completed. Whatever the packet holds, every question
  that the parser keeps names a registered service or none, also after the records of the packet have
  been processed; so the loop over the questions in
  \<^verbatim>\<open>_mdns_create_answer_from_parsed_packet\<close>, which goes round for ever on a question for a service
  that is not registered, ends.\<close>

theorem parse_packet_answer_ends:
  assumes "length (tx_buffer w) = MDNS_MAX_PACKET_SIZE"
    "parse_questions n data content w (parsed_packet_init packet header) = Some (Some (c, pp), w1)"
    "parse_records packet header data c 0 \<lparr>rs_w = w1, rs_pp = pp, rs_do_not_reply = False, rs_search = None\<rparr> =
       Some (flow, rs)"
    "evolves (rs_w rs) w2"
  shows "answer_questions w2 send_flush probe (pp_questions (rs_pp rs)) p unicast shared \<noteq> None"
proof -
  have "rx_ok w rs"
    by (rule rx_ok_records [OF assms(3) rx_ok_start [OF assms(2)]])
  then have e: "evolves w w2" and q: "\<forall>q\<in>set (pp_questions (rs_pp rs)). answerable w q"
    using assms(1,4) evolves_trans by (auto simp: rx_ok_def)
  have "length (tx_buffer w2) = MDNS_MAX_PACKET_SIZE"
    using e assms(1) by (simp add: evolves_def)
  moreover have "\<forall>q\<in>set (pp_questions (rs_pp rs)). answerable w2 q"
    using q answerable_evolves [OF e assms(1)] by blast
  ultimately show ?thesis by (intro answer_questions_returns)
qed

text \<open>The packet of the witness asks for the service of the demo configuration.\<close>

definition demo_query :: "u8 list" where
  "demo_query = [0, 0, 0, 0, 0, 1, 0, 0, 0, 0, 0, 0, 5] @ lit ''_http'' @ [4] @ lit ''_tcp'' @ [5] @ lit ''local'' @
     [0, 0, 12, 0, 1]"

lemma demo_query_parsed:
  "mdns_parse_fqdn demo_query 12 = Some (Some 30, \<lparr>n_host = [], n_service = lit ''_http'', n_proto = lit ''_tcp'',
     n_domain = lit ''local'', n_parts = 3, n_sub = False, n_invalid = False\<rparr>)"
  by (simp cong: eval_congs add: eval_simps mdns_parse_fqdn_def name_format_def demo_query_def del: One_nat_def)

definition demo_rx :: mdns_rx_packet_t where
  "demo_rx = \<lparr>rx_if = TCPIP_ADAPTER_IF_STA, rx_protocol = MDNS_IP_PROTOCOL_V4, rx_payload = demo_query,
     rx_src = IP4 0x0304A8C0, rx_dest = IP4 0xFB0000E0, rx_src_port = MDNS_SERVICE_PORT, rx_multicast = True\<rparr>"

definition demo_header :: mdns_header_t where
  "demo_header = \<lparr>h_flags = 0, h_questions = 1, h_answers = 0, h_servers = 0, h_additional = 0\<rparr>"

lemma demo_query_questions:
  "parse_questions 1 demo_query 12 demo_world (parsed_packet_init demo_rx demo_header) =
     Some (Some (34, (parsed_packet_init demo_rx demo_header)\<lparr>pp_questions :=
       [\<lparr>pq_type = MDNS_TYPE_PTR, pq_unicast = False, pq_host = None, pq_service = Some (lit ''_http''),
         pq_proto = Some (lit ''_tcp''), pq_domain = Some (lit ''local'')\<rparr>]\<rparr>), demo_world)"
proof -
  have [simp]: "malloc demo_world = (True, demo_world)" by (simp add: malloc_def)
  have [simp]: "mdns_read_u16 demo_query 30 = Some 12" "mdns_read_u16 demo_query 32 = Some 1" "length demo_query = 34"
    by (simp_all cong: eval_congs add: eval_simps mdns_read_u16_def demo_query_def del: One_nat_def)
  have [simp]: "lit ''_http'' \<noteq> []" "lit ''_tcp'' \<noteq> []" "lit ''local'' \<noteq> []" by (simp_all add: lit_def)
  show ?thesis
    by (simp cong: eval_congs add: demo_query_parsed parse_question_def mdns_name_is_discovery_def mdns_name_is_ours_def
        mdns_get_service_item_def demo_service_def name_question_def mdns_strdup_check_def MDNS_DEFAULT_DOMAIN_def
        parsed_packet_init_def)
qed

theorem parse_packet_answer_ends_witness:
  "answer_questions demo_world True False [\<lparr>pq_type = MDNS_TYPE_PTR, pq_unicast = False, pq_host = None,
     pq_service = Some (lit ''_http''), pq_proto = Some (lit ''_tcp''), pq_domain = Some (lit ''local'')\<rparr>]
     demo_packet False False \<noteq> None"
proof -
  have "length demo_query = 34" by (simp add: demo_query_def)
  then have "parse_records demo_rx demo_header demo_query 34 0 rs = Some (Continue, rs)" for rs
    by (subst parse_records.simps) simp
  from parse_packet_answer_ends [OF _ demo_query_questions this, of demo_world True False demo_packet False False]
  show ?thesis by simp
qed

lemma alloc_answers_script:
  "alloc_script w = [] \<Longrightarrow> alloc_answers w d rs = (ok, d1, w1) \<Longrightarrow> ok \<and> alloc_script w1 = []"
  by (induction w d rs rule: alloc_answers.induct)
    (auto split: prod.splits bool.splits dest: alloc_answer_ok)

lemma add_answers_script:
  assumes "alloc_script w = []"
  shows "fst (add_answers w p rs)" "alloc_script (snd (snd (add_answers w p rs))) = []"
    "fst (add_additional w p rs)" "alloc_script (snd (snd (add_additional w p rs))) = []"
  by (auto simp: add_answers_def add_additional_def split: prod.splits dest: alloc_answers_script [OF assms])

lemma answer_question_script:
  assumes "alloc_script w = []" "answer_question w f pr q s p sh = (ok, p1, sh1, w1)"
  shows "ok \<and> alloc_script w1 = []"
proof -
  have "fst (answer_question w f pr q s p sh) \<and> alloc_script (snd (snd (snd (answer_question w f pr q s p sh)))) = []"
    by (cases s) (simp_all add: answer_question_def Let_def case_prod_beta add_answers_script assms(1))
  with assms(2) show ?thesis by simp
qed

text \<open>C33: when no allocation fails, the loop over the questions ends if and only if every question
  is answerable: it names a service that is registered, or none. On any other list the loop never gets
  past the first question that is not, because it executes \<open>continue\<close> without advancing.\<close>

theorem answer_questions_ends_iff:
  assumes "alloc_script w = []" "length (tx_buffer w) = MDNS_MAX_PACKET_SIZE"
  shows "answer_questions w send_flush probe qs p unicast shared \<noteq> None \<longleftrightarrow> (\<forall>q\<in>set qs. answerable w q)"
  using assms
proof (induction qs arbitrary: w p unicast shared)
  case Nil
  then show ?case by (simp add: answer_questions_Nil)
next
  case (Cons q qs)
  show ?case
  proof (cases "answerable w q")
    case False
    then show ?thesis by (simp add: answer_questions_stuck)
  next
    case True
    then obtain found where f: "question_service w q = Some found" "found \<noteq> (True, None)"
      by (auto simp: answerable_def)
    obtain ok p2 sh2 w2 where a: "answer_question w send_flush probe q (snd found) p shared = (ok, p2, sh2, w2)"
      by (cases "answer_question w send_flush probe q (snd found) p shared")
    have w2: "evolves w w2" using answer_question_Some [OF a] by simp
    moreover have ok: "ok" "alloc_script w2 = []" using answer_question_script [OF Cons.prems(1) a] by auto
    ultimately have "answer_questions w2 send_flush probe qs p2 (unicast \<or> pq_unicast q) sh2 \<noteq> None \<longleftrightarrow>
        (\<forall>q\<in>set qs. answerable w2 q)"
      using Cons.prems(2) by (intro Cons.IH) (auto simp: evolves_def)
    then show ?thesis
      using True ok a f answerable_evolves [OF w2 Cons.prems(2)]
      by (simp add: answer_questions_answerable del: not_None_eq)
  qed
qed

theorem answer_questions_ends_iff_witness:
  "answer_questions demo_world True False [\<lparr>pq_type = MDNS_TYPE_SRV, pq_unicast = False, pq_host = None,
     pq_service = Some (lit ''_ftp''), pq_proto = Some (lit ''_tcp''), pq_domain = Some (lit ''local'')\<rparr>]
     demo_packet False False = None"
  (is "answer_questions _ _ _ ?qs _ _ _ = None")
  using answer_questions_ends_iff [of demo_world True False ?qs demo_packet False False]
  by (auto simp: answerable_def question_service_def mdns_get_service_item_def demo_service_def strcaseeq_def
      tolower_def lit_def of_char_def simp del: not_None_eq)

end
