(* ===== verification/Mdns_Action.thy ===== *)
theory Mdns_Action
  imports Mdns_Parse
begin

text \<open>
  The service task and its queue of actions: \<^verbatim>\<open>_mdns_execute_action\<close>, \<^verbatim>\<open>_mdns_send_search_action\<close>,
  \<^verbatim>\<open>_mdns_send_rx_action\<close>, \<^verbatim>\<open>_mdns_scheduler_run\<close>, \<^verbatim>\<open>_mdns_search_run\<close>, \<^verbatim>\<open>_mdns_timer_cb\<close>,
  \<^verbatim>\<open>event_handler\<close> and the body of \<^verbatim>\<open>_mdns_service_task\<close> of \<^verbatim>\<open>src/src/mdns.c\<close>, and the receive
  callback \<^verbatim>\<open>_udp_recv\<close> of \<^verbatim>\<open>src/src/mdns_networking.c\<close>.
\<close>

section \<open>The action queue\<close>

text \<open>\<open>xQueueSend (_mdns_server->action_queue, &action, 0)\<close>.\<close>

definition queue_send :: "mdns_world \<Rightarrow> mdns_action_t \<Rightarrow> bool \<times> mdns_world" where
  "queue_send w action =
     (if length (action_queue w) < MDNS_ACTION_QUEUE_LEN
      then (True, w\<lparr>action_queue := action_queue w @ [action]\<rparr>) else (False, w))"

text \<open>Allocating an action and queueing it.\<close>

definition send_action :: "mdns_world \<Rightarrow> mdns_action_t \<Rightarrow> esp_err_t \<times> mdns_world" where
  "send_action w action =
     (let (ok, w1) = malloc w in
      if \<not> ok then (ESP_ERR_NO_MEM, w1)
      else let (sent_ok, w2) = queue_send w1 action in
        (if sent_ok then ESP_OK else ESP_ERR_NO_MEM, w2))"

definition mdns_send_search_action :: "mdns_world \<Rightarrow> mdns_action_t \<Rightarrow> esp_err_t \<times> mdns_world" where
  "mdns_send_search_action w action = send_action w action"

definition mdns_send_rx_action :: "mdns_world \<Rightarrow> mdns_rx_packet_t \<Rightarrow> esp_err_t \<times> mdns_world" where
  "mdns_send_rx_action w packet = send_action w (ACTION_RX_HANDLE packet)"

definition event_handler :: "mdns_world \<Rightarrow> esp_event \<Rightarrow> mdns_world" where
  "event_handler w event =
     (if \<not> server_up w then w else snd (send_action w (ACTION_SYSTEM_EVENT event)))"

section \<open>Receiving\<close>

text \<open>The interface that a datagram came in on: the first whose netif is the current input netif
  and whose control block is in use. \<open>input_netif i\<close> is the address and the netmask of the netif
  of interface \<open>i\<close> if it is the current input netif. A source outside the subnet ends the search
  without an interface.\<close>

fun rx_interface ::
  "mdns_world \<Rightarrow> (tcpip_adapter_if_t \<Rightarrow> (u32 \<times> u32) option) \<Rightarrow> mdns_ip_protocol_t \<Rightarrow> ip_addr_t \<Rightarrow>
   tcpip_adapter_if_t list \<Rightarrow> tcpip_adapter_if_t option" where
  "rx_interface w input_netif ip_protocol src [] = None"
| "rx_interface w input_netif ip_protocol src (i # is) =
     (case input_netif i of
        Some (addr, netmask) \<Rightarrow>
          if pcb_pcb (interfaces w i ip_protocol)
          then (case src of
              IP4 s \<Rightarrow> if s AND netmask \<noteq> addr AND netmask then None else Some i
            | IP6 _ \<Rightarrow> Some i)
          else rx_interface w input_netif ip_protocol src is
      | None \<Rightarrow> rx_interface w input_netif ip_protocol src is)"

text \<open>One round of the loop over the chain of buffers; \<open>dest\<close> is the destination address in the
  header before the payload.\<close>

definition udp_recv_one ::
  "(tcpip_adapter_if_t \<Rightarrow> (u32 \<times> u32) option) \<Rightarrow> ip_addr_t \<Rightarrow> u16 \<Rightarrow> mdns_world \<Rightarrow> u8 list \<times> ip_addr_t \<times> bool \<Rightarrow>
   mdns_world" where
  "udp_recv_one input_netif raddr rport w pb =
     (case pb of (payload, dest, multicast) \<Rightarrow>
        let (ok, w1) = malloc w in
        if \<not> ok then w1
        else let ip_protocol = (if is_ip4 raddr then MDNS_IP_PROTOCOL_V4 else MDNS_IP_PROTOCOL_V6) in
          (case rx_interface w1 input_netif ip_protocol raddr all_ifs of
             None \<Rightarrow> w1
           | Some i \<Rightarrow> snd (mdns_send_rx_action w1
               \<lparr>rx_if = i, rx_protocol = ip_protocol, rx_payload = payload, rx_src = raddr,
                rx_dest = dest, rx_src_port = rport, rx_multicast = multicast\<rparr>)))"

definition udp_recv ::
  "(tcpip_adapter_if_t \<Rightarrow> (u32 \<times> u32) option) \<Rightarrow> ip_addr_t \<Rightarrow> u16 \<Rightarrow> mdns_world \<Rightarrow>
   (u8 list \<times> ip_addr_t \<times> bool) list \<Rightarrow> mdns_world" where
  "udp_recv input_netif raddr rport w pbs = foldl (udp_recv_one input_netif raddr rport) w pbs"

section \<open>Actions\<close>

text \<open>Updating the value of the first item with a key.\<close>

fun txt_update :: "cstring \<Rightarrow> cstring \<Rightarrow> mdns_txt_item list \<Rightarrow> mdns_txt_item list option" where
  "txt_update key val [] = None"
| "txt_update key val ((k, v) # txt) =
     (if k = key then Some ((k, val) # txt) else map_option (Cons (k, v)) (txt_update key val txt))"

text \<open>\<open>None\<close> in the first component: there is no memory for a new item.\<close>

definition txt_set ::
  "mdns_world \<Rightarrow> cstring \<Rightarrow> cstring \<Rightarrow> mdns_txt_item list \<Rightarrow> mdns_txt_item list option \<times> mdns_world" where
  "txt_set w key val txt =
     (case txt_update key val txt of
        Some txt1 \<Rightarrow> (Some txt1, w)
      | None \<Rightarrow> let (ok, w1) = malloc w in (if ok then Some ((key, val) # txt) else None, w1))"

definition txt_del :: "cstring \<Rightarrow> mdns_txt_item list \<Rightarrow> mdns_txt_item list" where
  "txt_del key txt = remove_first (\<lambda>(k, v). k = key) txt"

definition update_service :: "mdns_world \<Rightarrow> srv_ptr \<Rightarrow> mdns_service_t \<Rightarrow> mdns_world" where
  "update_service w a s = w\<lparr>srv_heap := (srv_heap w)(a \<mapsto> s)\<rparr>"

text \<open>\<^verbatim>\<open>_mdns_free_service\<close> and the release of the list item.\<close>

definition free_service :: "mdns_world \<Rightarrow> srv_ptr \<Rightarrow> mdns_world" where
  "free_service w a = w\<lparr>srv_heap := (srv_heap w)(a := None)\<rparr>"

definition forget_service :: "mdns_world \<Rightarrow> srv_ptr \<Rightarrow> mdns_world option" where
  "forget_service w a = do {
     w1 \<leftarrow> mdns_remove_scheduled_service_packets w a;
     Some (free_service w1 a)
   }"

fun forget_services :: "mdns_world \<Rightarrow> srv_ptr list \<Rightarrow> mdns_world option" where
  "forget_services w [] = Some w"
| "forget_services w (a # as) = do { w1 \<leftarrow> forget_service w a; forget_services w1 as }"

text \<open>With an empty list of services the code dereferences the null pointer.\<close>

definition action_service_del :: "mdns_world \<Rightarrow> srv_ptr \<Rightarrow> mdns_world option" where
  "action_service_del w a =
     (if services w = [] then None
      else if a \<in> set (services w) then do {
        w1 \<leftarrow> mdns_send_bye (w\<lparr>services := remove1 a (services w)\<rparr>) [a] False;
        forget_service w1 a
      }
      else Some w)"

definition action_services_clear :: "mdns_world \<Rightarrow> mdns_world option" where
  "action_services_clear w = do {
     w1 \<leftarrow> mdns_send_final_bye w False;
     forget_services (w1\<lparr>services := []\<rparr>) (services w1)
   }"

definition action_instance_set :: "mdns_world \<Rightarrow> srv_ptr \<Rightarrow> cptr \<Rightarrow> mdns_world option" where
  "action_instance_set w a inst = do {
     s \<leftarrow> srv_heap w a;
     w1 \<leftarrow> (if s_instance s \<noteq> None then mdns_send_bye w [a] False else Some w);
     mdns_probe_all_pcbs (update_service w1 a (s\<lparr>s_instance := Some inst\<rparr>)) [a] False False
   }"

definition action_txt_set :: "mdns_world \<Rightarrow> srv_ptr \<Rightarrow> cstring \<Rightarrow> cstring \<Rightarrow> mdns_world option" where
  "action_txt_set w a key val = do {
     s \<leftarrow> srv_heap w a;
     case txt_set w key val (s_txt s) of
       (None, w1) \<Rightarrow> Some w1
     | (Some txt, w1) \<Rightarrow> mdns_announce_all_pcbs (update_service w1 a (s\<lparr>s_txt := txt\<rparr>)) [a] False
   }"

definition action_txt_del :: "mdns_world \<Rightarrow> srv_ptr \<Rightarrow> cstring \<Rightarrow> mdns_world option" where
  "action_txt_del w a key = do {
     s \<leftarrow> srv_heap w a;
     if s_txt s = [] then Some w
     else mdns_announce_all_pcbs (update_service w a (s\<lparr>s_txt := txt_del key (s_txt s)\<rparr>)) [a] False
   }"

definition action_tx_handle :: "mdns_world \<Rightarrow> nat \<Rightarrow> mdns_world option" where
  "action_tx_handle w packet =
     (case tx_queue w of
        [] \<Rightarrow> Some w
      | p # rest \<Rightarrow>
          if tx_ptr p = packet \<and> tx_queued p
          then mdns_tx_handle_packet (w\<lparr>tx_queue := rest\<rparr>) (p\<lparr>tx_queued := False\<rparr>)
          else Some w)"

definition mdns_execute_action :: "mdns_world \<Rightarrow> mdns_action_t \<Rightarrow> mdns_world option" where
  "mdns_execute_action w action =
     (case action of
        ACTION_SYSTEM_EVENT event \<Rightarrow> mdns_handle_system_event w event
      | ACTION_HOSTNAME_SET name \<Rightarrow> do {
          w1 \<leftarrow> mdns_send_final_bye w True;
          mdns_restart_all_pcbs (w1\<lparr>hostname := Some name\<rparr>)
        }
      | ACTION_INSTANCE_SET name \<Rightarrow> do {
          w1 \<leftarrow> mdns_send_bye_all_pcbs_no_instance w;
          mdns_restart_all_pcbs_no_instance (w1\<lparr>server_instance := Some name\<rparr>)
        }
      | ACTION_SERVICE_ADD a s \<Rightarrow>
          mdns_probe_all_pcbs ((update_service w a s)\<lparr>services := a # services w\<rparr>) [a] False False
      | ACTION_SERVICE_INSTANCE_SET a inst \<Rightarrow> action_instance_set w a inst
      | ACTION_SERVICE_PORT_SET a port \<Rightarrow> do {
          s \<leftarrow> srv_heap w a;
          mdns_announce_all_pcbs (update_service w a (s\<lparr>s_port := port\<rparr>)) [a] True
        }
      | ACTION_SERVICE_TXT_REPLACE a txt \<Rightarrow> do {
          s \<leftarrow> srv_heap w a;
          mdns_announce_all_pcbs (update_service w a (s\<lparr>s_txt := txt\<rparr>)) [a] False
        }
      | ACTION_SERVICE_TXT_SET a key val \<Rightarrow> action_txt_set w a key val
      | ACTION_SERVICE_TXT_DEL a key \<Rightarrow> action_txt_del w a key
      | ACTION_SERVICE_DEL a \<Rightarrow> action_service_del w a
      | ACTION_SERVICES_CLEAR \<Rightarrow> action_services_clear w
      | ACTION_SEARCH_ADD search \<Rightarrow> Some (mdns_search_add w search)
      | ACTION_SEARCH_SEND search \<Rightarrow> mdns_search_send w search
      | ACTION_SEARCH_END search \<Rightarrow> mdns_search_finish w search
      | ACTION_TX_HANDLE packet \<Rightarrow> action_tx_handle w packet
      | ACTION_RX_HANDLE packet \<Rightarrow> mdns_parse_packet w packet
      | ACTION_TASK_STOP \<Rightarrow> Some w)"

section \<open>The timer and the service task\<close>

text \<open>Marking the first packet that is not queued.\<close>

fun mark_queued :: "mdns_tx_packet_t list \<Rightarrow> mdns_tx_packet_t list" where
  "mark_queued [] = []"
| "mark_queued (p # ps) = (if tx_queued p then p # mark_queued ps else p\<lparr>tx_queued := True\<rparr> # ps)"

text \<open>\<open>(int32_t)(p->send_at - now) < 0\<close>.\<close>

definition tx_is_due :: "u32 \<Rightarrow> mdns_tx_packet_t \<Rightarrow> bool" where
  "tx_is_due now p \<longleftrightarrow> sint (tx_send_at p - now) < 0"

definition mdns_scheduler_run :: "mdns_world \<Rightarrow> mdns_world" where
  "mdns_scheduler_run w =
     (case find (\<lambda>p. \<not> tx_queued p) (tx_queue w) of
        None \<Rightarrow> w
      | Some p \<Rightarrow>
          let (now, w1) = now_ms w in
          if \<not> tx_is_due now p then w1
          else let (ok, w2) = malloc w1 in
            if \<not> ok then w2
            else let (sent_ok, w3) = queue_send w2 (ACTION_TX_HANDLE (tx_ptr p)) in
              if sent_ok then w3\<lparr>tx_queue := mark_queued (tx_queue w3)\<rparr> else w3)"

definition search_run_one ::
  "u32 \<Rightarrow> mdns_world \<Rightarrow> mdns_search_once_t \<Rightarrow> mdns_search_once_t \<times> mdns_world" where
  "search_run_one now w s =
     (if so_state s = SEARCH_OFF then (s, w)
      else if now > so_started_at s + so_timeout s then
        let (err, w1) = mdns_send_search_action w (ACTION_SEARCH_END (so_ptr s)) in
        (s\<lparr>so_state := (if err = ESP_OK then SEARCH_OFF else SEARCH_RUNNING)\<rparr>, w1)
      else if so_state s = SEARCH_INIT \<or> now - so_sent_at s > 1000 then
        let (err, w1) = mdns_send_search_action w (ACTION_SEARCH_SEND (so_ptr s)) in
        (s\<lparr>so_state := SEARCH_RUNNING, so_sent_at := (if err = ESP_OK then now else now - 1000)\<rparr>, w1)
      else (s, w))"

fun search_run_all ::
  "u32 \<Rightarrow> mdns_world \<Rightarrow> mdns_search_once_t list \<Rightarrow> mdns_search_once_t list \<times> mdns_world" where
  "search_run_all now w [] = ([], w)"
| "search_run_all now w (s # ss) =
     (let (s1, w1) = search_run_one now w s; (ss1, w2) = search_run_all now w1 ss in (s1 # ss1, w2))"

definition mdns_search_run :: "mdns_world \<Rightarrow> mdns_world" where
  "mdns_search_run w =
     (let (now, w1) = now_ms w; (ss, w2) = search_run_all now w1 (search_once w1)
      in w2\<lparr>search_once := ss\<rparr>)"

definition mdns_timer_cb :: "mdns_world \<Rightarrow> mdns_world" where
  "mdns_timer_cb w = mdns_search_run (mdns_scheduler_run w)"

text \<open>One round of \<^verbatim>\<open>_mdns_service_task\<close>: it blocks while there is no action; the first component
  of the result is false when the task ends.\<close>

definition mdns_service_step :: "mdns_world \<Rightarrow> (bool \<times> mdns_world) option" where
  "mdns_service_step w =
     (case action_queue w of
        [] \<Rightarrow> Some (True, w)
      | a # rest \<Rightarrow>
          if a = ACTION_TASK_STOP then Some (False, w\<lparr>action_queue := rest\<rparr>)
          else map_option (Pair True) (mdns_execute_action (w\<lparr>action_queue := rest\<rparr>) a))"

section \<open>TXT items as a map\<close>

text \<open>The contract of a store of values under keys, and what a sequence of operations does to it.\<close>

datatype ('k, 'v) kv_op = KvSet 'k 'v | KvDel 'k

locale kv_store =
  fixes ok :: "'s \<Rightarrow> bool" and look :: "'s \<Rightarrow> 'k \<rightharpoonup> 'v"
    and put_item :: "'k \<Rightarrow> 'v \<Rightarrow> 's \<Rightarrow> 's" and del_item :: "'k \<Rightarrow> 's \<Rightarrow> 's"
  assumes ok_put: "ok s \<Longrightarrow> ok (put_item k v s)" and ok_del: "ok s \<Longrightarrow> ok (del_item k s)"
    and look_put: "ok s \<Longrightarrow> look (put_item k v s) = (look s)(k \<mapsto> v)"
    and look_del: "ok s \<Longrightarrow> look (del_item k s) = (look s)(k := None)"
begin

lemma ops_refine:
  "ok s \<Longrightarrow> ok (foldl (\<lambda>s op. case op of KvSet k v \<Rightarrow> put_item k v s | KvDel k \<Rightarrow> del_item k s) s ops) \<and>
   look (foldl (\<lambda>s op. case op of KvSet k v \<Rightarrow> put_item k v s | KvDel k \<Rightarrow> del_item k s) s ops) =
     foldl (\<lambda>m op. case op of KvSet k v \<Rightarrow> m(k \<mapsto> v) | KvDel k \<Rightarrow> m(k := None)) (look s) ops"
  by (induction ops arbitrary: s) (auto simp: ok_put ok_del look_put look_del split: kv_op.splits)

end

lemma txt_update_None: "txt_update key val items = None \<longleftrightarrow> key \<notin> fst ` set items"
  by (induction key val items rule: txt_update.induct) auto

lemma txt_update_Some:
  "txt_update key val items = Some new \<Longrightarrow> map fst new = map fst items \<and> map_of new = (map_of items)(key \<mapsto> val)"
  by (induction key val items arbitrary: new rule: txt_update.induct) (auto split: if_splits)

lemma txt_del_set: "distinct (map fst items) \<Longrightarrow> map_of (txt_del key items) = (map_of items)(key := None)"
proof (induction items)
  case (Cons kv items)
  have "map_of items key = None" if "fst kv = key"
    using Cons.prems that by (auto simp: map_of_eq_None_iff)
  with Cons show ?case by (cases kv) (auto simp: txt_del_def fun_upd_idem fun_upd_twist)
qed (simp add: txt_del_def)

text \<open>The list after setting an item when the allocation of a new one succeeds.\<close>

definition txt_put :: "cstring \<Rightarrow> cstring \<Rightarrow> mdns_txt_item list \<Rightarrow> mdns_txt_item list" where
  "txt_put key val items = (case txt_update key val items of Some new \<Rightarrow> new | None \<Rightarrow> (key, val) # items)"

lemma txt_set_put: "alloc_script w = [] \<Longrightarrow> txt_set w key val items = (Some (txt_put key val items), w)"
  by (simp add: txt_set_def txt_put_def malloc_def split: option.splits)

interpretation txt_store: kv_store "\<lambda>items. distinct (map fst items)" map_of txt_put txt_del
proof unfold_locales
  fix key :: cstring and val :: cstring and items :: "mdns_txt_item list"
  assume d: "distinct (map fst items)"
  show "distinct (map fst (txt_put key val items))"
    using d txt_update_None [of key val items] txt_update_Some [of key val items]
    by (auto simp: txt_put_def split: option.splits)
  show "distinct (map fst (txt_del key items))"
    unfolding txt_del_def by (rule distinct_remove_first [OF d])
  show "map_of (txt_put key val items) = (map_of items)(key \<mapsto> val)"
    using txt_update_Some [of key val items] by (auto simp: txt_put_def split: option.splits)
  show "map_of (txt_del key items) = (map_of items)(key := None)"
    by (rule txt_del_set [OF d])
qed

text \<open>C18: the TXT items of a service behave as a finite map. Whatever sequence of
  \<^verbatim>\<open>mdns_service_txt_item_set\<close> and \<^verbatim>\<open>mdns_service_txt_item_remove\<close> actions is executed on a list
  without duplicate keys, the list stays so and represents the map that the same updates make.\<close>

theorem txt_items_refine_map:
  assumes "distinct (map fst items)" "alloc_script w = []"
  defines "run \<equiv> foldl (\<lambda>items op. case op of KvSet key val \<Rightarrow> the (fst (txt_set w key val items))
                                             | KvDel key \<Rightarrow> txt_del key items)"
  shows "distinct (map fst (run items ops)) \<and>
    map_of (run items ops) = foldl (\<lambda>m op. case op of KvSet key val \<Rightarrow> m(key \<mapsto> val) | KvDel key \<Rightarrow> m(key := None)) (map_of items) ops"
  using txt_store.ops_refine [OF assms(1), of ops] unfolding run_def by (simp add: txt_set_put [OF assms(2)] cong: kv_op.case_cong)

theorem txt_items_refine_map_witness:
  "map_of (txt_del (lit ''a'') (the (fst (txt_set demo_world (lit ''b'') (lit ''2'') [(lit ''a'', lit ''1'')])))) = [lit ''b'' \<mapsto> lit ''2'']"
  using txt_items_refine_map [of "[(lit ''a'', lit ''1'')]" demo_world "[KvSet (lit ''b'') (lit ''2''), KvDel (lit ''a'')]"]
  by (simp add: lit_def of_char_def fun_upd_twist)

section \<open>The timer\<close>

text \<open>the test of the scheduler is right across the wrap-around of the 32-bit millisecond clock: for
  times less than \<open>2 ^ 31\<close> ms apart, a packet scheduled \<open>d\<close> ms after a time \<open>t\<close> is due \<open>e\<close> ms after
  it exactly if \<open>d < e\<close>, whether or not the clock passes zero in between.\<close>

theorem tx_is_due_wraps:
  assumes "d < 2 ^ 31" "e < 2 ^ 31"
  shows "tx_is_due (t + of_nat e) (p\<lparr>tx_send_at := t + of_nat d\<rparr>) \<longleftrightarrow> d < e"
proof -
  have w: "t + of_nat d - (t + of_nat e) = (word_of_int (int d - int e) :: u32)"
    by (simp add: of_int_of_nat_eq)
  have "sint (word_of_int (int d - int e) :: u32) = int d - int e"
    unfolding sint_sbintrunc' by (rule signed_take_bit_int_eq_self) (use assms in simp_all)
  then have "sint (t + of_nat d - (t + of_nat e) :: u32) = int d - int e"
    by (simp only: w)
  then show ?thesis by (simp add: tx_is_due_def)
qed

theorem tx_is_due_wraps_witness:
  "tx_is_due (0xFFFFFFF0 + of_nat 101) (demo_packet\<lparr>tx_send_at := 0xFFFFFFF0 + of_nat 100\<rparr>)"
  using tx_is_due_wraps [of 100 101 "0xFFFFFFF0" demo_packet] by simp

end
