(* ===== verification/Mdns_Api.thy ===== *)
theory Mdns_Api
  imports Mdns_Action
begin

text \<open>
  The public functions of \<^verbatim>\<open>src/src/mdns.c\<close>, declared in \<^verbatim>\<open>mdns.h\<close>: starting and stopping the
  responder, the setters, which validate their arguments and queue an action, and the queries.
  A string argument is an option: \<open>None\<close> is the null pointer. A blocking function is split at
  the point where it waits: \<^verbatim>\<open>mdns_service_add\<close> polls the worlds that it observes and
  \<^verbatim>\<open>mdns_query\<close> is the part before and the part behind the semaphore.
\<close>

section \<open>Start and stop\<close>

definition server_zero :: "mdns_world \<Rightarrow> mdns_world" where
  "server_zero w = w\<lparr>interfaces := (\<lambda>_ _. pcb_zero), hostname := None, server_instance := None,
     services := [], srv_heap := Map.empty, tx_queue := [], search_once := [], action_queue := [],
     server_up := True\<rparr>"

text \<open>Creating an object of the operating system can fail for lack of memory, like an allocation.\<close>

definition mdns_start_timer :: "mdns_world \<Rightarrow> bool \<times> mdns_world" where
  "mdns_start_timer w =
     (let (ok, w1) = malloc w in
      if \<not> ok then (False, w1) else malloc (w1\<lparr>timer_on := True\<rparr>))"

definition mdns_stop_timer :: "mdns_world \<Rightarrow> mdns_world" where
  "mdns_stop_timer w = w\<lparr>timer_on := False\<rparr>"

definition mdns_service_task_start :: "mdns_world \<Rightarrow> bool \<times> mdns_world" where
  "mdns_service_task_start w =
     (let (ok1, w1) = (if service_semaphore w then (True, w)
                       else let (ok, w1) = malloc w in (ok, w1\<lparr>service_semaphore := ok\<rparr>))
      in if \<not> ok1 then (False, w1)
         else let (ok2, w2) = mdns_start_timer w1 in
           if \<not> ok2 then (False, w2)
           else if service_task w2 then (True, w2)
           else let (ok3, w3) = malloc w2 in
             if ok3 then (True, w3\<lparr>service_task := True\<rparr>)
             else (False, mdns_stop_timer w3\<lparr>service_semaphore := False\<rparr>))"

definition init_pcbs :: "mdns_world \<Rightarrow> tcpip_adapter_if_t \<Rightarrow> mdns_world option" where
  "init_pcbs w i = do {
     w1 \<leftarrow> (case ip6_linklocal w i of
             Some ip6 \<Rightarrow> if \<not> ipv6_address_is_zero ip6 then mdns_enable_pcb w i MDNS_IP_PROTOCOL_V6 else Some w
           | None \<Rightarrow> Some w);
     case ip_info w1 i of
       Some ip \<Rightarrow> if ip \<noteq> 0 then mdns_enable_pcb w1 i MDNS_IP_PROTOCOL_V4 else Some w1
     | None \<Rightarrow> Some w1
   }"

fun for_each_if ::
  "(mdns_world \<Rightarrow> tcpip_adapter_if_t \<Rightarrow> mdns_world option) \<Rightarrow> tcpip_adapter_if_t list \<Rightarrow> mdns_world \<Rightarrow>
   mdns_world option" where
  "for_each_if f [] w = Some w"
| "for_each_if f (i # is) w = do { w1 \<leftarrow> f w i; for_each_if f is w1 }"

text \<open>The mutex, the queue and the two event handlers that are created in this order; the number of
  those that can be created.\<close>

fun create_objects :: "nat \<Rightarrow> mdns_world \<Rightarrow> bool \<times> mdns_world" where
  "create_objects 0 w = (True, w)"
| "create_objects (Suc n) w =
     (let (ok, w1) = malloc w in if ok then create_objects n w1 else (False, w1))"

definition mdns_init :: "mdns_world \<Rightarrow> (esp_err_t \<times> mdns_world) option" where
  "mdns_init w =
     (if server_up w then Some (ESP_OK, w)
      else let (ok, w1) = malloc w in
        if \<not> ok then Some (ESP_ERR_NO_MEM, w1)
        else let (ok4, w2) = create_objects 4 (server_zero w1) in
          if \<not> ok4 then Some (ESP_ERR_NO_MEM, w2\<lparr>server_up := False\<rparr>)
          else do {
            w3 \<leftarrow> for_each_if init_pcbs all_ifs w2;
            let (started, w4) = mdns_service_task_start w3;
            if started then Some (ESP_OK, w4)
            else do {
              w5 \<leftarrow> for_each_if (\<lambda>w i. do {
                       w1 \<leftarrow> mdns_disable_pcb w i MDNS_IP_PROTOCOL_V6;
                       mdns_disable_pcb w1 i MDNS_IP_PROTOCOL_V4
                     }) all_ifs w4;
              Some (ESP_FAIL, w5\<lparr>server_up := False\<rparr>)
            }
          })"

definition mdns_service_remove_all :: "mdns_world \<Rightarrow> esp_err_t \<times> mdns_world" where
  "mdns_service_remove_all w =
     (if \<not> server_up w then (ESP_ERR_INVALID_ARG, w)
      else if services w = [] then (ESP_OK, w)
      else send_action w ACTION_SERVICES_CLEAR)"

fun run_actions :: "mdns_world \<Rightarrow> mdns_action_t list \<Rightarrow> mdns_world option" where
  "run_actions w [] = Some w"
| "run_actions w (a # as) = do { w1 \<leftarrow> mdns_execute_action (w\<lparr>action_queue := as\<rparr>) a; run_actions w1 as }"

text \<open>If the stop action can be queued, the task executes the actions before it; otherwise the task
  is deleted and the actions stay in the queue.\<close>

definition mdns_service_task_stop :: "mdns_world \<Rightarrow> mdns_world option" where
  "mdns_service_task_stop w =
     (let w1 = mdns_stop_timer w in do {
        w2 \<leftarrow> (if \<not> service_task w1 then Some w1
               else if fst (queue_send w1 ACTION_TASK_STOP)
               then run_actions w1 (action_queue w1) else Some w1);
        Some (w2\<lparr>service_task := False, service_semaphore := False\<rparr>)
      })"

text \<open>Does \<^verbatim>\<open>_mdns_free_action\<close> free an object that something else owns? A queued packet is freed
  again with the packet queue, a search again with the chain of searches.\<close>

definition action_double_free :: "mdns_action_t \<Rightarrow> bool" where
  "action_double_free action =
     (case action of ACTION_TX_HANDLE _ \<Rightarrow> True | ACTION_SEARCH_SEND _ \<Rightarrow> True
      | ACTION_SEARCH_END _ \<Rightarrow> True | _ \<Rightarrow> False)"

definition mdns_free :: "mdns_world \<Rightarrow> mdns_world option" where
  "mdns_free w =
     (if \<not> server_up w then Some w
      else do {
        w2 \<leftarrow> mdns_service_task_stop (snd (mdns_service_remove_all w));
        w3 \<leftarrow> for_each_pcb (\<lambda>w i j. Some (mdns_pcb_deinit w i j)) all_pcbs w2;
        if list_ex action_double_free (action_queue w3) then None
        else Some (w3\<lparr>hostname := None, server_instance := None, action_queue := [], tx_queue := [],
               search_once := [], server_up := False\<rparr>)
      })"

section \<open>Setters\<close>

definition arg_empty :: "cstring option \<Rightarrow> bool" where
  "arg_empty s \<longleftrightarrow> (case s of None \<Rightarrow> True | Some t \<Rightarrow> t = [])"

text \<open>Copying a name, allocating the action and queueing it.\<close>

definition send_name ::
  "mdns_world \<Rightarrow> cstring option \<Rightarrow> (cptr \<Rightarrow> mdns_action_t) \<Rightarrow> esp_err_t \<times> mdns_world" where
  "send_name w name action =
     (case name of
        None \<Rightarrow> (ESP_ERR_INVALID_ARG, w)
      | Some t \<Rightarrow>
          if t = [] \<or> length t > MDNS_NAME_BUF_LEN - 1 then (ESP_ERR_INVALID_ARG, w)
          else (case strdup w (strndup t (MDNS_NAME_BUF_LEN - 1)) of
              (None, w1) \<Rightarrow> (ESP_ERR_NO_MEM, w1)
            | (Some c, w1) \<Rightarrow> send_action w1 (action c)))"

definition mdns_hostname_set :: "mdns_world \<Rightarrow> cstring option \<Rightarrow> esp_err_t \<times> mdns_world" where
  "mdns_hostname_set w name =
     (if \<not> server_up w then (ESP_ERR_INVALID_ARG, w) else send_name w name ACTION_HOSTNAME_SET)"

definition mdns_instance_name_set :: "mdns_world \<Rightarrow> cstring option \<Rightarrow> esp_err_t \<times> mdns_world" where
  "mdns_instance_name_set w name =
     (if \<not> server_up w then (ESP_ERR_INVALID_ARG, w) else send_name w name ACTION_INSTANCE_SET)"

text \<open>The loop of \<^verbatim>\<open>mdns_service_add\<close> that waits for the service task: \<open>seen k\<close> says whether the
  service is registered at the poll number \<open>k\<close>. The value of the counter after the loop.\<close>

fun poll_service :: "(nat \<Rightarrow> bool) \<Rightarrow> nat \<Rightarrow> nat \<Rightarrow> nat" where
  "poll_service seen 0 i = i"
| "poll_service seen (Suc n) i =
     (if seen i then i else if i < 200 then poll_service seen n (i + 1) else i + 1)"

definition mdns_service_add ::
  "mdns_world \<Rightarrow> (nat \<Rightarrow> mdns_world) \<Rightarrow> cstring option \<Rightarrow> cstring option \<Rightarrow> cstring option \<Rightarrow> u16 \<Rightarrow>
   mdns_txt_item list \<Rightarrow> (esp_err_t \<times> mdns_world) option" where
  "mdns_service_add w later inst service proto port txt =
     (if \<not> server_up w \<or> arg_empty service \<or> arg_empty proto \<or> port = 0 then Some (ESP_ERR_INVALID_ARG, w)
      else if \<not> mdns_can_add_more_services w then Some (ESP_ERR_NO_MEM, w)
      else do {
        srv \<leftarrow> service;
        pro \<leftarrow> proto;
        item \<leftarrow> mdns_get_service_item w srv pro;
        if item \<noteq> None then Some (ESP_ERR_INVALID_ARG, w)
        else case mdns_create_service w srv pro port inst txt of
          (None, w1) \<Rightarrow> Some (ESP_ERR_NO_MEM, w1)
        | (Some s, w1) \<Rightarrow>
            let (ok, w2) = malloc w1 in
            if \<not> ok then Some (ESP_ERR_NO_MEM, w2)
            else let (a, w3) = fresh_ptr w2; (err, w4) = send_action w3 (ACTION_SERVICE_ADD a s) in
              if err \<noteq> ESP_OK then Some (err, w4)
              else let n = poll_service (\<lambda>k. case mdns_get_service_item (later k) srv pro of
                                           Some (Some _) \<Rightarrow> True | _ \<Rightarrow> False) 201 0
                in Some (if n \<ge> 200 then ESP_FAIL else ESP_OK, w4)
      })"

text \<open>The common start of the functions that change a service.\<close>

definition with_service ::
  "mdns_world \<Rightarrow> cstring option \<Rightarrow> cstring option \<Rightarrow> bool \<Rightarrow> (srv_ptr \<Rightarrow> esp_err_t \<times> mdns_world) \<Rightarrow>
   (esp_err_t \<times> mdns_world) option" where
  "with_service w service proto bad_arg k =
     (if \<not> server_up w \<or> services w = [] \<or> arg_empty service \<or> arg_empty proto \<or> bad_arg
      then Some (ESP_ERR_INVALID_ARG, w)
      else do {
        srv \<leftarrow> service;
        pro \<leftarrow> proto;
        item \<leftarrow> mdns_get_service_item w srv pro;
        Some (case item of None \<Rightarrow> (ESP_ERR_NOT_FOUND, w) | Some a \<Rightarrow> k a)
      })"

definition mdns_service_port_set ::
  "mdns_world \<Rightarrow> cstring option \<Rightarrow> cstring option \<Rightarrow> u16 \<Rightarrow> (esp_err_t \<times> mdns_world) option" where
  "mdns_service_port_set w service proto port =
     with_service w service proto (port = 0) (\<lambda>a. send_action w (ACTION_SERVICE_PORT_SET a port))"

text \<open>\<open>txt\<close> is \<open>None\<close> for the null pointer with a count that is not zero.\<close>

definition mdns_service_txt_set ::
  "mdns_world \<Rightarrow> cstring option \<Rightarrow> cstring option \<Rightarrow> mdns_txt_item list option \<Rightarrow>
   (esp_err_t \<times> mdns_world) option" where
  "mdns_service_txt_set w service proto txt =
     with_service w service proto (txt = None) (\<lambda>a.
       let (new_txt, w1) = mdns_allocate_txt w (the txt) in
       if the txt \<noteq> [] \<and> new_txt = [] then (ESP_ERR_NO_MEM, w1)
       else send_action w1 (ACTION_SERVICE_TXT_REPLACE a new_txt))"

definition mdns_service_txt_item_set ::
  "mdns_world \<Rightarrow> cstring option \<Rightarrow> cstring option \<Rightarrow> cstring option \<Rightarrow> cstring option \<Rightarrow>
   (esp_err_t \<times> mdns_world) option" where
  "mdns_service_txt_item_set w service proto key val =
     with_service w service proto (arg_empty key \<or> val = None) (\<lambda>a.
       let (ok, w3) = create_objects 3 w in
       if \<not> ok then (ESP_ERR_NO_MEM, w3)
       else let (sent_ok, w4) = queue_send w3 (ACTION_SERVICE_TXT_SET a (the key) (the val)) in
         (if sent_ok then ESP_OK else ESP_ERR_NO_MEM, w4))"

definition mdns_service_txt_item_remove ::
  "mdns_world \<Rightarrow> cstring option \<Rightarrow> cstring option \<Rightarrow> cstring option \<Rightarrow> (esp_err_t \<times> mdns_world) option" where
  "mdns_service_txt_item_remove w service proto key =
     with_service w service proto (arg_empty key) (\<lambda>a.
       let (ok, w2) = create_objects 2 w in
       if \<not> ok then (ESP_ERR_NO_MEM, w2)
       else let (sent_ok, w3) = queue_send w2 (ACTION_SERVICE_TXT_DEL a (the key)) in
         (if sent_ok then ESP_OK else ESP_ERR_NO_MEM, w3))"

definition mdns_service_instance_name_set ::
  "mdns_world \<Rightarrow> cstring option \<Rightarrow> cstring option \<Rightarrow> cstring option \<Rightarrow> (esp_err_t \<times> mdns_world) option" where
  "mdns_service_instance_name_set w service proto inst =
     with_service w service proto
       (arg_empty inst \<or> (case inst of None \<Rightarrow> False | Some t \<Rightarrow> length t > MDNS_NAME_BUF_LEN - 1))
       (\<lambda>a. send_name w inst (ACTION_SERVICE_INSTANCE_SET a))"

definition mdns_service_remove ::
  "mdns_world \<Rightarrow> cstring option \<Rightarrow> cstring option \<Rightarrow> (esp_err_t \<times> mdns_world) option" where
  "mdns_service_remove w service proto =
     with_service w service proto False (\<lambda>a. send_action w (ACTION_SERVICE_DEL a))"

section \<open>Queries\<close>

text \<open>The part of \<^verbatim>\<open>mdns_query\<close> before it waits: an error, or the search it waits for.\<close>

definition mdns_query ::
  "mdns_world \<Rightarrow> cstring option \<Rightarrow> cstring option \<Rightarrow> cstring option \<Rightarrow> u16 \<Rightarrow> u32 \<Rightarrow> nat \<Rightarrow>
   (esp_err_t + nat) \<times> mdns_world" where
  "mdns_query w name service proto type timeout max_results =
     (if \<not> server_up w then (Inl ESP_ERR_INVALID_STATE, w)
      else if timeout = 0 \<or> arg_empty service \<noteq> arg_empty proto then (Inl ESP_ERR_INVALID_ARG, w)
      else case mdns_search_init w name service proto type timeout max_results of
        (None, w1) \<Rightarrow> (Inl ESP_ERR_NO_MEM, w1)
      | (Some search, w1) \<Rightarrow>
          (case mdns_send_search_action w1 (ACTION_SEARCH_ADD search) of
             (err, w2) \<Rightarrow> (if err \<noteq> ESP_OK then Inl ESP_ERR_NO_MEM else Inr (so_ptr search), w2)))"

text \<open>The part behind the semaphore: \<open>None\<close> as long as the search is not finished.\<close>

definition mdns_query_collect :: "mdns_world \<Rightarrow> nat \<Rightarrow> (mdns_result_t list \<times> mdns_world) option" where
  "mdns_query_collect w ptr = do {
     s \<leftarrow> find (\<lambda>s. so_ptr s = ptr) (finished w);
     Some (so_result s, w\<lparr>finished := remove_first (\<lambda>t. so_ptr t = ptr) (finished w)\<rparr>)
   }"

definition mdns_query_ptr ::
  "mdns_world \<Rightarrow> cstring option \<Rightarrow> cstring option \<Rightarrow> u32 \<Rightarrow> nat \<Rightarrow> (esp_err_t + nat) \<times> mdns_world" where
  "mdns_query_ptr w service proto timeout max_results =
     (if arg_empty service \<or> arg_empty proto then (Inl ESP_ERR_INVALID_ARG, w)
      else mdns_query w None service proto MDNS_TYPE_PTR timeout max_results)"

definition mdns_query_srv ::
  "mdns_world \<Rightarrow> cstring option \<Rightarrow> cstring option \<Rightarrow> cstring option \<Rightarrow> u32 \<Rightarrow>
   (esp_err_t + nat) \<times> mdns_world" where
  "mdns_query_srv w inst service proto timeout =
     (if arg_empty inst \<or> arg_empty service \<or> arg_empty proto then (Inl ESP_ERR_INVALID_ARG, w)
      else mdns_query w inst service proto MDNS_TYPE_SRV timeout 1)"

definition mdns_query_txt ::
  "mdns_world \<Rightarrow> cstring option \<Rightarrow> cstring option \<Rightarrow> cstring option \<Rightarrow> u32 \<Rightarrow>
   (esp_err_t + nat) \<times> mdns_world" where
  "mdns_query_txt w inst service proto timeout =
     (if arg_empty inst \<or> arg_empty service \<or> arg_empty proto then (Inl ESP_ERR_INVALID_ARG, w)
      else mdns_query w inst service proto MDNS_TYPE_TXT timeout 1)"

definition mdns_query_a :: "mdns_world \<Rightarrow> cstring option \<Rightarrow> u32 \<Rightarrow> (esp_err_t + nat) \<times> mdns_world" where
  "mdns_query_a w name timeout =
     (if arg_empty name then (Inl ESP_ERR_INVALID_ARG, w)
      else mdns_query w name None None MDNS_TYPE_A timeout 1)"

definition mdns_query_aaaa :: "mdns_world \<Rightarrow> cstring option \<Rightarrow> u32 \<Rightarrow> (esp_err_t + nat) \<times> mdns_world" where
  "mdns_query_aaaa w name timeout =
     (if arg_empty name then (Inl ESP_ERR_INVALID_ARG, w)
      else mdns_query w name None None MDNS_TYPE_AAAA timeout 1)"

text \<open>The ends of \<^verbatim>\<open>mdns_query_a\<close> and \<^verbatim>\<open>mdns_query_aaaa\<close>: the first address of the right version
  of the first result.\<close>

fun first_ip4 :: "ip_addr_t list \<Rightarrow> u32 option" where
  "first_ip4 [] = None"
| "first_ip4 (IP4 x # as) = Some x"
| "first_ip4 (IP6 _ # as) = first_ip4 as"

fun first_ip6 :: "ip_addr_t list \<Rightarrow> u8 list option" where
  "first_ip6 [] = None"
| "first_ip6 (IP6 x # as) = Some (take 16 x)"
| "first_ip6 (IP4 _ # as) = first_ip6 as"

definition mdns_query_a_result :: "mdns_result_t list \<Rightarrow> esp_err_t + u32" where
  "mdns_query_a_result rs =
     (case rs of [] \<Rightarrow> Inl ESP_ERR_NOT_FOUND
      | r # _ \<Rightarrow> (case first_ip4 (r_addr r) of None \<Rightarrow> Inl ESP_ERR_NOT_FOUND | Some a \<Rightarrow> Inr a))"

definition mdns_query_aaaa_result :: "mdns_result_t list \<Rightarrow> esp_err_t + u8 list" where
  "mdns_query_aaaa_result rs =
     (case rs of [] \<Rightarrow> Inl ESP_ERR_NOT_FOUND
      | r # _ \<Rightarrow> (case first_ip6 (r_addr r) of None \<Rightarrow> Inl ESP_ERR_NOT_FOUND | Some a \<Rightarrow> Inr a))"

end
