(* ===== verification/Mdns_Server.thy ===== *)
theory Mdns_Server
  imports Mdns_Api
begin

text \<open>
  The responder as a whole: the invariant \<open>server_ok\<close> of its state, that every action, callback and
  public function keeps it, and the state machine whose steps are these functions. The operations
  below the level of an action keep the relation \<open>evolves\<close>; the actions that register or free a
  service are treated one by one.
\<close>

section \<open>The invariant\<close>

text \<open>The services that queued actions will register.\<close>

definition queued_adds :: "mdns_action_t list \<Rightarrow> srv_ptr list" where
  "queued_adds as = concat (map (\<lambda>a. case a of ACTION_SERVICE_ADD p s \<Rightarrow> [p] | _ \<Rightarrow> []) as)"

text \<open>The searches that queued actions will start.\<close>

definition queued_searches :: "mdns_action_t list \<Rightarrow> mdns_search_once_t list" where
  "queued_searches as = concat (map (\<lambda>a. case a of ACTION_SEARCH_ADD s \<Rightarrow> [s] | _ \<Rightarrow> []) as)"

lemma queued_adds_simps [simp]:
  "queued_adds [] = []" "queued_adds (as @ bs) = queued_adds as @ queued_adds bs"
  "queued_adds (a # as) = (case a of ACTION_SERVICE_ADD p s \<Rightarrow> [p] | _ \<Rightarrow> []) @ queued_adds as"
  by (simp_all add: queued_adds_def)

lemma queued_searches_simps [simp]:
  "queued_searches [] = []" "queued_searches (as @ bs) = queued_searches as @ queued_searches bs"
  "queued_searches (a # as) = (case a of ACTION_SEARCH_ADD s \<Rightarrow> [s] | _ \<Rightarrow> []) @ queued_searches as"
  by (simp_all add: queued_searches_def)

lemma queue_refs_update [simp]:
  "queue_refs (w\<lparr>action_queue := x1\<rparr>) = queue_refs w" "queue_refs (w\<lparr>srv_heap := x2\<rparr>) = queue_refs w"
  "queue_refs (w\<lparr>services := x3\<rparr>) = queue_refs w" "queue_refs (w\<lparr>next_ptr := x4\<rparr>) = queue_refs w"
  by (simp_all add: queue_refs_def)

text \<open>A service has a type and a protocol, each of which fits into a name buffer.\<close>

definition service_typed :: "mdns_service_t \<Rightarrow> bool" where
  "service_typed s \<longleftrightarrow> snd (s_service s) \<noteq> [] \<and> length (snd (s_service s)) < MDNS_NAME_BUF_LEN \<and>
     snd (s_proto s) \<noteq> [] \<and> length (snd (s_proto s)) < MDNS_NAME_BUF_LEN"

definition action_typed :: "mdns_action_t \<Rightarrow> bool" where
  "action_typed a = (case a of ACTION_SERVICE_ADD p s \<Rightarrow> service_typed s | _ \<Rightarrow> True)"

definition heap_typed :: "(srv_ptr \<Rightarrow> mdns_service_t option) \<Rightarrow> bool" where
  "heap_typed h \<longleftrightarrow> (\<forall>a s. h a = Some s \<longrightarrow> service_typed s)"

lemma heap_typed_update:
  "heap_typed Map.empty" "heap_typed h \<Longrightarrow> service_typed s \<Longrightarrow> heap_typed (h(a \<mapsto> s))"
  "heap_typed h \<Longrightarrow> heap_typed (h(a := None))"
  by (simp_all add: heap_typed_def)

lemma heap_typed_evolves:
  assumes "srv_names w' = srv_names w" "heap_typed (srv_heap w)"
  shows "heap_typed (srv_heap w')"
  unfolding heap_typed_def
proof (intro allI impI)
  fix a t assume t: "srv_heap w' a = Some t"
  with fun_cong [OF assms(1), of a] obtain s where "srv_heap w a = Some s" "s_service s = s_service t" "s_proto s = s_proto t"
    by (cases "srv_heap w a") (auto simp: srv_names_def)
  moreover from this(1) assms(2) have "service_typed s" by (simp add: heap_typed_def)
  ultimately show "service_typed t" by (simp add: service_typed_def)
qed

text \<open>What holds of the packet buffer, the queues, the searches and the heap of services.\<close>

definition queues_ok :: "mdns_world \<Rightarrow> bool" where
  "queues_ok w \<longleftrightarrow> length (tx_buffer w) = MDNS_MAX_PACKET_SIZE \<and> tx_sorted (tx_queue w) \<and>
     queue_refs w \<subseteq> dom (srv_heap w) \<and> searches_ok w \<and>
     length (action_queue w) \<le> MDNS_ACTION_QUEUE_LEN \<and>
     (\<forall>s\<in>set (queued_searches (action_queue w)). search_ok s) \<and>
     distinct (queued_adds (action_queue w)) \<and>
     set (queued_adds (action_queue w)) \<inter> dom (srv_heap w) = {} \<and>
     set (queued_adds (action_queue w)) \<union> dom (srv_heap w) \<subseteq> {..< next_ptr w} \<and>
     list_all action_typed (action_queue w) \<and> heap_typed (srv_heap w)"

definition server_ok :: "mdns_world \<Rightarrow> bool" where
  "server_ok w \<longleftrightarrow> queues_ok w \<and> distinct (services w) \<and> set (services w) = dom (srv_heap w) \<and>
     length (services w) + length (queued_adds (action_queue w)) \<le> MDNS_MAX_SERVICES - 1 + MDNS_ACTION_QUEUE_LEN"

lemma queues_ok_evolves: "queues_ok w \<Longrightarrow> evolves w w' \<Longrightarrow> queues_ok w' \<and>
   dom (srv_heap w') = dom (srv_heap w) \<and> services w' = services w \<and> action_queue w' = action_queue w"
  using heap_typed_evolves [of w' w] unfolding queues_ok_def evolves_def dom_srv_names [symmetric] by auto

lemma server_ok_evolves_queue: "server_ok w \<Longrightarrow> evolves w w' \<Longrightarrow> action_queue w' = action_queue w"
  by (simp add: server_ok_def queues_ok_def evolves_def)

lemma server_ok_evolves: "server_ok w \<Longrightarrow> evolves w w' \<Longrightarrow> server_ok w'"
  using queues_ok_evolves [of w w'] by (auto simp: server_ok_def)

section \<open>Actions\<close>

lemma evolves_unschedule_packet:
  "unschedule_service_packet w a q = Some (q1, w1) \<Longrightarrow> evolves w0 w \<Longrightarrow> evolves w0 w1"
  by (auto simp: unschedule_service_packet_def Let_def split: bind_splits if_splits option.splits)

lemma evolves_unschedule_packets:
  "unschedule_service_packets w a qs = Some (qs1, w1) \<Longrightarrow> evolves w0 w \<Longrightarrow> evolves w0 w1 \<and> tx_queue w1 = tx_queue w"
proof (induction qs arbitrary: w qs1)
  case (Cons q qs)
  then obtain q1 w2 qs2 where q: "unschedule_service_packet w a q = Some (q1, w2)"
    "unschedule_service_packets w2 a qs = Some (qs2, w1)"
    by (auto split: bind_splits)
  show ?case
    using Cons.IH [OF q(2) evolves_unschedule_packet [OF q(1) Cons.prems(2)]] unschedule_service_packet_refs(4) [OF q(1)]
    by simp
qed simp

lemma remove_service_packets_ok:
  assumes "mdns_remove_scheduled_service_packets w a = Some w'"
  shows "evolves w w' \<and> queue_refs w' = queue_refs w - {a}"
proof -
  obtain qs w1 where u: "unschedule_service_packets w a (tx_queue w) = Some (qs, w1)" "w' = w1\<lparr>tx_queue := qs\<rparr>"
    using assms by (auto simp: mdns_remove_scheduled_service_packets_def split: bind_splits)
  note r = unschedule_service_packets_refs [OF u(1)] and e = evolves_unschedule_packets [OF u(1) evolves_refl]
  have "evolves w w'"
    unfolding u(2) using r e by (intro evolves_queue) (auto simp: queue_refs_def)
  with r u(2) show ?thesis by (simp add: queue_refs_def)
qed

lemma queues_ok_shrink:
  assumes "queues_ok w" "queue_refs w \<subseteq> dom h" "dom h \<subseteq> dom (srv_heap w)" "heap_typed h"
  shows "queues_ok (w\<lparr>srv_heap := h\<rparr>)"
proof -
  let ?A = "set (queued_adds (action_queue w))"
  have "?A \<inter> dom h = {}" "?A \<union> dom h \<subseteq> {..< next_ptr w}"
    using assms(1,3) unfolding queues_ok_def by blast+
  with assms(1,2,4) show ?thesis by (simp add: queues_ok_def queue_refs_def)
qed

text \<open>Freeing a service of which no packet is left.\<close>

lemma forget_service_ok:
  assumes "forget_service w a = Some w'" "queues_ok w"
  shows "queues_ok w' \<and> dom (srv_heap w') = dom (srv_heap w) - {a} \<and> services w' = services w \<and> action_queue w' = action_queue w"
proof -
  obtain w1 where w1: "mdns_remove_scheduled_service_packets w a = Some w1" "w' = free_service w1 a"
    using assms(1) by (auto simp: forget_service_def split: bind_splits)
  note r = remove_service_packets_ok [OF w1(1)]
  note q = queues_ok_evolves [OF assms(2) r [THEN conjunct1]]
  have d: "dom ((srv_heap w1)(a := None)) = dom (srv_heap w) - {a}"
    using q by simp
  then have "queue_refs w1 \<subseteq> dom ((srv_heap w1)(a := None))"
    using r assms(2) unfolding queues_ok_def by blast
  moreover have "heap_typed (srv_heap w1)" using q by (simp add: queues_ok_def)
  ultimately have "queues_ok w'"
    unfolding w1(2) free_service_def using q d by (intro queues_ok_shrink heap_typed_update(3)) auto
  with q d show ?thesis unfolding w1(2) by (simp add: free_service_def)
qed

lemma forget_services_ok:
  "forget_services w as = Some w' \<Longrightarrow> queues_ok w \<Longrightarrow>
   queues_ok w' \<and> dom (srv_heap w') = dom (srv_heap w) - set as \<and> services w' = services w \<and> action_queue w' = action_queue w"
proof (induction as arbitrary: w)
  case (Cons a as)
  then obtain w1 where "forget_service w a = Some w1" "forget_services w1 as = Some w'"
    by (auto split: bind_splits)
  with Cons.IH [of w1] forget_service_ok [of w a w1] Cons.prems(2) show ?case by auto
qed simp

lemma queues_ok_services [simp]: "queues_ok (w\<lparr>services := x\<rparr>) = queues_ok w"
  by (simp add: queues_ok_def queue_refs_def)

lemma service_del_ok:
  assumes "action_service_del w a = Some w'" "server_ok w"
  shows "server_ok w' \<and> action_queue w' = action_queue w"
proof (cases "a \<in> set (services w)")
  case True
  let ?w = "w\<lparr>services := remove1 a (services w)\<rparr>"
  from True assms(1) obtain w1 where b: "mdns_send_bye ?w [a] False = Some w1" "forget_service w1 a = Some w'"
    by (auto simp: action_service_del_def split: bind_splits if_splits)
  have q: "queues_ok ?w" using assms(2) by (simp add: server_ok_def)
  note e = queues_ok_evolves [OF q evolves_send_bye [OF b(1) evolves_refl]]
  note f = forget_service_ok [OF b(2) e [THEN conjunct1]]
  show ?thesis
    using e f assms(2) True by (auto simp: server_ok_def length_remove1)
next
  case False
  with assms show ?thesis by (auto simp: action_service_del_def split: if_splits)
qed

lemma services_clear_ok:
  assumes "action_services_clear w = Some w'" "server_ok w"
  shows "server_ok w' \<and> action_queue w' = action_queue w"
proof -
  obtain w1 where b: "mdns_send_final_bye w False = Some w1" "forget_services (w1\<lparr>services := []\<rparr>) (services w1) = Some w'"
    using assms(1) by (auto simp: action_services_clear_def split: bind_splits)
  have "queues_ok w" using assms(2) by (simp add: server_ok_def)
  note e = queues_ok_evolves [OF this evolves_final_bye [OF b(1) evolves_refl]]
  have "queues_ok (w1\<lparr>services := []\<rparr>)" using e by simp
  from forget_services_ok [OF b(2) this] e assms(2) show ?thesis
    by (auto simp: server_ok_def)
qed

text \<open>Registering a service that is not on the heap yet.\<close>

lemma service_add_ok:
  assumes "server_ok (w\<lparr>action_queue := ACTION_SERVICE_ADD a s # rest\<rparr>)"
  shows "server_ok (update_service (w\<lparr>action_queue := rest\<rparr>) a s\<lparr>services := a # services w\<rparr>)"
  using assms by (auto simp: server_ok_def queues_ok_def update_service_def action_typed_def intro: heap_typed_update(2))

lemma evolves_update_service:
  "srv_heap w a = Some s \<Longrightarrow> evolves w w1 \<Longrightarrow> s_service t = s_service s \<Longrightarrow> s_proto t = s_proto s \<Longrightarrow>
   evolves w (update_service w1 a t)"
  by (simp add: update_service_def evolves_heap)

lemma evolves_txt_set: "txt_set w key val items = (r, w1) \<Longrightarrow> evolves w0 w \<Longrightarrow> evolves w0 w1"
  by (auto simp: txt_set_def Let_def split: option.splits prod.splits dest: evolves_malloc)

lemma tx_handle_ok:
  assumes "action_tx_handle w p = Some w'"
  shows "evolves w w'"
proof (cases "tx_queue w")
  case (Cons q qs)
  have e: "evolves w (w\<lparr>tx_queue := qs\<rparr>)"
    by (rule evolves_queue) (auto simp: Cons queue_refs_def)
  have "tx_refs (q\<lparr>tx_queued := False\<rparr>) \<subseteq> live_refs w"
    using Cons by (auto simp: queue_refs_def tx_refs_def)
  with assms e show ?thesis
    by (auto simp: action_tx_handle_def Cons split: if_splits elim: evolves_tx_handle)
qed (use assms in \<open>simp add: action_tx_handle_def\<close>)

text \<open>The actions that keep the services and their types.\<close>

lemma evolves_execute:
  assumes "mdns_execute_action w a = Some w'"
    and "\<forall>p s. a \<noteq> ACTION_SERVICE_ADD p s" "\<forall>p. a \<noteq> ACTION_SERVICE_DEL p" "a \<noteq> ACTION_SERVICES_CLEAR"
    and search: "\<forall>s. a = ACTION_SEARCH_ADD s \<longrightarrow> search_ok s"
  shows "evolves w w'"
proof (cases a)
  case (ACTION_SEARCH_ADD s)
  with assms(1) search show ?thesis
    by (auto simp: mdns_execute_action_def mdns_search_add_def intro!: evolves_searches)
next
  case (ACTION_SERVICE_INSTANCE_SET p inst)
  with assms(1) show ?thesis
    by (auto simp: mdns_execute_action_def action_instance_set_def split: bind_splits if_splits
        elim!: evolves_probe_all evolves_send_bye intro!: evolves_update_service)
next
  case (ACTION_SERVICE_TXT_SET p key val)
  with assms(1) show ?thesis
    by (auto simp: mdns_execute_action_def action_txt_set_def split: bind_splits if_splits prod.splits option.splits
        elim!: evolves_announce_all evolves_txt_set intro!: evolves_update_service)
qed (use assms in \<open>auto simp: mdns_execute_action_def action_txt_del_def split: bind_splits if_splits
    elim!: evolves_system_event evolves_restart_all evolves_final_bye evolves_restart_no_instance
      evolves_bye_no_instance evolves_announce_all evolves_search_send evolves_search_finish evolves_parse_packet
      tx_handle_ok
    intro!: evolves_update_service\<close>)

lemma server_ok_pop: "server_ok (w\<lparr>action_queue := a # rest\<rparr>) \<Longrightarrow> server_ok (w\<lparr>action_queue := rest\<rparr>)"
  by (cases a) (simp_all add: server_ok_def queues_ok_def)

lemma execute_action_ok:
  assumes "mdns_execute_action (w\<lparr>action_queue := rest\<rparr>) a = Some w'" "server_ok (w\<lparr>action_queue := a # rest\<rparr>)"
  shows "server_ok w' \<and> action_queue w' = rest"
proof -
  note ok = server_ok_pop [OF assms(2)]
  have search: "\<forall>s. a = ACTION_SEARCH_ADD s \<longrightarrow> search_ok s"
    using assms(2) by (auto simp: server_ok_def queues_ok_def)
  consider (add) p s where "a = ACTION_SERVICE_ADD p s" | (del) p where "a = ACTION_SERVICE_DEL p"
    | (clear) "a = ACTION_SERVICES_CLEAR"
    | (other) "\<forall>p s. a \<noteq> ACTION_SERVICE_ADD p s" "\<forall>p. a \<noteq> ACTION_SERVICE_DEL p" "a \<noteq> ACTION_SERVICES_CLEAR"
    by blast
  then show ?thesis
  proof cases
    case add
    let ?w = "update_service (w\<lparr>action_queue := rest\<rparr>) p s\<lparr>services := p # services w\<rparr>"
    have run: "mdns_probe_all_pcbs ?w [p] False False = Some w'"
      using assms(1) add by (simp add: mdns_execute_action_def)
    note e = evolves_probe_all [OF run evolves_refl] and w = service_add_ok [OF assms(2) [unfolded add]]
    show ?thesis
      using server_ok_evolves [OF w e] server_ok_evolves_queue [OF w e] by (simp add: update_service_def)
  next
    case del
    with assms(1) service_del_ok [OF _ ok, of p w'] show ?thesis by (simp add: mdns_execute_action_def)
  next
    case clear
    with assms(1) services_clear_ok [OF _ ok, of w'] show ?thesis by (simp add: mdns_execute_action_def)
  next
    case other
    note e = evolves_execute [OF assms(1) this search]
    from server_ok_evolves [OF ok e] server_ok_evolves_queue [OF ok e] show ?thesis by simp
  qed
qed

section \<open>Queueing actions\<close>

text \<open>When an action may be queued.\<close>

definition action_fits :: "mdns_world \<Rightarrow> mdns_action_t \<Rightarrow> bool" where
  "action_fits w action = (case action of
     ACTION_SERVICE_ADD p s \<Rightarrow> p \<notin> dom (srv_heap w) \<and> p \<notin> set (queued_adds (action_queue w)) \<and> p < next_ptr w \<and>
       length (services w) < MDNS_MAX_SERVICES \<and> service_typed s
   | ACTION_SEARCH_ADD s \<Rightarrow> search_ok s
   | _ \<Rightarrow> True)"

lemma queued_adds_length: "length (queued_adds as) \<le> length as"
  by (induction as) (auto split: mdns_action_t.splits)

lemma server_ok_push:
  assumes "server_ok w" "action_fits w a" "length (action_queue w) < MDNS_ACTION_QUEUE_LEN"
  shows "server_ok (w\<lparr>action_queue := action_queue w @ [a]\<rparr>)"
proof (cases a)
  case (ACTION_SERVICE_ADD p s)
  with assms queued_adds_length [of "action_queue w"] show ?thesis
    by (simp add: server_ok_def queues_ok_def action_fits_def action_typed_def domIff)
qed (use assms in \<open>simp_all add: server_ok_def queues_ok_def action_fits_def action_typed_def\<close>)

lemma queue_send_ok: "queue_send w a = (ok, w') \<Longrightarrow> server_ok w \<Longrightarrow> action_fits w a \<Longrightarrow> server_ok w'"
  by (auto simp: queue_send_def server_ok_push split: if_splits)

lemma malloc_fits: "malloc w = (ok, w1) \<Longrightarrow> action_fits w1 a = action_fits w a"
  by (cases a) (auto simp: malloc_def action_fits_def split: list.splits simp del: malloc_srv_heap)

lemma server_ok_malloc: "malloc w = (ok, w1) \<Longrightarrow> server_ok w \<Longrightarrow> server_ok w1"
  by (blast intro: server_ok_evolves evolves_malloc evolves_refl)

lemma send_action_ok:
  assumes "send_action w a = (e, w')" "server_ok w" "action_fits w a"
  shows "server_ok w'"
proof -
  obtain ok w1 where m: "malloc w = (ok, w1)" by (cases "malloc w")
  obtain ok2 w2 where q: "queue_send w1 a = (ok2, w2)" by (cases "queue_send w1 a")
  have "server_ok w1" "action_fits w1 a"
    using server_ok_malloc [OF m assms(2)] malloc_fits [OF m] assms(3) by auto
  with queue_send_ok [OF q] assms(1) m q show ?thesis
    by (auto simp: send_action_def Let_def split: if_splits)
qed

lemma action_fits_plain [simp]:
  "action_fits w (ACTION_SYSTEM_EVENT x1)" "action_fits w (ACTION_HOSTNAME_SET x2)" "action_fits w (ACTION_INSTANCE_SET x3)"
  "action_fits w (ACTION_SERVICE_DEL x4)" "action_fits w (ACTION_SERVICE_INSTANCE_SET x5 y5)"
  "action_fits w (ACTION_SERVICE_PORT_SET x6 y6)" "action_fits w (ACTION_SERVICE_TXT_REPLACE x7 y7)"
  "action_fits w (ACTION_SERVICE_TXT_SET x8 y8 z8)" "action_fits w (ACTION_SERVICE_TXT_DEL x9 y9)"
  "action_fits w ACTION_SERVICES_CLEAR" "action_fits w (ACTION_SEARCH_SEND x10)" "action_fits w (ACTION_SEARCH_END x11)"
  "action_fits w (ACTION_TX_HANDLE x12)" "action_fits w (ACTION_RX_HANDLE x13)" "action_fits w ACTION_TASK_STOP"
  by (simp_all add: action_fits_def)

lemma event_handler_ok: "server_ok w \<Longrightarrow> server_ok (event_handler w e)"
  by (cases "send_action w (ACTION_SYSTEM_EVENT e)") (auto simp: event_handler_def dest: send_action_ok)

lemma udp_recv_one_ok: "server_ok w \<Longrightarrow> server_ok (udp_recv_one netif a p w pb)"
proof (cases pb)
  case (fields payload dest mc)
  assume ok: "server_ok w"
  obtain b w1 where m: "malloc w = (b, w1)" by (cases "malloc w")
  have "server_ok (snd (send_action w1 (ACTION_RX_HANDLE r)))" for r
    using send_action_ok [OF _ server_ok_malloc [OF m ok], of "ACTION_RX_HANDLE r"]
    by (cases "send_action w1 (ACTION_RX_HANDLE r)") auto
  then show ?thesis
    using server_ok_malloc [OF m ok]
    by (auto simp: udp_recv_one_def fields m mdns_send_rx_action_def Let_def split: option.splits)
qed

lemma udp_recv_ok: "server_ok w \<Longrightarrow> server_ok (udp_recv netif a p w pbs)"
  unfolding udp_recv_def by (induction pbs arbitrary: w) (auto simp: udp_recv_one_ok)

text \<open>The timer only queues actions and changes the states of packets and searches.\<close>

lemma mark_queued_refs [simp]:
  "\<Union> (tx_refs ` set (mark_queued qs)) = \<Union> (tx_refs ` set qs)" "map tx_send_at (mark_queued qs) = map tx_send_at qs"
  by (induction qs) (auto simp: tx_refs_def)

lemma server_ok_mark: "server_ok w \<Longrightarrow> server_ok (w\<lparr>tx_queue := mark_queued (tx_queue w)\<rparr>)"
  by (erule server_ok_evolves) (rule evolves_queue, simp_all add: queue_refs_def)

lemma scheduler_run_ok: "server_ok w \<Longrightarrow> server_ok (mdns_scheduler_run w)"
proof -
  assume ok: "server_ok w"
  show ?thesis
  proof (cases "find (\<lambda>p. \<not> tx_queued p) (tx_queue w)")
    case (Some p)
    obtain t w1 where n: "now_ms w = (t, w1)" by (cases "now_ms w")
    obtain b w2 where m: "malloc w1 = (b, w2)" by (cases "malloc w1")
    obtain c w3 where q: "queue_send w2 (ACTION_TX_HANDLE (tx_ptr p)) = (c, w3)"
      by (cases "queue_send w2 (ACTION_TX_HANDLE (tx_ptr p))")
    have w1: "server_ok w1" by (rule server_ok_evolves [OF ok evolves_now [OF n evolves_refl]])
    note w2 = server_ok_malloc [OF m w1]
    have w3: "server_ok w3" by (rule queue_send_ok [OF q w2]) simp
    show ?thesis
      using w1 w2 w3 server_ok_mark [OF w3] by (simp add: mdns_scheduler_run_def Some n m q)
  qed (use ok in \<open>simp add: mdns_scheduler_run_def\<close>)
qed

lemma search_run_one_ok:
  assumes "search_run_one now w s = (s1, w1)" "server_ok w"
  shows "server_ok w1 \<and> search_ok s1 = search_ok s \<and> so_ptr s1 = so_ptr s"
  using assms
  by (auto simp: search_run_one_def mdns_send_search_action_def search_ok_def Let_def
      split: if_splits prod.splits dest: send_action_ok)

lemma search_run_all_ok:
  "search_run_all now w ss = (ss1, w1) \<Longrightarrow> server_ok w \<Longrightarrow>
   server_ok w1 \<and> ((\<forall>s\<in>set ss. search_ok s) \<longrightarrow> (\<forall>s\<in>set ss1. search_ok s)) \<and> map so_ptr ss1 = map so_ptr ss"
proof (induction ss arbitrary: w ss1)
  case (Cons s ss)
  then obtain s1 w2 ss2 where r: "search_run_one now w s = (s1, w2)" "search_run_all now w2 ss = (ss2, w1)" "ss1 = s1 # ss2"
    by (auto split: prod.splits)
  from search_run_one_ok [OF r(1) Cons.prems(2)] Cons.IH [OF r(2)] r(3) show ?case by auto
qed simp

lemma search_run_ok: "server_ok w \<Longrightarrow> server_ok (mdns_search_run w)"
proof -
  assume ok: "server_ok w"
  obtain t w1 where n: "now_ms w = (t, w1)" by (cases "now_ms w")
  obtain ss w2 where r: "search_run_all t w1 (search_once w1) = (ss, w2)"
    by (cases "search_run_all t w1 (search_once w1)")
  have w1: "server_ok w1" by (rule server_ok_evolves [OF ok evolves_now [OF n evolves_refl]])
  then have "searches_ok w1" by (simp add: server_ok_def queues_ok_def)
  with search_run_all_ok [OF r w1] have "server_ok w2" "\<forall>s\<in>set ss. search_ok s" by auto
  then have "server_ok (w2\<lparr>search_once := ss\<rparr>)"
    by (intro server_ok_evolves [OF _ evolves_searches [OF evolves_refl]]) auto
  then show ?thesis by (simp add: mdns_search_run_def n r)
qed

lemma timer_cb_ok: "server_ok w \<Longrightarrow> server_ok (mdns_timer_cb w)"
  by (simp add: mdns_timer_cb_def scheduler_run_ok search_run_ok)

lemma service_step_ok:
  assumes "mdns_service_step w = Some (run, w')" "server_ok w"
  shows "server_ok w'"
proof (cases "action_queue w")
  case (Cons a rest)
  have w: "w\<lparr>action_queue := a # rest\<rparr> = w" by (simp add: Cons [symmetric])
  show ?thesis
  proof (cases "a = ACTION_TASK_STOP")
    case True
    with assms Cons show ?thesis
      using server_ok_pop [of a rest w, unfolded w] by (auto simp: mdns_service_step_def)
  next
    case False
    with assms Cons execute_action_ok [of rest w a w'] w show ?thesis
      by (auto simp: mdns_service_step_def)
  qed
qed (use assms in \<open>simp add: mdns_service_step_def\<close>)

section \<open>The public interface\<close>

lemma count_services_iff: "n < MDNS_MAX_SERVICES \<Longrightarrow> count_services as n \<longleftrightarrow> n + length as < MDNS_MAX_SERVICES"
  by (induction as arbitrary: n) (auto simp: Let_def)

lemma server_ok_update [simp]:
  "server_ok (w\<lparr>server_up := x1\<rparr>) = server_ok w" "server_ok (w\<lparr>service_semaphore := x2\<rparr>) = server_ok w"
  "server_ok (w\<lparr>service_task := x3\<rparr>) = server_ok w" "server_ok (w\<lparr>timer_on := x4\<rparr>) = server_ok w"
  "server_ok (w\<lparr>finished := x5\<rparr>) = server_ok w" "server_ok (w\<lparr>hostname := x6\<rparr>) = server_ok w"
  "server_ok (w\<lparr>server_instance := x7\<rparr>) = server_ok w"
  by (simp_all add: server_ok_def queues_ok_def queue_refs_def)

lemma server_ok_strdup: "strdup w t = (r, w1) \<Longrightarrow> server_ok w \<Longrightarrow> server_ok w1"
  by (blast intro: server_ok_evolves evolves_strdup evolves_refl)

lemma create_objects_ok: "create_objects n w = (ok, w1) \<Longrightarrow> server_ok w \<Longrightarrow> server_ok w1"
  by (induction n arbitrary: w) (auto split: prod.splits if_splits dest: server_ok_malloc)

lemma send_name_ok:
  "send_name w name act = (e, w1) \<Longrightarrow> server_ok w \<Longrightarrow> (\<And>w c. action_fits w (act c)) \<Longrightarrow> server_ok w1"
  by (auto simp: send_name_def split: option.splits if_splits prod.splits dest: server_ok_strdup send_action_ok)

lemma with_service_ok:
  assumes "with_service w service proto bad k = Some (e, w1)" "server_ok w"
    "\<And>a e w1. k a = (e, w1) \<Longrightarrow> server_ok w1"
  shows "server_ok w1"
  using assms by (auto simp: with_service_def split: if_splits bind_splits option.splits)

lemma evolves_allocate_txt: "allocate_txt w items acc = (r, w1) \<Longrightarrow> evolves w0 w \<Longrightarrow> evolves w0 w1"
proof (induction items arbitrary: w acc)
  case (Cons kv items)
  obtain k v where kv: "kv = (k, v)" by (cases kv)
  obtain ok1 w2 ok2 w3 ok3 w4 where m: "malloc w = (ok1, w2)" "malloc w2 = (ok2, w3)" "malloc w3 = (ok3, w4)"
    by (metis surj_pair)
  have "evolves w0 w2" "evolves w0 w3" "evolves w0 w4"
    using m Cons.prems(2) by (blast dest: evolves_malloc)+
  with Cons.prems(1) m Cons.IH show ?case
    by (auto simp: kv Let_def split: if_splits)
qed simp

lemma evolves_create_service:
  assumes "mdns_create_service w srv pro port inst items = (r, w1)" "evolves w0 w"
  shows "evolves w0 w1"
proof -
  obtain ok w2 where m: "malloc w = (ok, w2)" by (cases "malloc w")
  obtain nt w3 where t: "allocate_txt w2 items [] = (nt, w3)" by (cases "allocate_txt w2 items []")
  have w3: "evolves w0 w2" "evolves w0 w3"
    using evolves_allocate_txt [OF t] evolves_malloc [OF m assms(2)] by auto
  with assms(1) show ?thesis
    by (cases inst) (auto simp: mdns_create_service_def mdns_allocate_txt_def m t
        split: if_splits option.splits prod.splits dest!: evolves_strdup [of _ _ _ _ w0])
qed

lemma create_service_typed:
  assumes "mdns_create_service w srv pro port inst items = (Some s, w1)" "srv \<noteq> []" "pro \<noteq> []"
  shows "service_typed s"
proof -
  have dup: "snd x = t" if "strdup w t = (Some x, w1)" for x t w w1
    using that by (auto simp: strdup_def Let_def split: prod.splits if_splits)
  show ?thesis
    using assms by (auto simp: mdns_create_service_def service_typed_def strndup_def Let_def
        split: if_splits option.splits prod.splits dest!: dup)
qed

lemma service_add_call_ok:
  assumes "mdns_service_add w later inst service proto port items = Some (e, w1)" "server_ok w"
  shows "server_ok w1"
proof (cases "w1 = w")
  case False
  with assms(1) obtain srv pro where more: "mdns_can_add_more_services w" and sp: "service = Some srv" "proto = Some pro" "srv \<noteq> []" "pro \<noteq> []"
    by (auto simp: mdns_service_add_def arg_empty_def split: if_splits bind_splits)
  obtain r w2 where c: "mdns_create_service w srv pro port inst items = (r, w2)"
    by (cases "mdns_create_service w srv pro port inst items")
  obtain ok w3 where m: "malloc w2 = (ok, w3)" by (cases "malloc w2")
  let ?w4 = "w3\<lparr>next_ptr := Suc (next_ptr w3)\<rparr>"
  have e: "evolves w w2" "evolves w w3"
    using evolves_create_service [OF c evolves_refl] m by (blast dest: evolves_malloc)+
  note ok23 = server_ok_evolves [OF assms(2) e(1)] server_ok_evolves [OF assms(2) e(2)]
  then have "server_ok ?w4" by (auto simp: server_ok_def queues_ok_def)
  moreover have "action_fits ?w4 (ACTION_SERVICE_ADD (next_ptr w3) s)" if "service_typed s" for s
    using that ok23(2) more e(2) assms(2) count_services_iff [of 0 "services w"]
    by (auto simp: action_fits_def server_ok_def queues_ok_def mdns_can_add_more_services_def evolves_def)
  ultimately have "server_ok w5" if "r = Some s" "send_action ?w4 (ACTION_SERVICE_ADD (next_ptr w3) s) = (e, w5)" for s e w5
    using send_action_ok [OF that(2)] create_service_typed [OF c [unfolded that(1)] sp(3,4)] by blast
  with assms ok23 show ?thesis
    by (auto simp: mdns_service_add_def sp c m fresh_ptr_def Let_def split: if_splits bind_splits option.splits prod.splits)
qed (use assms in simp)

lemma query_ok:
  assumes "mdns_query w name service proto type timeout n = (r, w1)" "server_ok w"
  shows "server_ok w1"
proof -
  obtain s w2 where i: "mdns_search_init w name service proto type timeout n = (s, w2)"
    by (cases "mdns_search_init w name service proto type timeout n")
  have w2: "server_ok w2" by (rule server_ok_evolves [OF assms(2) search_init_world [OF i evolves_refl]])
  have "server_ok w3" if "s = Some t" "send_action w2 (ACTION_SEARCH_ADD t) = (e, w3)" for t e w3
    using send_action_ok [OF that(2) w2] search_init_ok i that(1) by (simp add: action_fits_def)
  with assms w2 i show ?thesis
    by (auto simp: mdns_query_def mdns_send_search_action_def split: if_splits option.splits prod.splits)
qed

section \<open>Start and stop\<close>

interpretation deinit_op: pcb_op "\<lambda>w i j. Some (mdns_pcb_deinit w i j)" "{}"
  by unfold_locales auto

lemma server_zero_ok: "length (tx_buffer w) = MDNS_MAX_PACKET_SIZE \<Longrightarrow> server_ok (server_zero w)"
  by (simp add: server_zero_def server_ok_def queues_ok_def queue_refs_def heap_typed_update(1))

lemma server_ok_stop_timer [simp]: "server_ok (mdns_stop_timer w) = server_ok w"
  by (simp add: mdns_stop_timer_def)

lemma start_timer_ok: "mdns_start_timer w = (ok, w1) \<Longrightarrow> server_ok w \<Longrightarrow> server_ok w1"
proof -
  assume run: "mdns_start_timer w = (ok, w1)" and w: "server_ok w"
  obtain ok2 w2 where m: "malloc w = (ok2, w2)" by (cases "malloc w")
  have "server_ok (w2\<lparr>timer_on := True\<rparr>)" using server_ok_malloc [OF m w] by simp
  with run m server_ok_malloc [OF m w] show ?thesis
    by (auto simp: mdns_start_timer_def Let_def split: if_splits dest: server_ok_malloc)
qed

lemma task_start_ok: "mdns_service_task_start w = (ok, w1) \<Longrightarrow> server_ok w \<Longrightarrow> server_ok w1"
proof -
  assume run: "mdns_service_task_start w = (ok, w1)" and w: "server_ok w"
  obtain ok1 w2 where a: "(if service_semaphore w then (True, w)
      else let (ok, w1) = malloc w in (ok, w1\<lparr>service_semaphore := ok\<rparr>)) = (ok1, w2)" by fastforce
  have w2: "server_ok w2"
    using a w by (auto split: if_splits prod.splits dest: server_ok_malloc)
  obtain ok2 w3 ok3 w4 where m: "mdns_start_timer w2 = (ok2, w3)" "malloc w3 = (ok3, w4)"
    by (metis surj_pair)
  have "server_ok w3" using start_timer_ok [OF m(1) w2] .
  moreover from server_ok_malloc [OF m(2) this] have "server_ok w4" .
  ultimately show ?thesis
    using w2 run unfolding mdns_service_task_start_def a by (auto simp: m Let_def split: if_splits)
qed

lemma evolves_init_pcbs: "init_pcbs w i = Some w' \<Longrightarrow> evolves w0 w \<Longrightarrow> evolves w0 w'"
  by (auto simp: init_pcbs_def split: bind_splits option.splits if_splits dest: evolves_enable)

lemma for_each_if_ok:
  "for_each_if f is w = Some w' \<Longrightarrow> server_ok w \<Longrightarrow> (\<And>w i w'. f w i = Some w' \<Longrightarrow> evolves w w') \<Longrightarrow> server_ok w'"
  by (induction f "is" w rule: for_each_if.induct) (auto split: bind_splits dest: server_ok_evolves)

lemma init_ok:
  assumes "mdns_init w = Some (e, w')" "server_ok w"
  shows "server_ok w'"
proof -
  obtain ok w1 where m: "malloc w = (ok, w1)" by (cases "malloc w")
  obtain ok4 w2 where c: "create_objects 4 (server_zero w1) = (ok4, w2)" by (cases "create_objects 4 (server_zero w1)")
  have w1: "server_ok w1" by (rule server_ok_malloc [OF m assms(2)])
  then have w2: "server_ok w2"
    using create_objects_ok [OF c server_zero_ok] by (simp add: server_ok_def queues_ok_def)
  have w3: "server_ok w3" if "for_each_if init_pcbs all_ifs w2 = Some w3" for w3
    by (rule for_each_if_ok [OF that w2]) (blast intro: evolves_init_pcbs evolves_refl)
  have w5: "server_ok w5" if "for_each_if (\<lambda>w i. mdns_disable_pcb w i MDNS_IP_PROTOCOL_V6 \<bind>
      (\<lambda>w1. mdns_disable_pcb w1 i MDNS_IP_PROTOCOL_V4)) all_ifs w4 = Some w5" "server_ok w4" for w4 w5
    by (rule for_each_if_ok [OF that]) (auto split: bind_splits elim!: evolves_disable)
  show ?thesis
    using assms w1 w2 by (auto simp: mdns_init_def m c Let_def split: if_splits bind_splits prod.splits
        dest!: w3 dest: task_start_ok w5)
qed

lemma run_actions_ok:
  "run_actions w as = Some w' \<Longrightarrow> server_ok w \<Longrightarrow> action_queue w = as \<Longrightarrow> server_ok w'"
proof (induction as arbitrary: w)
  case (Cons a as)
  then obtain w1 where run: "mdns_execute_action (w\<lparr>action_queue := as\<rparr>) a = Some w1" "run_actions w1 as = Some w'"
    by (auto split: bind_splits)
  have w: "w\<lparr>action_queue := a # as\<rparr> = w" by (simp add: Cons.prems(3) [symmetric])
  from execute_action_ok [OF run(1)] w Cons.prems(2) have "server_ok w1 \<and> action_queue w1 = as" by simp
  with Cons.IH [OF run(2)] show ?case by blast
qed simp

lemma free_ok:
  assumes "mdns_free w = Some w'" "server_ok w"
  shows "server_ok w'"
proof (cases "server_up w")
  case True
  obtain e w1 where r: "mdns_service_remove_all w = (e, w1)" by (cases "mdns_service_remove_all w")
  have w1: "server_ok w1"
    using r assms(2) send_action_ok [of w ACTION_SERVICES_CLEAR e w1]
    by (auto simp: mdns_service_remove_all_def split: if_splits)
  from assms(1) True r obtain w2 w3 where w2: "mdns_service_task_stop w1 = Some w2" and
    w3: "for_each_pcb (\<lambda>w i j. Some (mdns_pcb_deinit w i j)) all_pcbs w2 = Some w3" and
    w': "w' = w3\<lparr>hostname := None, server_instance := None, action_queue := [], tx_queue := [],
           search_once := [], server_up := False\<rparr>"
    by (auto simp: mdns_free_def split: bind_splits if_splits)
  have "server_ok w2"
    using w2 w1 run_actions_ok [of "mdns_stop_timer w1" "action_queue w1"]
    by (auto simp: mdns_service_task_stop_def mdns_stop_timer_def Let_def split: bind_splits if_splits)
  moreover have "evolves w2 w3"
    by (rule deinit_op.each_evolves [OF _ w3]) simp
  ultimately have "server_ok w3" by (rule server_ok_evolves)
  then show ?thesis
    unfolding w' by (auto simp: server_ok_def queues_ok_def queue_refs_def)
qed (use assms in \<open>simp add: mdns_free_def\<close>)

section \<open>The responder as a state machine\<close>

text \<open>The steps of the program: a round of the service task, the timer, an event of the system, a
  received datagram, the calls of the public interface from other tasks, and a change of the
  environment. Each step is one C function, except that \<^verbatim>\<open>mdns_query\<close> is split at its semaphore; the
  functions hold the service mutex, or only queue an action.\<close>

inductive server_step :: "mdns_world \<Rightarrow> mdns_world \<Rightarrow> bool" where
  task: "mdns_service_step w = Some (run, w') \<Longrightarrow> server_step w w'"
| timer: "server_step w (mdns_timer_cb w)"
| event: "server_step w (event_handler w e)"
| recv: "server_step w (udp_recv netif a p w pbs)"
| init: "mdns_init w = Some (err, w') \<Longrightarrow> server_step w w'"
| free: "mdns_free w = Some w' \<Longrightarrow> server_step w w'"
| hostname_set: "mdns_hostname_set w name = (err, w') \<Longrightarrow> server_step w w'"
| instance_set: "mdns_instance_name_set w name = (err, w') \<Longrightarrow> server_step w w'"
| service_add: "mdns_service_add w later inst srv pro port items = Some (err, w') \<Longrightarrow> server_step w w'"
| port_set: "mdns_service_port_set w srv pro port = Some (err, w') \<Longrightarrow> server_step w w'"
| txt_replace: "mdns_service_txt_set w srv pro new = Some (err, w') \<Longrightarrow> server_step w w'"
| txt_item_set: "mdns_service_txt_item_set w srv pro key val = Some (err, w') \<Longrightarrow> server_step w w'"
| txt_item_remove: "mdns_service_txt_item_remove w srv pro key = Some (err, w') \<Longrightarrow> server_step w w'"
| service_instance_set: "mdns_service_instance_name_set w srv pro name = Some (err, w') \<Longrightarrow> server_step w w'"
| service_remove: "mdns_service_remove w srv pro = Some (err, w') \<Longrightarrow> server_step w w'"
| service_remove_all: "mdns_service_remove_all w = (err, w') \<Longrightarrow> server_step w w'"
| query: "mdns_query w name srv pro type timeout max_results = (r, w') \<Longrightarrow> server_step w w'"
| collect: "mdns_query_collect w p = Some (rs, w') \<Longrightarrow> server_step w w'"
| environment: "server_step w (w\<lparr>alloc_script := e1, ticks := e2, randoms := e3, ip_info := e4, ip6_linklocal := e5,
    junk := e6, stack_junk := e7, dhcpc_stopped := e8, netif_up := e9, join_fails := e10, udp_bind_fails := e11,
    netif_error := e12\<rparr>)"

inductive reachable :: "mdns_world \<Rightarrow> bool" where
  boot: "reachable boot_world"
| step: "reachable w \<Longrightarrow> server_step w w' \<Longrightarrow> reachable w'"

lemma service_call_ok:
  assumes "server_ok w"
  shows "mdns_service_port_set w srv pro port = Some (e, w') \<Longrightarrow> server_ok w'"
    "mdns_service_txt_set w srv pro new = Some (e, w') \<Longrightarrow> server_ok w'"
    "mdns_service_txt_item_set w srv pro key val = Some (e, w') \<Longrightarrow> server_ok w'"
    "mdns_service_txt_item_remove w srv pro key = Some (e, w') \<Longrightarrow> server_ok w'"
    "mdns_service_instance_name_set w srv pro name = Some (e, w') \<Longrightarrow> server_ok w'"
    "mdns_service_remove w srv pro = Some (e, w') \<Longrightarrow> server_ok w'"
proof -
  have objects: "server_ok w3" if "create_objects n w = (ok, w2)" "queue_send w2 a = (b, w3)" "\<And>w. action_fits w a"
    for n ok w2 a b w3
    using queue_send_ok [OF that(2) create_objects_ok [OF that(1) assms]] that(3) by blast
  have items: "server_ok w2" if "mdns_allocate_txt w items = (r, w2)" for items r w2
    using server_ok_evolves [OF assms evolves_allocate_txt [OF that [unfolded mdns_allocate_txt_def] evolves_refl]] .
  show "mdns_service_port_set w srv pro port = Some (e, w') \<Longrightarrow> server_ok w'"
    "mdns_service_txt_set w srv pro new = Some (e, w') \<Longrightarrow> server_ok w'"
    "mdns_service_txt_item_set w srv pro key val = Some (e, w') \<Longrightarrow> server_ok w'"
    "mdns_service_txt_item_remove w srv pro key = Some (e, w') \<Longrightarrow> server_ok w'"
    "mdns_service_instance_name_set w srv pro name = Some (e, w') \<Longrightarrow> server_ok w'"
    "mdns_service_remove w srv pro = Some (e, w') \<Longrightarrow> server_ok w'"
    unfolding mdns_service_port_set_def mdns_service_txt_set_def mdns_service_txt_item_set_def
      mdns_service_txt_item_remove_def mdns_service_instance_name_set_def mdns_service_remove_def
    by (erule with_service_ok [OF _ assms],
        auto simp: Let_def split: prod.splits if_splits dest: items objects create_objects_ok [OF _ assms]
          send_action_ok [OF _ assms] send_action_ok send_name_ok [OF _ assms])+
qed

lemma server_step_ok: "server_step w w' \<Longrightarrow> server_ok w \<Longrightarrow> server_ok w'"
proof (induction rule: server_step.induct)
  case (collect w p rs w')
  then show ?case by (auto simp: mdns_query_collect_def split: bind_splits)
next
  case (environment w e1 e2 e3 e4 e5 e6 e7 e8 e9 e10 e11 e12)
  then show ?case by (simp add: server_ok_def queues_ok_def queue_refs_def)
qed (auto simp: mdns_hostname_set_def mdns_instance_name_set_def mdns_service_remove_all_def
    intro: timer_cb_ok event_handler_ok udp_recv_ok split: if_splits
    dest: service_step_ok init_ok free_ok service_add_call_ok service_call_ok query_ok send_action_ok send_name_ok)

lemma boot_ok: "server_ok boot_world"
  by (simp add: boot_world_def server_ok_def queues_ok_def queue_refs_def heap_typed_update(1))

lemma reachable_ok: "reachable w \<Longrightarrow> server_ok w"
  by (induction rule: reachable.induct) (auto intro: boot_ok server_step_ok)

section \<open>What holds in every reachable state\<close>

lemma service_item_returns: "set as \<subseteq> dom (srv_heap w) \<Longrightarrow> service_item_from w srv pro as \<noteq> None"
  by (induction as) (auto simp del: not_None_eq)

lemma get_service_item_returns: "server_ok w \<Longrightarrow> mdns_get_service_item w srv pro \<noteq> None"
  unfolding mdns_get_service_item_def by (rule service_item_returns) (simp add: server_ok_def)

lemma name_is_ours_returns:
  assumes "server_ok w"
  shows "mdns_name_is_ours w name \<noteq> None"
proof -
  obtain item where item: "mdns_get_service_item w (n_service name) (n_proto name) = Some item"
    using get_service_item_returns [OF assms] by fastforce
  have "\<exists>s. srv_heap w a = Some s" if "item = Some a" for a
    using get_service_item_Some(2) [OF item [unfolded that]] by blast
  with item show ?thesis
    by (cases item) (auto simp: mdns_name_is_ours_def)
qed

text \<open>The responder started at power-on, for the instances of the theorems.\<close>

definition started_world :: mdns_world where
  "started_world = (server_zero boot_world)\<lparr>service_semaphore := True, timer_on := True, service_task := True\<rparr>"

lemma init_boot: "mdns_init boot_world = Some (ESP_OK, started_world)"
  by (simp add: mdns_init_def boot_world_def malloc_def server_zero_def create_objects.simps numeral_eq_Suc Let_def
      all_ifs_def init_pcbs_def mdns_service_task_start_def mdns_start_timer_def started_world_def)

lemma reachable_started: "reachable started_world"
  using reachable.step [OF reachable.boot server_step.init [OF init_boot]] .

text \<open>C1: in every state that the responder can reach, whatever the order of calls, timer ticks, events,
  received packets and failing allocations, the invariant holds: the packet buffer has its size, the
  transmit queue is sorted by send time and refers to existing services only, the registered services
  are distinct and are exactly the service objects on the heap, the action queue holds at most 16
  actions, the services that it will register are new, every search keeps to its limit, and the names of
  all services fit.\<close>

theorem reachable_invariant:
  assumes "reachable w"
  shows "server_ok w"
  using assms by (rule reachable_ok)

theorem reachable_invariant_witness: "server_ok started_world"
  using reachable_invariant [OF reachable_started] .

text \<open>C2: no reachable state has a dangling pointer to a service: every service that a scheduled
  packet or the list of services refers to exists, and looking up a service or asking whether a name is
  ours never touches freed memory.\<close>

theorem reachable_no_dangling:
  assumes "reachable w"
  shows "(\<forall>p\<in>set (tx_queue w). \<forall>a\<in>tx_refs p. srv_heap w a \<noteq> None) \<and>
    (\<forall>a\<in>set (services w). srv_heap w a \<noteq> None) \<and>
    mdns_get_service_item w srv pro \<noteq> None \<and> mdns_name_is_ours w name \<noteq> None"
proof -
  note ok = reachable_ok [OF assms]
  have "queue_refs w \<subseteq> dom (srv_heap w)" "set (services w) = dom (srv_heap w)"
    using ok by (simp_all add: server_ok_def queues_ok_def)
  then show ?thesis
    using get_service_item_returns [OF ok] name_is_ours_returns [OF ok]
    by (auto simp: queue_refs_def simp del: not_None_eq)
qed

theorem reachable_no_dangling_witness: "mdns_get_service_item started_world (lit ''_http'') (lit ''_tcp'') \<noteq> None"
  using reachable_no_dangling [OF reachable_started, of "lit ''_http''" "lit ''_tcp''"] by blast



text \<open>C19: the type of a service. Every service object, and every service that a queued action will register, has
  a type and a protocol that are not empty and fit into a name buffer of 65 bytes with its terminator; no
  operation on the service, no rename after a conflict and no received packet changes that.\<close>

theorem reachable_services_typed:
  assumes "reachable w" "srv_heap w a = Some s \<or> ACTION_SERVICE_ADD a s \<in> set (action_queue w)"
  shows "0 < length (snd (s_service s)) \<and> length (snd (s_service s)) \<le> 64 \<and>
    0 < length (snd (s_proto s)) \<and> length (snd (s_proto s)) \<le> 64"
proof -
  have "heap_typed (srv_heap w)" "list_all action_typed (action_queue w)"
    using reachable_ok [OF assms(1)] by (simp_all add: server_ok_def queues_ok_def)
  with assms(2) have "service_typed s"
    by (force simp: heap_typed_def list_all_iff action_typed_def)
  then show ?thesis by (simp add: service_typed_def)
qed

text \<open>A service is requested on the started responder.\<close>

definition requested_service :: mdns_service_t where
  "requested_service = \<lparr>s_instance = None, s_service = (1, lit ''_http''), s_proto = (2, lit ''_tcp''), s_priority = 0,
     s_weight = 0, s_port = 80, s_txt = []\<rparr>"

lemma request_on_started:
  "\<exists>err w'. mdns_service_add started_world (\<lambda>_. started_world) None (Some (lit ''_http'')) (Some (lit ''_tcp'')) 80 [] =
     Some (err, w') \<and> ACTION_SERVICE_ADD 3 requested_service \<in> set (action_queue w')"
  by (simp add: mdns_service_add_def arg_empty_def started_world_def server_zero_def boot_world_def
      mdns_can_add_more_services_def mdns_get_service_item_def mdns_create_service_def mdns_allocate_txt_def
      strdup_def malloc_def fresh_ptr_def send_action_def queue_send_def requested_service_def strndup_def lit_def Let_def)

theorem reachable_services_typed_witness: "length (snd (s_service requested_service)) \<le> 64"
proof -
  obtain err w' where w': "mdns_service_add started_world (\<lambda>_. started_world) None (Some (lit ''_http''))
      (Some (lit ''_tcp'')) 80 [] = Some (err, w')" "ACTION_SERVICE_ADD 3 requested_service \<in> set (action_queue w')"
    using request_on_started by blast
  have "reachable w'" by (rule reachable.step [OF reachable_started server_step.service_add [OF w'(1)]])
  with reachable_services_typed [of w' 3 requested_service] w'(2) show ?thesis by blast
qed

section \<open>Timer, queue and service task together\<close>



text \<open>The timer callback of the searches only appends to the action queue.\<close>

lemma search_run_all_queue:
  "search_run_all now w ss = (ss1, w1) \<Longrightarrow>
   length ss1 = length ss \<and> finished w1 = finished w \<and> (\<exists>as. action_queue w1 = action_queue w @ as)"
proof (induction ss arbitrary: w ss1)
  case (Cons s ss)
  then obtain s1 w2 ss2 where r: "search_run_one now w s = (s1, w2)" "search_run_all now w2 ss = (ss2, w1)" "ss1 = s1 # ss2"
    by (auto split: prod.splits)
  have "\<exists>as. action_queue w2 = action_queue w @ as \<and> finished w2 = finished w"
    using r(1) by (auto simp: search_run_one_def mdns_send_search_action_def send_action_def queue_send_def malloc_def Let_def
        split: if_splits list.splits simp del: malloc_srv_heap)
  with Cons.IH [OF r(2)] r(3) show ?case by auto
qed simp


definition demo_search :: mdns_search_once_t where
  "demo_search = \<lparr>so_ptr = 9, so_state = SEARCH_RUNNING, so_started_at = 0, so_sent_at = 0, so_timeout = 100,
     so_done = False, so_type = MDNS_TYPE_PTR, so_max_results = 5, so_num_results = 0, so_instance = None,
     so_service = Some (10, lit ''_http''), so_proto = Some (11, lit ''_tcp''), so_result = []\<rparr>"


section \<open>Services through the queue\<close>

text \<open>C32: registering and removing a service. After the service task has registered a service, a lookup of
  its type finds it, in whatever case the letters are; after it has removed a registered service, no lookup
  finds that service any more, and its memory is free.\<close>

theorem service_add_remove:
  assumes "server_ok w"
  shows "(\<forall>a s w'. mdns_execute_action w (ACTION_SERVICE_ADD a s) = Some w' \<longrightarrow> strcaseeq (snd (s_service s)) srv \<longrightarrow>
      strcaseeq (snd (s_proto s)) pro \<longrightarrow> mdns_get_service_item w' srv pro = Some (Some a)) \<and>
    (\<forall>a w'. mdns_execute_action w (ACTION_SERVICE_DEL a) = Some w' \<longrightarrow> a \<in> set (services w) \<longrightarrow>
      mdns_get_service_item w' srv pro \<noteq> Some (Some a) \<and> srv_heap w' a = None)"
proof (intro conjI allI impI)
  fix a s w'
  assume run: "mdns_execute_action w (ACTION_SERVICE_ADD a s) = Some w'" and
    eq: "strcaseeq (snd (s_service s)) srv" "strcaseeq (snd (s_proto s)) pro"
  let ?w = "update_service w a s\<lparr>services := a # services w\<rparr>"
  have "evolves ?w w'"
    using run by (auto simp: mdns_execute_action_def elim!: evolves_probe_all)
  moreover have "length (tx_buffer ?w) = MDNS_MAX_PACKET_SIZE"
    using assms by (simp add: server_ok_def queues_ok_def update_service_def)
  ultimately have "mdns_get_service_item w' srv pro = mdns_get_service_item ?w srv pro"
    by (rule get_service_item_evolves)
  then show "mdns_get_service_item w' srv pro = Some (Some a)"
    using eq by (simp add: mdns_get_service_item_def update_service_def)
next
  fix a w'
  assume run: "mdns_execute_action w (ACTION_SERVICE_DEL a) = Some w'" and a: "a \<in> set (services w)"
  let ?w = "w\<lparr>services := remove1 a (services w)\<rparr>"
  from run a obtain w1 where b: "mdns_send_bye ?w [a] False = Some w1" "forget_service w1 a = Some w'"
    by (auto simp: mdns_execute_action_def action_service_del_def split: bind_splits if_splits)
  have q: "queues_ok ?w" using assms by (simp add: server_ok_def)
  note e = queues_ok_evolves [OF q evolves_send_bye [OF b(1) evolves_refl]]
  note f = forget_service_ok [OF b(2) e [THEN conjunct1]]
  have "distinct (services w)" using assms by (simp add: server_ok_def)
  then have "a \<notin> set (services w')" "a \<notin> dom (srv_heap w')" using e f by auto
  then show "mdns_get_service_item w' srv pro \<noteq> Some (Some a)" "srv_heap w' a = None"
    using get_service_item_Some(1) [of w' srv pro a] by auto
qed

theorem service_add_remove_witness:
  "\<exists>w'. mdns_execute_action started_world (ACTION_SERVICE_ADD 1 demo_service) = Some w' \<and>
     mdns_get_service_item w' (lit ''_HTTP'') (lit ''_tcp'') = Some (Some 1)"
proof -
  have "\<not> pcb_pcb (interfaces started_world i j)" for i j
    by (simp add: started_world_def server_zero_def)
  then have "\<exists>w'. mdns_execute_action started_world (ACTION_SERVICE_ADD 1 demo_service) = Some w'"
    by (simp add: mdns_execute_action_def mdns_probe_all_pcbs_def all_pcbs_def all_ifs_def all_protocols_def update_service_def)
  then obtain w' where w': "mdns_execute_action started_world (ACTION_SERVICE_ADD 1 demo_service) = Some w'" by blast
  have "strcaseeq (snd (s_service demo_service)) (lit ''_HTTP'')" "strcaseeq (snd (s_proto demo_service)) (lit ''_tcp'')"
    by (simp_all add: demo_service_def strcaseeq_def lit_def of_char_def tolower_def)
  with service_add_remove [OF reachable_ok [OF reachable_started], of "lit ''_HTTP''" "lit ''_tcp''"] w' show ?thesis by blast
qed

section \<open>Results of the public functions\<close>

lemma send_action_result:
  "send_action w a = (e, w') \<Longrightarrow> e \<in> {ESP_OK, ESP_ERR_NO_MEM} \<and>
   action_queue w' = (if e = ESP_OK then action_queue w @ [a] else action_queue w) \<and> services w' = services w \<and> srv_heap w' = srv_heap w"
  by (auto simp: send_action_def queue_send_def malloc_def Let_def split: if_splits list.splits simp del: malloc_srv_heap)

lemma strdup_result: "strdup w t = (r, w') \<Longrightarrow> action_queue w' = action_queue w \<and> (\<forall>c. r = Some c \<longrightarrow> snd c = t)"
  by (auto simp: strdup_def malloc_def fresh_ptr_def Let_def split: if_splits list.splits simp del: malloc_srv_heap)

text \<open>setting the host name. The call is refused exactly when the responder is not running or the name
  is missing, empty or longer than 64 characters, and then changes nothing. It succeeds exactly when it has
  queued one action that carries the whole name; when memory or queue space is lacking, no action is
  queued.\<close>

theorem hostname_set_results:
  assumes "mdns_hostname_set w name = (err, w')"
  shows "(err = ESP_ERR_INVALID_ARG \<longleftrightarrow> \<not> server_up w \<or> arg_empty name \<or> length (the name) > 64) \<and>
    (err = ESP_ERR_INVALID_ARG \<longrightarrow> w' = w) \<and> err \<in> {ESP_OK, ESP_ERR_INVALID_ARG, ESP_ERR_NO_MEM} \<and>
    (err = ESP_OK \<longrightarrow> (\<exists>a. action_queue w' = action_queue w @ [ACTION_HOSTNAME_SET (a, the name)])) \<and>
    (err \<noteq> ESP_OK \<longrightarrow> action_queue w' = action_queue w)"
proof (cases "server_up w \<and> \<not> arg_empty name \<and> length (the name) \<le> 64")
  case True
  then obtain t where t: "name = Some t" "t \<noteq> []" "length t \<le> 64" "server_up w"
    by (auto simp: arg_empty_def split: option.splits)
  obtain r w1 where r: "strdup w (strndup t (MDNS_NAME_BUF_LEN - 1)) = (r, w1)"
    by (cases "strdup w (strndup t (MDNS_NAME_BUF_LEN - 1))")
  show ?thesis
  proof (cases r)
    case None
    with assms t r strdup_result [OF r] show ?thesis
      by (auto simp: mdns_hostname_set_def send_name_def arg_empty_def)
  next
    case (Some c)
    with strdup_result [OF r] t have c: "snd c = t" by (simp add: strndup_def)
    have "send_action w1 (ACTION_HOSTNAME_SET c) = (err, w')"
      using assms t r Some by (simp add: mdns_hostname_set_def send_name_def)
    from send_action_result [OF this] strdup_result [OF r] c t show ?thesis
      by (cases c) (auto simp: arg_empty_def)
  qed
next
  case False
  with assms show ?thesis
    by (auto simp: mdns_hostname_set_def send_name_def arg_empty_def split: if_splits option.splits)
qed

theorem hostname_set_results_witness:
  "\<exists>a w'. mdns_hostname_set demo_world (Some (lit ''lamp'')) = (ESP_OK, w') \<and> action_queue w' = [ACTION_HOSTNAME_SET (a, lit ''lamp'')]"
proof -
  obtain w' where w': "mdns_hostname_set demo_world (Some (lit ''lamp'')) = (ESP_OK, w')"
    by (simp add: mdns_hostname_set_def send_name_def lit_def strndup_def strdup_def malloc_def fresh_ptr_def send_action_def queue_send_def)
  with hostname_set_results [OF w'] show ?thesis by auto
qed

text \<open>A service can be added as long as fewer than ten are registered.\<close>

lemma can_add_more_services_iff:
  "mdns_can_add_more_services w \<longleftrightarrow> length (services w) < MDNS_MAX_SERVICES"
  using count_services_iff [of 0 "services w"] by (simp add: mdns_can_add_more_services_def)

lemma poll_service_iff:
  "i + n = 201 \<Longrightarrow> poll_service seen n i \<le> 201 \<and> (poll_service seen n i < 200 \<longleftrightarrow> (\<exists>k. i \<le> k \<and> k < 200 \<and> seen k))"
proof (induction n arbitrary: i)
  case (Suc n)
  show ?case
  proof (cases "seen i")
    case False
    then have "(\<exists>k. i \<le> k \<and> k < 200 \<and> seen k) \<longleftrightarrow> (\<exists>k. Suc i \<le> k \<and> k < 200 \<and> seen k)"
      by (metis Suc_leD Suc_leI le_neq_implies_less)
    then show ?thesis using Suc.IH [of "Suc i"] Suc.prems False by auto
  qed (use Suc.prems in auto)
qed simp

lemma create_service_result:
  assumes "mdns_create_service w srv pro port inst items = (Some s, w1)"
  shows "s_port s = port \<and> snd (s_service s) = take 64 srv \<and> snd (s_proto s) = take 64 pro"
  using assms by (auto simp: mdns_create_service_def strndup_def Let_def split: if_splits option.splits prod.splits
      dest!: strdup_result)

lemma create_service_queue:
  assumes "mdns_create_service w srv pro port inst items = (r, w1)" "length (tx_buffer w) = MDNS_MAX_PACKET_SIZE"
  shows "action_queue w1 = action_queue w"
  using evolves_create_service [OF assms(1) evolves_refl] assms(2) by (simp add: evolves_def)

text \<open>adding a service. The call reports success only if it was allowed (a valid type and port, fewer than
  ten services, none of this type), if an action carrying the service was queued, and if the service
  task registered it within 200 polls. If it was queued but not seen in time the result is a failure, and
  the service may still appear later. On every other error nothing is queued.\<close>

theorem service_add_results:
  assumes "mdns_service_add w later inst (Some srv) (Some pro) port items = Some (err, w')"
    "length (tx_buffer w) = MDNS_MAX_PACKET_SIZE"
  defines "seen \<equiv> \<lambda>k. \<exists>a. mdns_get_service_item (later k) srv pro = Some (Some a)"
  shows "if err \<in> {ESP_OK, ESP_FAIL}
    then server_up w \<and> srv \<noteq> [] \<and> pro \<noteq> [] \<and> port \<noteq> 0 \<and> length (services w) < MDNS_MAX_SERVICES \<and>
      mdns_get_service_item w srv pro = Some None \<and> (err = ESP_OK \<longleftrightarrow> (\<exists>k<200. seen k)) \<and>
      (\<exists>a s. action_queue w' = action_queue w @ [ACTION_SERVICE_ADD a s] \<and> s_port s = port \<and>
         snd (s_service s) = take 64 srv \<and> snd (s_proto s) = take 64 pro)
    else err \<in> {ESP_ERR_INVALID_ARG, ESP_ERR_NO_MEM} \<and> action_queue w' = action_queue w"
proof (cases "w' = w \<and> err \<in> {ESP_ERR_INVALID_ARG, ESP_ERR_NO_MEM}")
  case False
  let ?seen = "\<lambda>k. case mdns_get_service_item (later k) srv pro of Some (Some _) \<Rightarrow> True | _ \<Rightarrow> False"
  have seen: "?seen = seen" by (auto simp: seen_def split: option.splits)
  from False assms(1) have args: "server_up w" "srv \<noteq> []" "pro \<noteq> []" "port \<noteq> 0" "mdns_can_add_more_services w"
    and item: "mdns_get_service_item w srv pro = Some None"
    by (auto simp: mdns_service_add_def arg_empty_def split: if_splits bind_splits)
  obtain r w1 where c: "mdns_create_service w srv pro port inst items = (r, w1)"
    by (cases "mdns_create_service w srv pro port inst items")
  obtain ok w2 where m: "malloc w1 = (ok, w2)" by (cases "malloc w1")
  have q: "action_queue w1 = action_queue w" "action_queue w2 = action_queue w"
    using create_service_queue [OF c assms(2)] m by (auto simp: malloc_def split: list.splits simp del: malloc_srv_heap)
  have n: "length (services w) < MDNS_MAX_SERVICES"
    using args(5) count_services_iff [of 0 "services w"] by (simp add: mdns_can_add_more_services_def)
  show ?thesis
  proof (cases "r = None \<or> \<not> ok")
    case True
    with assms(1) args item c m q show ?thesis
      by (cases r) (auto simp: mdns_service_add_def arg_empty_def)
  next
    case ok: False
    then obtain s where s: "r = Some s" by auto
    let ?w3 = "w2\<lparr>next_ptr := Suc (next_ptr w2)\<rparr>"
    obtain e w4 where a: "send_action ?w3 (ACTION_SERVICE_ADD (next_ptr w2) s) = (e, w4)"
      by (cases "send_action ?w3 (ACTION_SERVICE_ADD (next_ptr w2) s)")
    note act = send_action_result [OF a]
    have res: "(err, w') = (if e \<noteq> ESP_OK then (e, w4) else (if poll_service ?seen 201 0 \<ge> 200 then ESP_FAIL else ESP_OK, w4))"
      using assms(1) args item c m ok s a by (auto simp: mdns_service_add_def arg_empty_def fresh_ptr_def Let_def split: if_splits)
    show ?thesis
      using res act q n args item create_service_result [OF c [unfolded s]] poll_service_iff [of 0 201 seen]
      unfolding seen by (auto split: if_splits)
  qed
qed (use assms(1) in auto)

theorem service_add_results_witness:
  "\<exists>w'. mdns_service_add started_world (\<lambda>_. demo_world) None (Some (lit ''_http'')) (Some (lit ''_tcp'')) 80 [] = Some (ESP_OK, w') \<and>
     (\<exists>a s. action_queue w' = [ACTION_SERVICE_ADD a s] \<and> s_port s = 80)"
proof -
  have seen: "mdns_get_service_item demo_world (lit ''_http'') (lit ''_tcp'') = Some (Some 5)"
    by (simp add: mdns_get_service_item_def demo_service_def)
  have w: "server_up started_world" "services started_world = []" "alloc_script started_world = []" "action_queue started_world = []"
    "length (tx_buffer started_world) = 1460"
    by (simp_all add: started_world_def server_zero_def boot_world_def)
  have none: "mdns_get_service_item started_world (lit ''_http'') (lit ''_tcp'') = Some None" "lit ''_http'' \<noteq> []" "lit ''_tcp'' \<noteq> []"
    using w by (simp_all add: mdns_get_service_item_def lit_def)
  have "poll_service (\<lambda>k. True) 201 0 = 0" by (simp add: numeral_eq_Suc)
  then obtain w' where run: "mdns_service_add started_world (\<lambda>_. demo_world) None (Some (lit ''_http'')) (Some (lit ''_tcp'')) 80 [] = Some (ESP_OK, w')"
    using w seen none by (simp add: mdns_service_add_def arg_empty_def mdns_can_add_more_services_def
        mdns_create_service_def mdns_allocate_txt_def malloc_def strdup_def fresh_ptr_def send_action_def queue_send_def)
  from service_add_results [OF run w(5)] w run show ?thesis by auto
qed

section \<open>Errors at the edges\<close>

text \<open>what \<^verbatim>\<open>mdns_parse_packet\<close> does with the header. A response that does not come from the mDNS port and a
  query for a responder without a host name are ignored. A packet shorter than the header is not refused:
  the code reads behind the end of the received data.\<close>

theorem parse_packet_header:
  assumes "fst (malloc w)"
  shows "(length (rx_payload packet) < MDNS_HEAD_LEN \<longrightarrow> mdns_parse_packet w packet = None) \<and>
    (\<forall>header. mdns_read_header (rx_payload packet) = Some header \<longrightarrow>
       h_flags header = MDNS_FLAGS_AUTHORITATIVE \<and> rx_src_port packet \<noteq> MDNS_SERVICE_PORT \<or>
       h_questions header \<noteq> 0 \<and> str_null_or_empty (hostname w) \<longrightarrow>
       mdns_parse_packet w packet = Some (snd (malloc w)))"
proof -
  obtain w1 where m: "malloc w = (True, w1)" using assms by (cases "malloc w") auto
  have "hostname w1 = hostname w" using m by (auto simp: malloc_def split: list.splits)
  moreover have "mdns_read_u16 data (n - 2) = None" if "length data < n" "2 \<le> n" for data n
  proof -
    have "\<not> Suc (n - 2) < length data" using that by linarith
    then show ?thesis by (simp add: mdns_read_u16_def load8_def)
  qed
  from this [of "rx_payload packet" MDNS_HEAD_LEN]
  have "length (rx_payload packet) < MDNS_HEAD_LEN \<Longrightarrow> mdns_read_header (rx_payload packet) = None"
    by (cases "mdns_read_header (rx_payload packet)") (auto simp: mdns_read_header_def split: bind_splits)
  ultimately show ?thesis
    using m by (auto simp: mdns_parse_packet_def Let_def)
qed

theorem parse_packet_header_witness:
  "mdns_parse_packet demo_world (demo_rx\<lparr>rx_payload := [0, 0, 0x84]\<rparr>) = None"
  using parse_packet_header [of demo_world "demo_rx\<lparr>rx_payload := [0, 0, 0x84]\<rparr>"] by (simp add: malloc_def)

text \<open>A datagram is handed to the parser only for an interface on which it can have come in: the input
  interface, with its control block in use and, for IPv4, a source address in its subnet.\<close>

theorem rx_interface_sound:
  assumes "rx_interface w input_netif ip_protocol src ifs = Some i"
  shows "i \<in> set ifs \<and> pcb_pcb (interfaces w i ip_protocol) \<and> (\<exists>addr netmask. input_netif i = Some (addr, netmask) \<and>
    (\<forall>s. src = IP4 s \<longrightarrow> s AND netmask = addr AND netmask))"
  using assms by (induction ifs) (auto split: option.splits prod.splits if_splits ip_addr_t.splits)

theorem rx_interface_sound_witness:
  "rx_interface demo_world (\<lambda>i. if i = TCPIP_ADAPTER_IF_STA then Some (0x0204A8C0, 0x00FFFFFF) else None)
     MDNS_IP_PROTOCOL_V4 (IP4 0x0304A8C0) all_ifs = Some TCPIP_ADAPTER_IF_STA \<and>
   (0x0304A8C0 :: u32) AND 0x00FFFFFF = 0x0204A8C0 AND 0x00FFFFFF"
proof -
  let ?n = "\<lambda>i. if i = TCPIP_ADAPTER_IF_STA then Some (0x0204A8C0, 0x00FFFFFF) else None"
  have run: "rx_interface demo_world ?n MDNS_IP_PROTOCOL_V4 (IP4 0x0304A8C0) all_ifs = Some TCPIP_ADAPTER_IF_STA"
    by (simp add: all_ifs_def)
  with rx_interface_sound [OF run] show ?thesis by simp
qed

text \<open>a search that ends twice. If a search reaches its limit while the action that ends it on timeout is
  already queued, executing that action touches the search after its caller has freed it.\<close>

theorem search_end_after_done:
  assumes "distinct (map so_ptr (search_once w))" "s \<in> set (search_once w)" "search_is_full s"
    "mdns_search_finish_done w = Some w'"
  shows "mdns_execute_action w' (ACTION_SEARCH_END (so_ptr s)) = None"
proof -
  have "search_once w' = filter (\<lambda>s. \<not> search_is_full s) (search_once w)"
    using search_finish_done_eq [OF assms(1)] assms(4) by auto
  then have "find_search w' (so_ptr s) = None"
    using assms(1-3) by (auto simp: find_search_def find_None_iff distinct_map inj_on_def)
  then show ?thesis
    by (simp add: mdns_execute_action_def mdns_search_finish_def)
qed

theorem search_end_after_done_witness:
  "\<exists>w'. mdns_search_finish_done (demo_world\<lparr>search_once := [full_search]\<rparr>) = Some w' \<and>
     mdns_execute_action w' (ACTION_SEARCH_END 9) = None"
proof -
  let ?w = "demo_world\<lparr>search_once := [full_search]\<rparr>"
  have f: "search_is_full full_search" "so_ptr full_search = 9" by (simp_all add: search_is_full_def full_search_def)
  obtain w' where w': "mdns_search_finish_done ?w = Some w'"
    using search_finish_done_eq [of ?w] by simp
  with search_end_after_done [of ?w full_search w'] f show ?thesis by simp
qed

text \<open>\<^verbatim>\<open>mdns_free\<close> with a full action queue. When the stop action does not fit into the queue, the task is
  deleted and the queued actions are freed; an action for a scheduled packet or a search frees an object that
  is freed again with the queue or the chain it is in.\<close>

theorem free_double_free:
  assumes "server_ok w" "server_up w" "service_task w" "length (action_queue w) = MDNS_ACTION_QUEUE_LEN"
    "list_ex action_double_free (action_queue w)"
  shows "mdns_free w = None"
proof -
  obtain e w1 where r: "mdns_service_remove_all w = (e, w1)" by (cases "mdns_service_remove_all w")
  have w1: "action_queue w1 = action_queue w" "service_task w1 = service_task w" "server_ok w1"
    using r assms(1,4) send_action_ok [of w ACTION_SERVICES_CLEAR e w1]
    by (auto simp: mdns_service_remove_all_def send_action_def queue_send_def malloc_def Let_def
        split: if_splits list.splits simp del: malloc_srv_heap)
  let ?w2 = "w1\<lparr>timer_on := False, service_task := False, service_semaphore := False\<rparr>"
  have stop: "mdns_service_task_stop w1 = Some ?w2"
    using w1 assms(3,4) by (simp add: mdns_service_task_stop_def mdns_stop_timer_def queue_send_def Let_def)
  have "action_queue w3 = action_queue w"
    if "for_each_pcb (\<lambda>w i j. Some (mdns_pcb_deinit w i j)) all_pcbs ?w2 = Some w3" for w3
  proof -
    have "evolves ?w2 w3" by (rule deinit_op.each_evolves [OF _ that]) simp
    from server_ok_evolves_queue [OF _ this] w1 show ?thesis by simp
  qed
  with stop r assms(2,5) show ?thesis
    by (auto simp: mdns_free_def split: bind_splits)
qed

theorem free_double_free_witness:
  "mdns_free (started_world\<lparr>action_queue := replicate 16 (ACTION_TX_HANDLE 7)\<rparr>) = None"
proof -
  let ?q = "replicate 16 (ACTION_TX_HANDLE 7)"
  have q: "queued_adds ?q = []" "queued_searches ?q = []" "list_ex action_double_free ?q" "list_all action_typed ?q"
    by (simp_all add: numeral_eq_Suc action_double_free_def action_typed_def)
  have "server_ok (started_world\<lparr>action_queue := ?q\<rparr>)"
    using reachable_ok [OF reachable_started] q by (auto simp: server_ok_def queues_ok_def)
  moreover have "server_up started_world" "service_task started_world"
    by (simp_all add: started_world_def server_zero_def)
  ultimately show ?thesis
    using free_double_free [of "started_world\<lparr>action_queue := ?q\<rparr>"] q by simp
qed


end
