(* ===== verification/Mdns_Replies.thy ===== *)
theory Mdns_Replies
  imports Mdns_Parse
begin

text \<open>
  What the packets of the responder contain: the records of announcements and of replies, for the
  definitions of \<open>Mdns_Packets\<close>, against the records that the protocol asks for.
\<close>

section \<open>Announcements\<close>

text \<open>The record that a request for an answer makes.\<close>

definition requested_answer :: "u16 \<times> srv_ptr option \<times> bool \<times> bool \<Rightarrow> mdns_out_answer_t" where
  "requested_answer = (\<lambda>(type, service, flush, bye). \<lparr>oa_type = type, oa_bye = bye, oa_flush = flush, oa_service = service,
     oa_custom_instance = None, oa_custom_service = None, oa_custom_proto = None\<rparr>)"

lemma requested_answer_key [simp]: "answer_key (requested_answer (t, s, f, b)) = (t, s)"
  by (simp add: requested_answer_def answer_key_def)

lemma alloc_answers_fresh:
  assumes "alloc_script w = []" "distinct (map answer_key (dest @ map requested_answer rs))"
  shows "alloc_answers w dest rs = (True, dest @ map requested_answer rs, w)"
  using assms
proof (induction rs arbitrary: dest)
  case (Cons r rs)
  obtain t s f b where r: "r = (t, s, f, b)" by (cases r)
  have "\<not> list_ex (is_answer t s) dest"
    using Cons.prems(2) by (force simp: r is_answer_key list_ex_iff image_iff)
  then have "mdns_alloc_answer w dest t s f b = (True, dest @ [requested_answer r], w)"
    using Cons.prems(1) by (simp add: mdns_alloc_answer_def malloc_def r requested_answer_def)
  with Cons.IH [of "dest @ [requested_answer r]"] Cons.prems show ?case
    by (simp add: r)
qed simp

lemma alloc_packet_default_script:
  assumes "alloc_script w = []"
  shows "\<exists>p w1. mdns_alloc_packet_default w i j = (Some p, w1) \<and> alloc_script w1 = [] \<and> tx_questions p = [] \<and>
    tx_answers p = [] \<and> tx_servers p = [] \<and> tx_additional p = [] \<and> tx_if p = i \<and> tx_protocol p = j \<and>
    tx_dst p = mdns_multicast_addr j \<and> tx_port p = MDNS_SERVICE_PORT"
  using assms by (simp add: mdns_alloc_packet_default_def malloc_def fresh_ptr_def)

text \<open>The records of an announcement, each with its service.\<close>

definition announced :: "srv_ptr list \<Rightarrow> bool \<Rightarrow> (u16 \<times> srv_ptr option) list" where
  "announced srvs ip = [(t, Some s). s \<leftarrow> srvs, t \<leftarrow> [MDNS_TYPE_SDPTR, MDNS_TYPE_PTR, MDNS_TYPE_SRV, MDNS_TYPE_TXT]] @
     (if ip then [(MDNS_TYPE_A, None), (MDNS_TYPE_AAAA, None)] else [])"

lemma announce_requests_keys:
  "map (answer_key \<circ> requested_answer) (concat (map (announce_service \<circ> Some) srvs) @ (if ip then announce_ip else [])) =
   announced srvs ip"
  by (induction srvs) (simp_all add: announced_def announce_service_def announce_ip_def)

lemma announced_distinct: "distinct srvs \<Longrightarrow> distinct (announced srvs ip)"
  by (induction srvs) (auto simp: announced_def)

lemma announce_from_probe_eq:
  assumes "map answer_key (tx_servers probe) = map (\<lambda>s. (MDNS_TYPE_SRV, Some s)) srvs @
      (if ip then [(MDNS_TYPE_A, None), (MDNS_TYPE_AAAA, None)] else [])"
  shows "mdns_create_announce_from_probe w probe =
    mdns_create_announce_packet w (tx_if probe) (tx_protocol probe) srvs ip"
proof -
  have one: "announce_of_probe a = (\<lambda>(t, s). if t = MDNS_TYPE_SRV then announce_service s
      else if t = MDNS_TYPE_A \<or> t = MDNS_TYPE_AAAA then [(t, None, True, False)] else []) (answer_key a)" for a
    by (simp add: announce_of_probe_def answer_key_def)
  have "concat (map announce_of_probe (tx_servers probe)) =
      concat (map (announce_service \<circ> Some) srvs) @ (if ip then announce_ip else [])"
    unfolding one [abs_def] map_map [symmetric, unfolded comp_def] assms
    by (simp add: announce_ip_def comp_def)
  then show ?thesis
    unfolding mdns_create_announce_from_probe_def mdns_create_announce_packet_def by (simp only:)
qed

text \<open>C10: an announcement. Without allocation failures the packet that announces services carries, in this
  order, the service type, pointer, SRV and TXT record of each service and then, if asked for, the two
  address records of the host, and nothing else; the unique records have the cache-flush bit, none is a
  goodbye; it is an authoritative response to the multicast group of its interface. A probe that proposed
  the same records turns into exactly the same announcement.\<close>

theorem announcement_exact:
  assumes "alloc_script w = []" "distinct srvs"
  shows "\<exists>p w1. mdns_create_announce_packet w i j srvs ip = (Some p, w1) \<and> map answer_key (tx_answers p) = announced srvs ip \<and>
    (\<forall>a\<in>set (tx_answers p). \<not> oa_bye a \<and> (oa_flush a \<longleftrightarrow> oa_type a \<notin> {MDNS_TYPE_SDPTR, MDNS_TYPE_PTR})) \<and>
    tx_questions p = [] \<and> tx_servers p = [] \<and> tx_additional p = [] \<and> tx_flags p = MDNS_FLAGS_AUTHORITATIVE \<and>
    tx_if p = i \<and> tx_protocol p = j \<and> tx_dst p = mdns_multicast_addr j \<and> tx_port p = MDNS_SERVICE_PORT \<and>
    (\<forall>probe. tx_if probe = i \<and> tx_protocol probe = j \<and>
       map answer_key (tx_servers probe) = map (\<lambda>s. (MDNS_TYPE_SRV, Some s)) srvs @
         (if ip then [(MDNS_TYPE_A, None), (MDNS_TYPE_AAAA, None)] else []) \<longrightarrow>
       mdns_create_announce_from_probe w probe = (Some p, w1))"
proof -
  let ?rs = "concat (map (announce_service \<circ> Some) srvs) @ (if ip then announce_ip else [])"
  obtain p w1 where p: "mdns_alloc_packet_default w i j = (Some p, w1)" "alloc_script w1 = []" "tx_questions p = []"
    "tx_answers p = []" "tx_servers p = []" "tx_additional p = []" "tx_if p = i" "tx_protocol p = j"
    "tx_dst p = mdns_multicast_addr j" "tx_port p = MDNS_SERVICE_PORT"
    using alloc_packet_default_script [OF assms(1)] by blast
  let ?p = "p\<lparr>tx_flags := MDNS_FLAGS_AUTHORITATIVE, tx_answers := map requested_answer ?rs\<rparr>"
  have keys: "map answer_key (map requested_answer ?rs) = announced srvs ip"
    using announce_requests_keys by simp
  have "alloc_answers w1 [] ?rs = (True, [] @ map requested_answer ?rs, w1)"
    by (rule alloc_answers_fresh [OF p(2)]) (use keys announced_distinct [OF assms(2)] in simp)
  then have run: "mdns_create_announce_packet w i j srvs ip = (Some ?p, w1)"
    using p by (simp add: mdns_create_announce_packet_def add_answers_def)
  have flags: "\<forall>a\<in>set (tx_answers ?p). \<not> oa_bye a \<and> (oa_flush a \<longleftrightarrow> oa_type a \<notin> {MDNS_TYPE_SDPTR, MDNS_TYPE_PTR})"
    by (auto simp: announce_service_def announce_ip_def requested_answer_def)
  show ?thesis
    by (rule exI [of _ ?p], rule exI [of _ w1], intro conjI run flags allI impI)
      (use p keys announce_from_probe_eq [of _ srvs ip w] run in auto)
qed

theorem announcement_exact_witness:
  "\<exists>p w1. mdns_create_announce_packet boot_world TCPIP_ADAPTER_IF_STA MDNS_IP_PROTOCOL_V4 [5] False = (Some p, w1) \<and>
     map answer_key (tx_answers p) = [(MDNS_TYPE_SDPTR, Some 5), (MDNS_TYPE_PTR, Some 5), (MDNS_TYPE_SRV, Some 5), (MDNS_TYPE_TXT, Some 5)]"
  using announcement_exact [of boot_world "[5]" TCPIP_ADAPTER_IF_STA MDNS_IP_PROTOCOL_V4 False]
  by (auto simp: boot_world_def announced_def)

section \<open>Replies\<close>

text \<open>The records of the answer section and the additional section of a packet.\<close>

definition reply_keys :: "mdns_tx_packet_t \<Rightarrow> (u16 \<times> srv_ptr option) set" where
  "reply_keys p = answer_key ` (set (tx_answers p) \<union> set (tx_additional p))"

definition reply_distinct :: "mdns_tx_packet_t \<Rightarrow> bool" where
  "reply_distinct p \<longleftrightarrow> distinct (map answer_key (tx_answers p)) \<and> distinct (map answer_key (tx_additional p))"

text \<open>What a question asks for: with a service, its records by the type of the question, together with the
  addresses of the host where a name of the host is part of the answer; without one, the addresses, or the
  one record asked for.\<close>

definition question_keys :: "u16 \<Rightarrow> srv_ptr option \<Rightarrow> (u16 \<times> srv_ptr option) set" where
  "question_keys type service = (let addresses = {(MDNS_TYPE_A, None), (MDNS_TYPE_AAAA, None)} in
     case service of
       None \<Rightarrow> if type \<in> {MDNS_TYPE_ANY, MDNS_TYPE_A, MDNS_TYPE_AAAA} then addresses else {(type, None)}
     | Some s \<Rightarrow>
         if type = MDNS_TYPE_PTR \<or> type = MDNS_TYPE_ANY
         then {(MDNS_TYPE_PTR, Some s), (MDNS_TYPE_SRV, Some s), (MDNS_TYPE_TXT, Some s)} \<union> addresses
         else if type = MDNS_TYPE_SRV then insert (MDNS_TYPE_SRV, Some s) addresses
         else if type = MDNS_TYPE_TXT then {(MDNS_TYPE_TXT, Some s)}
         else if type = MDNS_TYPE_SDPTR then {(MDNS_TYPE_SDPTR, Some s)} else {})"

text \<open>A reply to such a question is delayed, because other hosts may answer it as well.\<close>

definition question_shared :: "bool \<Rightarrow> u16 \<Rightarrow> srv_ptr option \<Rightarrow> bool" where
  "question_shared probe type service \<longleftrightarrow> service \<noteq> None \<and>
     (type \<in> {MDNS_TYPE_PTR, MDNS_TYPE_SDPTR} \<or> type = MDNS_TYPE_ANY \<and> \<not> probe)"

definition request_keys :: "(u16 \<times> srv_ptr option \<times> bool \<times> bool) list \<Rightarrow> (u16 \<times> srv_ptr option) set" where
  "request_keys rs = (\<lambda>(t, s, f, b). (t, s)) ` set rs"

lemma add_answers_keys:
  assumes "add_answers w p rs = (ok, p1, w1)" "alloc_script w = []" "reply_distinct p"
  shows "ok \<and> alloc_script w1 = [] \<and> reply_distinct p1 \<and> reply_keys p1 = reply_keys p \<union> request_keys rs"
proof -
  obtain as where a: "alloc_answers w (tx_answers p) rs = (ok, as, w1)" "p1 = p\<lparr>tx_answers := as\<rparr>"
    using assms(1) by (auto simp: add_answers_def split: prod.splits)
  show ?thesis
    using alloc_answers_keys [OF a(1)] alloc_answers_script [OF assms(2) a(1)] assms(3)
    by (auto simp: a(2) reply_distinct_def reply_keys_def request_keys_def image_Un)
qed

lemma add_additional_keys:
  assumes "add_additional w p rs = (ok, p1, w1)" "alloc_script w = []" "reply_distinct p"
  shows "ok \<and> alloc_script w1 = [] \<and> reply_distinct p1 \<and> reply_keys p1 = reply_keys p \<union> request_keys rs"
proof -
  obtain as where a: "alloc_answers w (tx_additional p) rs = (ok, as, w1)" "p1 = p\<lparr>tx_additional := as\<rparr>"
    using assms(1) by (auto simp: add_additional_def split: prod.splits)
  show ?thesis
    using alloc_answers_keys [OF a(1)] alloc_answers_script [OF assms(2) a(1)] assms(3)
    by (auto simp: a(2) reply_distinct_def reply_keys_def request_keys_def image_Un)
qed

lemma answer_question_keys:
  assumes "answer_question w sf probe q service p sh = (ok, p1, sh1, w1)" "alloc_script w = []" "reply_distinct p"
  shows "reply_distinct p1 \<and> reply_keys p1 = reply_keys p \<union> question_keys (pq_type q) service \<and>
    (sh1 \<longleftrightarrow> sh \<or> question_shared probe (pq_type q) service)"
proof -
  define add where "add b = (if b then add_additional else add_answers)" for b
  have one: "reply_distinct p1 \<and> reply_keys p1 = reply_keys p \<union> request_keys rs \<and> (sh1 \<longleftrightarrow> sh2)"
    if "(case add_answers w p rs of (ok, p1, w1) \<Rightarrow> (ok, p1, sh2, w1)) = (ok, p1, sh1, w1)" for rs sh2
    using that add_answers_keys [OF _ assms(2,3)] by (auto split: prod.splits)
  have two: "reply_distinct p1 \<and> reply_keys p1 = reply_keys p \<union> (request_keys rs \<union> request_keys rs') \<and> (sh1 \<longleftrightarrow> sh2)"
    if run: "(case add_answers w p rs of (ok, p1, w1) \<Rightarrow> if \<not> ok then (False, p1, sh2, w1)
        else case add b w1 p1 rs' of (ok2, p2, w2) \<Rightarrow> (ok2, p2, sh2, w2)) = (ok, p1, sh1, w1)" for rs rs' sh2 b
  proof -
    obtain ok2 p2 w2 where a: "add_answers w p rs = (ok2, p2, w2)" by (metis surj_pair)
    note k = add_answers_keys [OF a assms(2,3)]
    obtain ok3 p3 w3 where b: "add b w2 p2 rs' = (ok3, p3, w3)" by (metis surj_pair)
    have "reply_distinct p3 \<and> reply_keys p3 = reply_keys p2 \<union> request_keys rs'"
      using b k add_answers_keys [of w2 p2 rs'] add_additional_keys [of w2 p2 rs'] by (auto simp: add_def split: if_splits)
    with k run a b show ?thesis by auto
  qed
  show ?thesis
  proof (cases service)
    case None
    let ?host = "pq_type q = MDNS_TYPE_ANY \<or> pq_type q = MDNS_TYPE_A \<or> pq_type q = MDNS_TYPE_AAAA"
    have run: "(case add_answers w p (if ?host then [(MDNS_TYPE_A, None, sf, False), (MDNS_TYPE_AAAA, None, sf, False)]
        else [(pq_type q, None, sf, False)]) of (ok, p1, w1) \<Rightarrow> (ok, p1, sh, w1)) = (ok, p1, sh1, w1)"
      using assms(1) by (cases ?host) (auto simp: answer_question_def None)
    show ?thesis
      using one [OF run] by (auto simp: None question_keys_def question_shared_def request_keys_def)
  next
    case (Some s)
    have extra: "(if b then add_additional else add_answers) = add b" "add_additional = add True" for b
      by (simp_all add: add_def)
    note run = assms(1) [unfolded answer_question_def Let_def Some option.case extra(1)]
    consider (both) "pq_type q = MDNS_TYPE_PTR \<or> pq_type q = MDNS_TYPE_ANY" | (srv) "pq_type q = MDNS_TYPE_SRV"
      | (info) "pq_type q = MDNS_TYPE_TXT" | (sdptr) "pq_type q = MDNS_TYPE_SDPTR"
      | (none) "pq_type q \<notin> {MDNS_TYPE_PTR, MDNS_TYPE_ANY, MDNS_TYPE_SRV, MDNS_TYPE_TXT, MDNS_TYPE_SDPTR}"
      by blast
    then show ?thesis
    proof cases
      case both
      from two [OF run [unfolded if_P [OF both]]] both show ?thesis
        by (auto simp: Some question_keys_def question_shared_def request_keys_def)
    next
      case srv
      have "(case add_answers w p [(MDNS_TYPE_SRV, Some s, sf, False)] of (ok, p1, w1) \<Rightarrow> if \<not> ok then (False, p1, sh, w1)
          else case add True w1 p1 [(MDNS_TYPE_A, None, sf, False), (MDNS_TYPE_AAAA, None, sf, False)] of
            (ok2, p2, w2) \<Rightarrow> (ok2, p2, sh, w2)) = (ok, p1, sh1, w1)"
        unfolding extra(2) [symmetric] using run srv by simp
      from two [OF this] srv show ?thesis
        by (auto simp: Some question_keys_def question_shared_def request_keys_def)
    next
      case info
      from one [where rs = "[(MDNS_TYPE_TXT, Some s, sf, False)]" and ?sh2.0 = sh] run info show ?thesis
        by (simp add: Some question_keys_def question_shared_def request_keys_def)
    next
      case sdptr
      from one [where rs = "[(MDNS_TYPE_SDPTR, Some s, False, False)]" and ?sh2.0 = True] run sdptr show ?thesis
        by (simp add: Some question_keys_def question_shared_def request_keys_def)
    next
      case none
      with run assms(3) show ?thesis
        by (simp add: Some question_keys_def question_shared_def)
    qed
  qed
qed

text \<open>The service that a question names.\<close>

definition asked_service :: "mdns_world \<Rightarrow> mdns_parsed_question_t \<Rightarrow> srv_ptr option" where
  "asked_service w q = (case question_service w q of Some (_, service) \<Rightarrow> service | None \<Rightarrow> None)"


definition demo_question :: mdns_parsed_question_t where
  "demo_question = \<lparr>pq_type = MDNS_TYPE_TXT, pq_unicast = False, pq_host = None,
     pq_service = Some (lit ''_http''), pq_proto = Some (lit ''_tcp''), pq_domain = Some (lit ''local'')\<rparr>"

lemma demo_question_service: "question_service demo_world demo_question = Some (True, Some 5)"
  by (simp add: demo_question_def question_service_def mdns_get_service_item_def demo_service_def strcaseeq_def
      tolower_def lit_def of_char_def)


end
