(* ===== verification/Mdns_Cycle.thy ===== *)
theory Mdns_Cycle
  imports Mdns_Replies
begin

text \<open>
  The whole life of a probe: repeated handling of the packets of one control block, from the first probe to
  the running state.
\<close>

section \<open>Sending keeps the allocator\<close>

lemma dispatch_script:
  assumes "mdns_dispatch_tx_packet w p = Some w'" "length (tx_buffer w) = MDNS_MAX_PACKET_SIZE" "alloc_script w = []"
  shows "alloc_script w' = [] \<and> length (tx_buffer w') = MDNS_MAX_PACKET_SIZE"
proof -
  have len: "MDNS_MAX_PACKET_SIZE \<le> length (tx_buffer w)" using assms(2) by simp
  obtain t n w3 where w3: "packet_ok (tx_flags p) (drop MDNS_MAX_PACKET_SIZE (tx_buffer w)) (t, n)" "same_server w w3" and
    wr: "mdns_udp_pcb_write (w3\<lparr>tx_buffer := t\<rparr>) (tx_if p) (tx_protocol p) (tx_dst p) (tx_port p) t n = Some w'"
    by (rule dispatch_buffer [OF assms(1) len])
  show ?thesis
    using w3 udp_pcb_write_Some [OF wr] assms(2,3) by (auto simp: same_server_def packet_ok_def wbuf_ok_def)
qed

lemma schedule_script [simp]:
  "alloc_script (mdns_schedule_tx_packet w p d) = alloc_script w"
  "tx_buffer (mdns_schedule_tx_packet w p d) = tx_buffer w"
  by (simp_all add: mdns_schedule_tx_packet_def now_ms_def Let_def split: list.splits prod.splits)

lemma set_pcb_script [simp]:
  "alloc_script (set_pcb w i j b) = alloc_script w" "tx_buffer (set_pcb w i j b) = tx_buffer w"
  by (simp_all add: set_pcb_def)

lemma announce_from_probe_script:
  assumes "alloc_script w = []" "length (tx_buffer w) = MDNS_MAX_PACKET_SIZE"
  shows "\<exists>a w1. mdns_create_announce_from_probe w p = (Some a, w1) \<and> alloc_script w1 = [] \<and>
    length (tx_buffer w1) = MDNS_MAX_PACKET_SIZE"
proof -
  obtain q w1 where q: "mdns_alloc_packet_default w (tx_if p) (tx_protocol p) = (Some q, w1)" "alloc_script w1 = []"
    using alloc_packet_default_script [OF assms(1)] by blast
  let ?q = "q\<lparr>tx_flags := MDNS_FLAGS_AUTHORITATIVE\<rparr>" and ?rs = "concat (map announce_of_probe (tx_servers p))"
  obtain ok q1 w2 where a: "add_answers w1 ?q ?rs = (ok, q1, w2)" by (metis surj_pair)
  have "ok" "alloc_script w2 = []" using add_answers_script(1,2) [OF q(2), of ?q ?rs] a by simp_all
  moreover have "evolves w w2"
    using ans.add_evolves [OF a evolves_alloc_packet [OF q(1) evolves_refl]] .
  ultimately show ?thesis
    using q(1) a assms(2) by (simp add: mdns_create_announce_from_probe_def evolves_def)
qed

lemma tx_handle_script:
  assumes "mdns_tx_handle_packet w p = Some w'" "alloc_script w = []" "length (tx_buffer w) = MDNS_MAX_PACKET_SIZE"
  shows "alloc_script w' = [] \<and> length (tx_buffer w') = MDNS_MAX_PACKET_SIZE"
proof (cases "pcb_state (interfaces w (tx_if p) (tx_protocol p)) = PCB_OFF")
  case False
  then obtain w1 where w1: "mdns_dispatch_tx_packet w p = Some w1"
    using assms(1) by (auto simp: mdns_tx_handle_packet_def Let_def split: bind_splits)
  note ok = dispatch_script [OF w1 assms(3,2)]
  obtain a w2 where w2: "mdns_create_announce_from_probe w1 p = (Some a, w2)" "alloc_script w2 = []"
    "length (tx_buffer w2) = MDNS_MAX_PACKET_SIZE"
    using announce_from_probe_script ok by blast
  show ?thesis
    using assms(1) False ok w2
    by (cases "pcb_state (interfaces w1 (tx_if p) (tx_protocol p))") (auto simp: mdns_tx_handle_packet_def Let_def w1)
qed (use assms in \<open>simp add: mdns_tx_handle_packet_def\<close>)

section \<open>From the first probe to the running state\<close>

text \<open>The next packet of a control block is taken from the transmit queue and handled, as the service task
  does with a packet that is due.\<close>

definition pcb_send_next ::
  "mdns_world \<Rightarrow> tcpip_adapter_if_t \<Rightarrow> mdns_ip_protocol_t \<Rightarrow> mdns_world option" where
  "pcb_send_next w i j = (case mdns_get_next_pcb_packet w i j of
     None \<Rightarrow> None
   | Some p \<Rightarrow> mdns_tx_handle_packet (w\<lparr>tx_queue := remove1 p (tx_queue w)\<rparr>) p)"

fun pcb_sends :: "nat \<Rightarrow> mdns_world \<Rightarrow> tcpip_adapter_if_t \<Rightarrow> mdns_ip_protocol_t \<Rightarrow> mdns_world option" where
  "pcb_sends 0 w i j = Some w"
| "pcb_sends (Suc n) w i j = do { w1 \<leftarrow> pcb_sends n w i j; pcb_send_next w1 i j }"

text \<open>What holds between two packets of the cycle, when the control block is in state \<open>s\<close>.\<close>

definition cycle_at :: "mdns_pcb_state_t \<Rightarrow> mdns_world \<Rightarrow> tcpip_adapter_if_t \<Rightarrow> mdns_ip_protocol_t \<Rightarrow> bool" where
  "cycle_at s w i j \<longleftrightarrow> alloc_script w = [] \<and> length (tx_buffer w) = MDNS_MAX_PACKET_SIZE \<and>
     pcb_state (interfaces w i j) = s \<and> (s < PCB_RUNNING \<longrightarrow> mdns_get_next_pcb_packet w i j \<noteq> None)"

lemma cycle_step:
  assumes "cycle_at s w i j" "PCB_INIT < s" "s < PCB_RUNNING" "pcb_send_next w i j = Some w'"
  shows "cycle_at (pcb_next_state s) w' i j"
proof -
  obtain p where p: "mdns_get_next_pcb_packet w i j = Some p"
    "mdns_tx_handle_packet (w\<lparr>tx_queue := remove1 p (tx_queue w)\<rparr>) p = Some w'"
    using assms(4) by (auto simp: pcb_send_next_def split: option.splits)
  have on: "tx_if p = i" "tx_protocol p = j"
    using p(1) by (auto simp: mdns_get_next_pcb_packet_def tx_on_def find_Some_iff)
  let ?w = "w\<lparr>tx_queue := remove1 p (tx_queue w)\<rparr>"
  have w: "alloc_script ?w = []" "length (tx_buffer ?w) = MDNS_MAX_PACKET_SIZE" "pcb_state (interfaces ?w i j) = s"
    using assms(1) by (simp_all add: cycle_at_def)
  define b where "b = interfaces ?w i j"
  have bs: "pcb_state b = s" using w(3) by (simp add: b_def)
  obtain ws b' nxt ann where c: "w' = set_pcb ws i j b'" "pcb_sent b p ann = (b', nxt)"
    "tx_queue ws = queue_next (fst (now_ms ?w)) nxt (tx_queue ?w)"
    "case ann of None \<Rightarrow> pcb_state b = PCB_PROBE_3 \<longrightarrow> False \<in> set (alloc_script ?w) | Some x \<Rightarrow> announces p x"
    using tx_handle_cases [OF p(2) w(2) refl] unfolding on b_def [symmetric] by blast
  have b': "pcb_state b' = pcb_next_state s"
    using c(2,4) bs w(1) assms(2,3) by (cases s; cases ann) (auto simp: pcb_sent_def pcb_order_simps)
  have "mdns_get_next_pcb_packet w' i j \<noteq> None" if "pcb_next_state s < PCB_RUNNING"
  proof -
    have "pcb_sends_again (pcb_state b)"
      using that assms(2,3) bs by (cases s) (simp_all add: pcb_sends_again_def pcb_order_simps)
    moreover have "case ann of None \<Rightarrow> True | Some x \<Rightarrow> announces p x" using c(4) by (simp split: option.splits)
    ultimately show ?thesis
      using queue_next_on [OF c(2)] by (simp add: c(1,3) on mdns_get_next_pcb_packet_def del: not_None_eq)
  qed
  with tx_handle_script [OF p(2) w(1,2)] b' c(1) show ?thesis by (simp add: cycle_at_def)
qed

definition cycle_states :: "mdns_pcb_state_t list" where
  "cycle_states = [PCB_PROBE_1, PCB_PROBE_2, PCB_PROBE_3, PCB_ANNOUNCE_1, PCB_ANNOUNCE_2, PCB_ANNOUNCE_3, PCB_RUNNING]"

text \<open>C15: a probe runs to its end. When a control block is in the first probe state with its probe scheduled and no
  allocation fails, its packets lead it through three probes and three announcements into the running state,
  one state with each packet, and until then there is always another packet in the queue; the
  only way not to get there is that the code does not come back from sending one of them.\<close>

theorem probe_cycle_completes:
  assumes "alloc_script w = []" "length (tx_buffer w) = MDNS_MAX_PACKET_SIZE"
    "pcb_state (interfaces w i j) = PCB_PROBE_1" "mdns_get_next_pcb_packet w i j \<noteq> None" "n \<le> 6"
  shows "case pcb_sends n w i j of
      Some w' \<Rightarrow> pcb_state (interfaces w' i j) = cycle_states ! n \<and> (n < 6 \<longrightarrow> mdns_get_next_pcb_packet w' i j \<noteq> None)
    | None \<Rightarrow> \<exists>k < n. \<exists>w' p. pcb_sends k w i j = Some w' \<and> mdns_get_next_pcb_packet w' i j = Some p \<and>
        mdns_dispatch_tx_packet (w'\<lparr>tx_queue := remove1 p (tx_queue w')\<rparr>) p = None"
proof -
  have run: "cycle_at (cycle_states ! n) w' i j" if "pcb_sends n w i j = Some w'" "n \<le> 6" for n w'
    using that
  proof (induction n arbitrary: w')
    case 0
    with assms(1-4) show ?case by (simp add: cycle_at_def cycle_states_def)
  next
    case (Suc n)
    then obtain w1 where w1: "pcb_sends n w i j = Some w1" "pcb_send_next w1 i j = Some w'"
      by (auto split: bind_splits)
    have s: "PCB_INIT < cycle_states ! n" "cycle_states ! n < PCB_RUNNING" "pcb_next_state (cycle_states ! n) = cycle_states ! Suc n"
      using Suc.prems(2) by (auto simp: cycle_states_def nth_Cons' pcb_order_simps)
    from cycle_step [OF Suc.IH [OF w1(1)] s(1,2) w1(2)] Suc.prems(2) s(3) show ?case by simp
  qed
  have stuck: "\<exists>k < n. \<exists>w' p. pcb_sends k w i j = Some w' \<and> mdns_get_next_pcb_packet w' i j = Some p \<and>
      mdns_dispatch_tx_packet (w'\<lparr>tx_queue := remove1 p (tx_queue w')\<rparr>) p = None" if "pcb_sends n w i j = None" "n \<le> 6" for n
    using that
  proof (induction n)
    case (Suc n)
    show ?case
    proof (cases "pcb_sends n w i j")
      case None
      with Suc obtain k w' p where "k < n" "pcb_sends k w i j = Some w'" "mdns_get_next_pcb_packet w' i j = Some p"
        "mdns_dispatch_tx_packet (w'\<lparr>tx_queue := remove1 p (tx_queue w')\<rparr>) p = None" by auto
      then show ?thesis by (metis less_SucI)
    next
      case (Some w1)
      have c: "cycle_at (cycle_states ! n) w1 i j" using run [OF Some] Suc.prems(2) by simp
      have "cycle_states ! n < PCB_RUNNING"
        using Suc.prems(2) by (auto simp: cycle_states_def nth_Cons' pcb_order_simps)
      with c obtain p where p: "mdns_get_next_pcb_packet w1 i j = Some p" by (auto simp: cycle_at_def)
      with Suc.prems(1) Some have "mdns_tx_handle_packet (w1\<lparr>tx_queue := remove1 p (tx_queue w1)\<rparr>) p = None"
        by (simp add: pcb_send_next_def)
      then have "mdns_dispatch_tx_packet (w1\<lparr>tx_queue := remove1 p (tx_queue w1)\<rparr>) p = None"
        by (auto simp: mdns_tx_handle_packet_def Let_def split: bind_splits if_splits)
      with p Some show ?thesis by blast
    qed
  qed simp
  show ?thesis
  proof (cases "pcb_sends n w i j")
    case None
    with stuck [OF None assms(5)] show ?thesis by simp
  next
    case (Some w')
    have "n < 6 \<Longrightarrow> cycle_states ! n < PCB_RUNNING"
      by (auto simp: cycle_states_def nth_Cons' pcb_order_simps)
    with run [OF Some assms(5)] Some show ?thesis by (auto simp: cycle_at_def)
  qed
qed

theorem probe_cycle_completes_witness:
  "\<exists>w'. pcb_sends 1 (set_pcb demo_world TCPIP_ADAPTER_IF_STA MDNS_IP_PROTOCOL_V4 (pcb_zero\<lparr>pcb_state := PCB_PROBE_1, pcb_pcb := True\<rparr>)
      \<lparr>tx_queue := [demo_packet\<lparr>tx_answers := []\<rparr>]\<rparr>) TCPIP_ADAPTER_IF_STA MDNS_IP_PROTOCOL_V4 = Some w' \<and>
    pcb_state (interfaces w' TCPIP_ADAPTER_IF_STA MDNS_IP_PROTOCOL_V4) = PCB_PROBE_2"
proof -
  let ?i = TCPIP_ADAPTER_IF_STA and ?j = MDNS_IP_PROTOCOL_V4 and ?p = "demo_packet\<lparr>tx_answers := []\<rparr>"
  let ?w = "set_pcb demo_world ?i ?j (pcb_zero\<lparr>pcb_state := PCB_PROBE_1, pcb_pcb := True\<rparr>)\<lparr>tx_queue := [?p]\<rparr>"
  have next_p: "mdns_get_next_pcb_packet ?w ?i ?j = Some ?p"
    by (simp add: mdns_get_next_pcb_packet_def tx_on_def demo_packet_def)
  have "mdns_dispatch_tx_packet (?w\<lparr>tx_queue := []\<rparr>) ?p \<noteq> None"
    by (rule dispatch_empty_packet) (simp_all add: demo_packet_def set_pcb_def)
  then have "pcb_sends 1 ?w ?i ?j \<noteq> None"
    using next_p by (auto simp: pcb_send_next_def mdns_tx_handle_packet_def Let_def split: bind_splits)
  then obtain w' where w': "pcb_sends 1 ?w ?i ?j = Some w'" by blast
  have "alloc_script ?w = []" "length (tx_buffer ?w) = MDNS_MAX_PACKET_SIZE" "pcb_state (interfaces ?w ?i ?j) = PCB_PROBE_1"
    by (simp_all add: set_pcb_def)
  from probe_cycle_completes [OF this, of 1] next_p w' show ?thesis
    by (simp add: cycle_states_def)
qed

end
