(* ===== verification/Mdns_Debug.thy ===== *)
theory Mdns_Debug
  imports Mdns_Parse
begin

text \<open>
  The packet printer \<^verbatim>\<open>mdns_debug_packet\<close> of \<^verbatim>\<open>src/src/mdns.c\<close>, which is compiled with
  \<^verbatim>\<open>MDNS_ENABLE_DEBUG\<close>. What it prints is the result of the model, as a list of bytes; the name of the
  source file in its error messages is a parameter. \<open>None\<close> is, as everywhere, a read outside the packet.
\<close>

section \<open>Formats\<close>

text \<open>\<open>%04X\<close>, \<open>%04x\<close> and \<open>%02x\<close>.\<close>

definition hex_digit :: "bool \<Rightarrow> nat \<Rightarrow> u8" where
  "hex_digit upper n = of_nat (if n < 10 then 48 + n else if upper then 55 + n else 87 + n)"

definition hex4 :: "bool \<Rightarrow> u16 \<Rightarrow> cstring" where
  "hex4 upper v = map (\<lambda>k. hex_digit upper (unat v div 16 ^ k mod 16)) [3, 2, 1, 0]"

definition hex2 :: "u8 \<Rightarrow> cstring" where
  "hex2 v = map (\<lambda>k. hex_digit False (unat v div 16 ^ k mod 16)) [1, 0]"

definition newline :: cstring where
  "newline = [0x0A]"

text \<open>The line that is printed at an error.\<close>

definition dbg_error :: "cstring \<Rightarrow> nat \<Rightarrow> cstring" where
  "dbg_error file line = lit ''ERROR: '' @ file @ lit '':'' @ dec line @ newline"

text \<open>The parts of a name, each followed by a dot.\<close>

definition dotted :: "cstring list \<Rightarrow> cstring" where
  "dotted parts = concat (map (\<lambda>s. s @ lit ''.'') parts)"

definition dbg_full_name :: "mdns_name_t \<Rightarrow> cstring" where
  "dbg_full_name name = dotted [n_host name, n_service name, n_proto name, n_domain name]"

section \<open>Questions\<close>

definition dbg_question_name :: "u16 \<Rightarrow> mdns_name_t \<Rightarrow> cstring" where
  "dbg_question_name type name =
     (let full = dotted [n_host name, (if n_sub name then lit ''_sub.'' else []) @ n_service name, n_proto name,
                         n_domain name];
          host = dotted [n_host name, n_domain name]
      in if type = MDNS_TYPE_PTR then full @ lit '' PTR ''
         else if type = MDNS_TYPE_SRV then full @ lit '' SRV ''
         else if type = MDNS_TYPE_TXT then full @ lit '' TXT ''
         else if type = MDNS_TYPE_A then host @ lit '' A ''
         else if type = MDNS_TYPE_AAAA then host @ lit '' AAAA ''
         else if type = MDNS_TYPE_NSEC then full @ lit '' NSEC ''
         else if type = MDNS_TYPE_ANY then full @ lit '' ANY ''
         else full @ lit '' '' @ hex4 True type @ lit '' '')"

definition dbg_class :: "u16 \<Rightarrow> cstring" where
  "dbg_class clas = (if clas AND 0x7FFF = 1 then lit ''IN'' else hex4 True (clas AND 0x7FFF))"

text \<open>The loop \<open>while (qs--)\<close>: the position behind the questions, or the null pointer after an error, and what is
  printed.\<close>

fun dbg_questions :: "cstring \<Rightarrow> u8 list \<Rightarrow> nat \<Rightarrow> nat \<Rightarrow> (nat option \<times> cstring) option" where
  "dbg_questions file data content 0 = Some (Some content, [])"
| "dbg_questions file data content (Suc qs) = do {
     (next_data, name) \<leftarrow> mdns_parse_fqdn data content;
     case next_data of
       None \<Rightarrow> Some (None, dbg_error file 4791)
     | Some content1 \<Rightarrow> do {
         type \<leftarrow> mdns_read_u16 data content1;
         clas \<leftarrow> mdns_read_u16 data (content1 + 2);
         let line = lit ''    Q: '' @ (if clas AND 0x8000 \<noteq> 0 then lit ''*U* '' else []) @
                    dbg_question_name type name @ dbg_class clas @ newline;
         (r, out) \<leftarrow> dbg_questions file data (content1 + 4) qs;
         Some (r, line @ out)
       }
   }"

section \<open>Records\<close>

definition dbg_record_name :: "u16 \<Rightarrow> mdns_name_t \<Rightarrow> cstring" where
  "dbg_record_name type name =
     (let full = lit '': '' @ dbg_full_name name; host = lit '': '' @ dotted [n_host name, n_domain name]
      in if type = MDNS_TYPE_PTR
         then lit '': '' @ n_host name @ (if n_host name \<noteq> [] then lit ''.'' else []) @
              dotted [n_service name, n_proto name, n_domain name] @ lit '' PTR ''
         else if type = MDNS_TYPE_SRV then full @ lit '' SRV ''
         else if type = MDNS_TYPE_TXT then full @ lit '' TXT ''
         else if type = MDNS_TYPE_A then host @ lit '' A ''
         else if type = MDNS_TYPE_AAAA then host @ lit '' AAAA ''
         else if type = MDNS_TYPE_NSEC then full @ lit '' NSEC ''
         else if type = MDNS_TYPE_ANY then full @ lit '' ANY ''
         else if type = MDNS_TYPE_OPT then lit '': . OPT ''
         else full @ lit '' '' @ hex4 True type @ lit '' '')"

text \<open>The loop over the strings of a TXT record at \<open>p\<close>. A string is printed up to a zero byte in it.\<close>

function dbg_txt :: "cstring \<Rightarrow> u8 list \<Rightarrow> nat \<Rightarrow> nat \<Rightarrow> nat \<Rightarrow> cstring option" where
  "dbg_txt file data p data_len i =
     (if i < data_len then do {
        partLen \<leftarrow> load8 data (p + i);
        let j = i + 1 + unat partLen;
        if j > data_len then Some (dbg_error file 4924)
        else do {
          part \<leftarrow> load_block data (p + i + 1) (unat partLen);
          rest \<leftarrow> dbg_txt file data p data_len j;
          Some (cstr_of part @ (if j < data_len then lit ''; '' else []) @ rest)
        }
      }
      else Some [])"
  by pat_completeness auto
termination
  by (relation "measure (\<lambda>(file, data, p, data_len, i). data_len - i)") auto

declare dbg_txt.simps [simp del]

definition dbg_bytes :: "u8 list \<Rightarrow> nat \<Rightarrow> nat \<Rightarrow> cstring option" where
  "dbg_bytes data p n = map_option (\<lambda>bs. concat (map (\<lambda>b. lit '' '' @ hex2 b) bs) @ newline) (load_block data p n)"

definition dbg_ip4 :: "u8 list \<Rightarrow> cstring" where
  "dbg_ip4 bs = dec (unat (bs ! 0)) @ lit ''.'' @ dec (unat (bs ! 1)) @ lit ''.'' @ dec (unat (bs ! 2)) @ lit ''.'' @
     dec (unat (bs ! 3)) @ newline"

definition dbg_ip6 :: "u8 list \<Rightarrow> cstring" where
  "dbg_ip6 bs = (let block = \<lambda>k. hex2 (bs ! (2 * k)) @ hex2 (bs ! (2 * k + 1))
     in block 0 @ concat (map (\<lambda>k. lit '':'' @ block k) [1, 2, 3, 4, 5, 6, 7]) @ newline)"

text \<open>The data of a record. In a NSEC record the length of the name is taken from \<open>data_len\<close>, a \<open>uint16_t\<close>: the
  difference wraps around when the name is longer than the data.\<close>

definition dbg_data :: "cstring \<Rightarrow> u8 list \<Rightarrow> u16 \<Rightarrow> nat \<Rightarrow> u16 \<Rightarrow> cstring option" where
  "dbg_data file data type p data_len =
     (if type = MDNS_TYPE_PTR then do {
        (r, name) \<leftarrow> mdns_parse_fqdn data p;
        Some (if r = None then dbg_error file 4906 else dbg_full_name name @ newline)
      }
      else if type = MDNS_TYPE_SRV then do {
        (r, name) \<leftarrow> mdns_parse_fqdn data (p + 6);
        if r = None then Some (dbg_error file 4912)
        else do {
          priority \<leftarrow> mdns_read_u16 data p;
          weight \<leftarrow> mdns_read_u16 data (p + 2);
          port \<leftarrow> mdns_read_u16 data (p + 4);
          Some (dec (unat priority) @ lit '' '' @ dec (unat weight) @ lit '' '' @ dec (unat port) @ lit '' '' @
                dotted [n_host name, n_domain name] @ newline)
        }
      }
      else if type = MDNS_TYPE_TXT then map_option (\<lambda>out. out @ newline) (dbg_txt file data p (unat data_len) 0)
      else if type = MDNS_TYPE_AAAA then map_option dbg_ip6 (load_block data p 16)
      else if type = MDNS_TYPE_A then map_option dbg_ip4 (load_block data p 4)
      else if type = MDNS_TYPE_NSEC then do {
        (r, name) \<leftarrow> mdns_parse_fqdn data p;
        case r of
          None \<Rightarrow> dbg_bytes data p (unat data_len)
        | Some q \<Rightarrow> map_option (\<lambda>out. dbg_full_name name @ lit '' '' @ out)
                      (dbg_bytes data q (unat (data_len - of_nat (q - p))))
      }
      else if type = MDNS_TYPE_OPT then do {
        opCode \<leftarrow> mdns_read_u16 data p;
        opLen \<leftarrow> mdns_read_u16 data (p + 2);
        out \<leftarrow> dbg_bytes data (p + 4) (unat data_len - 4);
        Some (lit '' Code: '' @ hex4 False opCode @ lit '' Data['' @ dec (unat opLen) @ lit '']:'' @ out)
      }
      else dbg_bytes data p (unat data_len))"

definition dbg_record_head ::
  "mdns_parsed_recort_type_t \<Rightarrow> u16 \<Rightarrow> mdns_name_t \<Rightarrow> u16 \<Rightarrow> u32 \<Rightarrow> u16 \<Rightarrow> cstring" where
  "dbg_record_head record_type type name clas ttl data_len =
     (case record_type of MDNS_EXTRA \<Rightarrow> lit ''    X'' | MDNS_NS \<Rightarrow> lit ''    S'' | MDNS_ANSWER \<Rightarrow> lit ''    A'') @
     dbg_record_name type name @ dbg_class clas @ lit '' '' @
     (if clas AND 0x8000 \<noteq> 0 then lit ''FLUSH '' else []) @
     dec (unat ttl) @ lit '' '' @ lit ''['' @ dec (unat data_len) @ lit ''] ''"

function dbg_records :: "cstring \<Rightarrow> mdns_header_t \<Rightarrow> u8 list \<Rightarrow> nat \<Rightarrow> nat \<Rightarrow> cstring option" where
  "dbg_records file header data content recordIndex =
     (if content < length data then do {
        (next_data, name) \<leftarrow> mdns_parse_fqdn data content;
        case next_data of
          None \<Rightarrow> Some (dbg_error file 4839)
        | Some content1 \<Rightarrow> do {
            type \<leftarrow> mdns_read_u16 data content1;
            clas \<leftarrow> mdns_read_u16 data (content1 + 2);
            ttl \<leftarrow> mdns_read_u32 data (content1 + 4);
            data_len \<leftarrow> mdns_read_u16 data (content1 + 8);
            let content2 = content1 + 10 + unat data_len;
            if content2 > length data then Some (dbg_error file 4853)
            else do {
              out \<leftarrow> dbg_data file data type (content1 + 10) data_len;
              rest \<leftarrow> dbg_records file header data content2 ((recordIndex + 1) mod 65536);
              Some (dbg_record_head (mdns_record_type header recordIndex) type name clas ttl data_len @ out @ rest)
            }
          }
      }
      else Some [])"
  by pat_completeness auto
termination
  by (relation "measure (\<lambda>(file, header, data, content, recordIndex). length data - content)")
    (auto dest: parse_fqdn_offset)

declare dbg_records.simps [simp del]

definition mdns_debug_packet :: "mdns_world \<Rightarrow> cstring \<Rightarrow> u8 list \<Rightarrow> (cstring \<times> mdns_world) option" where
  "mdns_debug_packet w file data =
     (let (t, w1) = now_ms w in do {
        header \<leftarrow> mdns_read_header data;
        let flags = h_flags header;
        let start = lit ''Packet['' @ dec (unat t) @ lit '']: '' @
              (if flags = MDNS_FLAGS_AUTHORITATIVE then lit ''AUTHORITATIVE'' @ newline
               else if flags = MDNS_FLAGS_DISTRIBUTED then lit ''DISTRIBUTED'' @ newline
               else if flags = 0 then newline else lit '' '') @
              (if flags \<noteq> 0 \<and> flags \<noteq> MDNS_FLAGS_AUTHORITATIVE then lit ''0x'' @ hex4 True flags @ newline else []);
        (content, questions) \<leftarrow> dbg_questions file data MDNS_HEAD_LEN (unat (h_questions header) mod 256);
        records \<leftarrow> (case content of
           None \<Rightarrow> Some []
         | Some c \<Rightarrow> if h_answers header \<noteq> 0 \<or> h_servers header \<noteq> 0 \<or> h_additional header \<noteq> 0
                     then dbg_records file header data c 0 else Some []);
        Some (start @ questions @ records, w1)
      })"

section \<open>What is printed\<close>

text \<open>The items of a TXT record as the printer shows them.\<close>

fun shown_items :: "mdns_txt_item list \<Rightarrow> cstring" where
  "shown_items [] = []"
| "shown_items [(k, v)] = k @ lit ''='' @ v"
| "shown_items ((k, v) # items) = k @ lit ''='' @ v @ lit ''; '' @ shown_items items"

lemma dbg_txt_items:
  "list_all txt_item_ok items \<Longrightarrow> p + i = length pre \<Longrightarrow>
   dbg_txt file (pre @ txt_bytes items @ post) p (i + length (txt_bytes items)) i = Some (shown_items items)"
proof (induction items arbitrary: i pre)
  case Nil
  then show ?case by (simp add: dbg_txt.simps)
next
  case (Cons kv items)
  obtain k v where kv: "kv = (k, v)" by (cases kv)
  let ?part = "k @ lit ''='' @ v"
  have ok: "txt_item_ok (k, v)" using Cons.prems(1) by (simp add: kv)
  define m where "m = length ?part"
  let ?data = "pre @ txt_bytes (kv # items) @ post"
  have n: "m < 256" "string_bytes ?part = of_nat m # ?part"
    using ok string_bytes_item [OF ok] by (simp_all add: txt_item_ok_def lit_eq m_def)
  have dec: "?data = (pre @ of_nat m # ?part) @ txt_bytes items @ post"
    by (simp add: kv n(2))
  have part: "load8 ?data (p + i) = Some (of_nat m)" "load_block ?data (p + i + 1) m = Some ?part"
    unfolding dec using Cons.prems(2) by (simp_all add: load8_def load_block_def nth_append m_def)
  have len: "unat (of_nat m :: u8) = m" by (rule unat_of_nat_u8 [OF n(1)])
  have show_part: "cstr_of ?part = ?part"
    using ok by (intro cstr_of_id) (auto simp: txt_item_ok_def cstr_ok_def lit_eq)
  have total: "i + length (txt_bytes (kv # items)) = i + 1 + m + length (txt_bytes items)"
    by (simp add: kv m_def n(2) [unfolded m_def])
  have rest: "dbg_txt file ?data p (i + 1 + m + length (txt_bytes items)) (i + 1 + m) = Some (shown_items items)"
    unfolding dec using Cons.prems by (intro Cons.IH) (simp_all add: kv m_def)
  have more: "0 < length (txt_bytes items) \<longleftrightarrow> items \<noteq> []"
    by (cases items) (auto simp: string_bytes_def)
  show ?case
    unfolding total
    by (subst dbg_txt.simps, cases items)
      (use part len rest more show_part in \<open>simp_all add: kv Let_def del: txt_bytes_simps append_assoc\<close>)
qed

text \<open>The printer shows the TXT data that the responder writes for its services as these items.\<close>

lemma debug_shows_txt:
  assumes "list_all txt_item_ok items" "data = pre @ txt_bytes items @ post" "length (txt_bytes items) < 65536"
  shows "dbg_data file data MDNS_TYPE_TXT (length pre) (of_nat (length (txt_bytes items))) = Some (shown_items items @ newline)"
proof -
  have "dbg_txt file data (length pre) (0 + length (txt_bytes items)) 0 = Some (shown_items items)"
    unfolding assms(2) by (rule dbg_txt_items [OF assms(1)]) simp
  then show ?thesis
    using assms(3) by (simp add: dbg_data_def unat_of_nat)
qed

text \<open>A NSEC record whose name is longer than its data: the length wraps around, and the printer reads behind the
  packet.\<close>

lemma debug_nsec_overrun:
  assumes "mdns_parse_fqdn data p = Some (Some q, name)" "unat data_len < q - p" "length data < 2 ^ 16"
  shows "dbg_data file data MDNS_TYPE_NSEC p data_len = None"
proof -
  have q: "p < q" "q \<le> length data" using parse_fqdn_offset [OF assms(1)] by auto
  then have d: "unat (of_nat (q - p) :: u16) = q - p"
    using assms(3) unfolding unat_of_nat by (intro mod_less) simp
  have "unat (data_len - of_nat (q - p)) = unat data_len + 2 ^ 16 - (q - p)"
    using assms(2) d unfolding unat_sub_if' word_le_nat_alt by simp
  moreover have "\<not> q + (unat data_len + 2 ^ 16 - (q - p)) \<le> length data"
    using q assms(2,3) by linarith
  ultimately show ?thesis
    using assms(1) by (simp add: dbg_data_def dbg_bytes_def load_block_def)
qed

end
