(* ===== verification/Ota_Firmware.thy ===== *)
theory Ota_Firmware
  imports Mdns_Prelude
begin

text \<open>
  The firmware download of the over-the-air update example,
  \<^verbatim>\<open>ota_example_main.c\<close> of \<^verbatim>\<open>examples/system/ota/native_ota/2+MB_flash/new_to_new_with_old\<close>:
  the parser of the HTTP response that takes the stream apart as it arrives, and the task around it.
  The response is kept in the array \<^verbatim>\<open>text\<close>; a pointer into it is an offset. What the SDK does is a
  parameter: the address of the first partition, what \<^verbatim>\<open>recv\<close> returns, and whether
  \<^verbatim>\<open>esp_ota_write\<close>, \<^verbatim>\<open>esp_ota_end\<close> and the other calls succeed.
\<close>

section \<open>Data\<close>

definition BUFFSIZE :: nat where "BUFFSIZE = 1500"
definition TEXT_BUFFSIZE :: nat where "TEXT_BUFFSIZE = 1024"

datatype esp_ota_firm_state_t =
  ESP_OTA_INIT | ESP_OTA_PREPARE | ESP_OTA_START | ESP_OTA_RECVED | ESP_OTA_FINISH

record esp_ota_firm_t =
  ota_num :: u8
  update_ota_num :: u8
  ota_state :: esp_ota_firm_state_t
  content_len :: u32
  read_bytes :: u32
  write_bytes :: u32
  ota_size :: u32
  ota_offset :: u32
  ota_buf :: "nat option"
  ota_bytes :: u32

text \<open>\<open>Fatal\<close> is the end of the task in \<^verbatim>\<open>task_fatal_error\<close>, which does not return.\<close>

datatype 'a run = Fatal | Returns 'a

section \<open>String functions\<close>

text \<open>The offset of the first occurrence of a string.\<close>

fun find_sub :: "cstring \<Rightarrow> cstring \<Rightarrow> nat option" where
  "find_sub pat [] = (if pat = [] then Some 0 else None)"
| "find_sub pat (c # s) =
     (if take (length pat) (c # s) = pat then Some 0 else map_option Suc (find_sub pat s))"

text \<open>\<open>strstr (b + p, pat)\<close>; the string must end inside the buffer.\<close>

definition strstr :: "u8 list \<Rightarrow> nat \<Rightarrow> cstring \<Rightarrow> nat option option" where
  "strstr b p pat =
     (if 0 \<notin> set (drop p b) then None
      else Some (map_option (\<lambda>k. p + k) (find_sub pat (cstr_of (drop p b)))))"

text \<open>\<open>atoi\<close> on a string inside a buffer, converted to \<open>size_t\<close>.\<close>

definition atoi :: "u8 list \<Rightarrow> u32 option" where
  "atoi b =
     (if 0 \<notin> set b then None
      else let s = dropWhile is_space (cstr_of b) in
        if s \<noteq> [] \<and> hd s = 0x2D
        then Some (- of_nat (min (digits_value (takeWhile is_digit (tl s))) 2147483648))
        else Some (of_nat (fst (strtol s))))"

text \<open>\<open>read_until (b + p, delim, len)\<close>; the byte is read before the length is tested.\<close>

function read_until_from :: "u8 list \<Rightarrow> nat \<Rightarrow> u8 \<Rightarrow> nat \<Rightarrow> nat \<Rightarrow> nat option" where
  "read_until_from b p delim len i = do {
     c \<leftarrow> load8 b (p + i);
     if c \<noteq> delim \<and> i < len then read_until_from b p delim len (i + 1) else Some (i + 1)
   }"
  by pat_completeness auto
termination
  by (relation "measure (\<lambda>(b, p, delim, len, i). len - i)") auto

declare read_until_from.simps [simp del]

definition read_until :: "u8 list \<Rightarrow> nat \<Rightarrow> u8 \<Rightarrow> nat \<Rightarrow> nat option" where
  "read_until b p delim len = read_until_from b p delim len 0"

lemma read_until_from_pos: "read_until_from b p delim len i = Some r \<Longrightarrow> i < r"
proof (induction b p delim len i rule: read_until_from.induct)
  case (1 b p delim len i)
  from 1(2) show ?case
    by (subst (asm) read_until_from.simps) (auto split: bind_splits if_splits dest!: 1(1))
qed

lemma read_until_pos: "read_until b p delim len = Some r \<Longrightarrow> 0 < r"
  unfolding read_until_def by (drule read_until_from_pos) simp

section \<open>The parser\<close>

text \<open>The search for the length of the content, made for every line until it is found. A value
  that is not ended by a line break is copied with a length that is not its length, and a value of
  more than 32 characters is copied behind the array.\<close>

definition parse_content_length :: "u32 \<Rightarrow> u8 list \<Rightarrow> esp_ota_firm_t \<Rightarrow> esp_ota_firm_t option" where
  "parse_content_length skip_size text firm =
     (if content_len firm \<noteq> 0 then Some firm
      else do {
        ptr \<leftarrow> strstr text 0 (lit ''Content-Length'');
        case ptr of
          None \<Rightarrow> Some firm
        | Some p \<Rightarrow> do {
            ptr2 \<leftarrow> strstr text (p + 16) [13, 10];
            e \<leftarrow> ptr2;
            str \<leftarrow> load_block text (p + 16) (e - (p + 16));
            length_str \<leftarrow> store_block (replicate 32 0) 0 str;
            n \<leftarrow> atoi length_str;
            Some (firm\<lparr>content_len := n, ota_size := n - skip_size, ota_offset := skip_size\<rparr>)
          }
      })"

text \<open>The loop over the lines of the header. The result is the number of bytes parsed, or nothing if the
  end of the header has not been found.\<close>

function parse_http_lines ::
  "u32 \<Rightarrow> u8 list \<Rightarrow> nat \<Rightarrow> nat \<Rightarrow> esp_ota_firm_t \<Rightarrow> (esp_ota_firm_t \<times> nat option) run option" where
  "parse_http_lines skip_size text total_len i firm = do {
     c \<leftarrow> load8 text i;
     if c = 0 \<or> \<not> i < total_len then Some (Returns (firm, None))
     else do {
       firm1 \<leftarrow> parse_content_length skip_size text firm;
       i_read_len \<leftarrow> read_until text i 10 (total_len - i);
       if i_read_len > total_len - i then Some Fatal
       else if i_read_len = 2
       then (if content_len firm1 = 0 then Some Fatal else Some (Returns (firm1, Some (i + 2))))
       else parse_http_lines skip_size text total_len (i + i_read_len) firm1
     }
   }"
  by pat_completeness auto
termination
  by (relation "measure (\<lambda>(skip_size, text, total_len, i, firm). total_len - i)")
    (auto dest: read_until_pos)

declare parse_http_lines.simps [simp del]

definition esp_ota_firm_parse_http ::
  "u32 option \<Rightarrow> esp_ota_firm_t \<Rightarrow> u8 list \<Rightarrow> nat \<Rightarrow> (esp_ota_firm_t \<times> nat option) run option" where
  "esp_ota_firm_parse_http part firm text total_len =
     (case part of
        None \<Rightarrow> Some (Returns (firm, None))
      | Some address \<Rightarrow> parse_http_lines (address - 0x1000) text total_len 0 firm)"

text \<open>One step of the parser on the bytes that begin at offset \<open>in_buf\<close> of \<open>text\<close>; the result
  has the number of bytes consumed.\<close>

definition esp_ota_firm_do_parse_msg ::
  "u32 option \<Rightarrow> esp_ota_firm_t \<Rightarrow> u8 list \<Rightarrow> nat \<Rightarrow> nat \<Rightarrow> (nat \<times> esp_ota_firm_t) run option" where
  "esp_ota_firm_do_parse_msg part firm text in_buf in_len =
     (case ota_state firm of
        ESP_OTA_INIT \<Rightarrow> do {
          r \<leftarrow> esp_ota_firm_parse_http part firm (drop in_buf text) in_len;
          case r of
            Fatal \<Rightarrow> Some Fatal
          | Returns (firm1, None) \<Rightarrow> Some (Returns (in_len, firm1))
          | Returns (firm1, Some tmp) \<Rightarrow> Some (Returns (tmp, firm1\<lparr>ota_state := ESP_OTA_PREPARE\<rparr>))
        }
      | ESP_OTA_PREPARE \<Rightarrow>
          let firm1 = firm\<lparr>read_bytes := read_bytes firm + of_nat in_len\<rparr>;
              rest = read_bytes firm1 - ota_offset firm1
          in if read_bytes firm1 \<ge> ota_offset firm1
             then Some (Returns (in_len, firm1\<lparr>ota_buf := Some (in_buf + unat (of_nat in_len - rest)),
                    ota_bytes := rest, write_bytes := write_bytes firm1 + rest,
                    ota_state := ESP_OTA_START\<rparr>))
             else Some (Returns (in_len, firm1))
      | ESP_OTA_START \<Rightarrow>
          let firm1 = (if write_bytes firm + of_nat in_len > ota_size firm
                then firm\<lparr>ota_bytes := ota_size firm - write_bytes firm, ota_state := ESP_OTA_RECVED\<rparr>
                else firm\<lparr>ota_bytes := of_nat in_len\<rparr>)
          in Some (Returns (in_len, firm1\<lparr>ota_buf := Some in_buf,
               write_bytes := write_bytes firm1 + ota_bytes firm1\<rparr>))
      | ESP_OTA_RECVED \<Rightarrow> Some (Returns (0, firm\<lparr>ota_state := ESP_OTA_FINISH\<rparr>))
      | ESP_OTA_FINISH \<Rightarrow> Some (Returns (0, firm)))"

text \<open>The loop until all bytes of a message are consumed; it need not end.\<close>

partial_function (option) parse_msg_from ::
  "u32 option \<Rightarrow> u8 list \<Rightarrow> nat \<Rightarrow> nat \<Rightarrow> esp_ota_firm_t \<Rightarrow> esp_ota_firm_t run option" where
  "parse_msg_from part text in_len parse_bytes firm = do {
     r \<leftarrow> esp_ota_firm_do_parse_msg part firm text parse_bytes (in_len - parse_bytes);
     case r of
       Fatal \<Rightarrow> Some Fatal
     | Returns (bytes, firm1) \<Rightarrow>
         if parse_bytes + bytes \<noteq> in_len then parse_msg_from part text in_len (parse_bytes + bytes) firm1
         else Some (Returns firm1)
   }"

definition esp_ota_firm_parse_msg ::
  "u32 option \<Rightarrow> esp_ota_firm_t \<Rightarrow> u8 list \<Rightarrow> nat \<Rightarrow> esp_ota_firm_t run option" where
  "esp_ota_firm_parse_msg part firm text in_len = parse_msg_from part text in_len 0 firm"

definition esp_ota_firm_is_finished :: "esp_ota_firm_t \<Rightarrow> bool" where
  "esp_ota_firm_is_finished firm \<longleftrightarrow> ota_state firm = ESP_OTA_FINISH \<or> ota_state firm = ESP_OTA_RECVED"

definition esp_ota_firm_can_write :: "esp_ota_firm_t \<Rightarrow> bool" where
  "esp_ota_firm_can_write firm \<longleftrightarrow> ota_state firm = ESP_OTA_START \<or> ota_state firm = ESP_OTA_RECVED"

definition esp_ota_firm_init :: "u8 \<Rightarrow> u8 \<Rightarrow> esp_ota_firm_t" where
  "esp_ota_firm_init partition_count subtype =
     \<lparr>ota_num = partition_count, update_ota_num = subtype - 0x10, ota_state = ESP_OTA_INIT,
      content_len = 0, read_bytes = 0, write_bytes = 0, ota_size = 0, ota_offset = 0, ota_buf = None,
      ota_bytes = 0\<rparr>"

section \<open>The task\<close>

text \<open>What \<open>recv\<close> returns, and the variables of the task: the parser, the two static buffers, the bytes
  that \<open>esp_ota_write\<close> has been given and their number.\<close>

datatype recv_result = Received "u8 list" | Closed | Recv_error

record ota_task =
  t_firm :: esp_ota_firm_t
  t_text :: "u8 list"
  t_write_data :: "u8 list"
  t_flash :: "u8 list"
  t_length :: nat

text \<open>The parameter \<open>write_ok\<close> says whether \<open>esp_ota_write\<close> succeeds, of the bytes written before and
  the bytes to be written.\<close>

definition write_firmware ::
  "(u8 list \<Rightarrow> u8 list \<Rightarrow> bool) \<Rightarrow> ota_task \<Rightarrow> ota_task run option" where
  "write_firmware write_ok t = do {
     buf \<leftarrow> ota_buf (t_firm t);
     let n = unat (ota_bytes (t_firm t));
     b \<leftarrow> load_block (t_text t) buf n;
     wd \<leftarrow> store_block (t_write_data t) 0 b;
     if \<not> write_ok (t_flash t) (take n wd) then Some Fatal
     else Some (Returns (t\<lparr>t_write_data := wd, t_flash := t_flash t @ take n wd, t_length := t_length t + n\<rparr>))
   }"

definition clear_buffers :: "ota_task \<Rightarrow> ota_task" where
  "clear_buffers t = t\<lparr>t_text := replicate TEXT_BUFFSIZE 0 @ drop TEXT_BUFFSIZE (t_text t),
     t_write_data := replicate BUFFSIZE 0 @ drop BUFFSIZE (t_write_data t)\<rparr>"

text \<open>The loop over the packets. \<open>Waiting\<close> is the task at \<open>recv\<close> when the given packets have been
  handled.\<close>

datatype loop_end = Task_ended | Waiting ota_task | Loop_left ota_task

fun receive_loop ::
  "u32 option \<Rightarrow> (u8 list \<Rightarrow> u8 list \<Rightarrow> bool) \<Rightarrow> recv_result list \<Rightarrow> ota_task \<Rightarrow> loop_end option" where
  "receive_loop part write_ok [] t = Some (Waiting t)"
| "receive_loop part write_ok (r # rs) t =
     (let t1 = clear_buffers t in
      case r of
        Recv_error \<Rightarrow> Some Task_ended
      | Closed \<Rightarrow> Some (Loop_left t1)
      | Received data \<Rightarrow> do {
          text1 \<leftarrow> store_block (t_text t1) 0 data;
          m \<leftarrow> esp_ota_firm_parse_msg part (t_firm t1) text1 (length data);
          case m of
            Fatal \<Rightarrow> Some Task_ended
          | Returns firm1 \<Rightarrow>
              let t2 = t1\<lparr>t_text := text1, t_firm := firm1\<rparr> in
              if \<not> esp_ota_firm_can_write firm1 then receive_loop part write_ok rs t2
              else do {
                wr \<leftarrow> write_firmware write_ok t2;
                case wr of
                  Fatal \<Rightarrow> Some Task_ended
                | Returns t3 \<Rightarrow>
                    if esp_ota_firm_is_finished (t_firm t3) then Some (Loop_left t3)
                    else receive_loop part write_ok rs t3
              }
        })"

declare receive_loop.simps(2) [simp del]

text \<open>What the task needs of the SDK and the network, in the order of the calls.\<close>

record ota_env =
  e_socket :: bool
  e_connect :: bool
  e_asprintf :: bool
  e_send :: bool
  e_update_partition :: "u8 option"
  e_ota_begin :: bool
  e_partition_count :: u8
  e_first_partition :: "u32 option"
  e_recv :: "recv_result list"
  e_write_ok :: "u8 list \<Rightarrow> u8 list \<Rightarrow> bool"
  e_end_ok :: "u8 list \<Rightarrow> bool"
  e_set_boot_ok :: bool

definition connect_to_http_server :: "ota_env \<Rightarrow> bool" where
  "connect_to_http_server env \<longleftrightarrow> e_socket env \<and> e_connect env"

definition http_request :: "cstring \<Rightarrow> cstring \<Rightarrow> cstring \<Rightarrow> cstring" where
  "http_request file_name ip port =
     lit ''GET '' @ file_name @ lit '' HTTP/1.0'' @ [13, 10] @
     lit ''Host: '' @ ip @ lit '':'' @ port @ [13, 10] @
     lit ''User-Agent: esp-idf/1.0 esp32'' @ [13, 10, 13, 10]"

datatype ota_outcome = Fatal_error | Receiving ota_task | Restarted "u8 list"

text \<open>The static buffers of the freshly started program.\<close>

definition ota_task_init :: "u8 \<Rightarrow> u8 \<Rightarrow> ota_task" where
  "ota_task_init partition_count subtype =
     \<lparr>t_firm = esp_ota_firm_init partition_count subtype, t_text = replicate (BUFFSIZE + 1) 0,
      t_write_data = replicate (BUFFSIZE + 1) 0, t_flash = [], t_length = 0\<rparr>"

text \<open>The partition is dereferenced for a message before it is tested.\<close>

definition ota_example_task :: "ota_env \<Rightarrow> ota_outcome option" where
  "ota_example_task env =
     (if \<not> connect_to_http_server env then Some Fatal_error
      else if \<not> e_asprintf env then Some Fatal_error
      else if \<not> e_send env then Some Fatal_error
      else do {
        subtype \<leftarrow> e_update_partition env;
        if \<not> e_ota_begin env then Some Fatal_error
        else do {
          r \<leftarrow> receive_loop (e_first_partition env) (e_write_ok env) (e_recv env)
                 (ota_task_init (e_partition_count env) subtype);
          case r of
            Task_ended \<Rightarrow> Some Fatal_error
          | Waiting t \<Rightarrow> Some (Receiving t)
          | Loop_left t \<Rightarrow>
              if \<not> e_end_ok env (t_flash t) then Some Fatal_error
              else if \<not> e_set_boot_ok env then Some Fatal_error
              else Some (Restarted (t_flash t))
        }
      })"

section \<open>The header\<close>

lemma find_sub_None_take:
  assumes "find_sub pat s = None" "k \<le> length s"
  shows "take (length pat) (drop k s) \<noteq> pat"
  using assms
proof (induction s arbitrary: k)
  case (Cons c s)
  then show ?case by (cases k) (auto split: if_splits)
qed (auto split: if_splits)

lemma find_sub_sep:
  assumes "find_sub pat a = None" "x \<notin> set pat"
  shows "find_sub pat (a @ x # r) = map_option (\<lambda>k. Suc (length a) + k) (find_sub pat r)"
  using assms
proof (induction a)
  case Nil
  then show ?case by (cases pat) (auto simp: option.map_comp comp_def split: if_splits)
next
  case (Cons c a)
  have "take (length pat) ((c # a) @ x # r) \<noteq> pat"
  proof
    assume e: "take (length pat) ((c # a) @ x # r) = pat"
    show False
    proof (cases "length pat \<le> length (c # a)")
      case True
      then have "take (length pat) ((c # a) @ x # r) = take (length pat) (c # a)"
        by (simp only: take_append) simp
      then show ?thesis using e Cons.prems by (auto split: if_splits)
    next
      case False
      then have "x \<in> set (take (length pat) ((c # a) @ x # r))"
        by (auto simp: take_Cons' split: if_splits)
      then show ?thesis using e Cons.prems by simp
    qed
  qed
  then show ?case
    using Cons by (auto simp: option.map_comp comp_def split: if_splits)
qed

text \<open>A header is a list of lines and an empty line; one of the lines has the length of the content.\<close>

definition http_line :: "cstring \<Rightarrow> bool" where
  "http_line l \<longleftrightarrow> l \<noteq> [] \<and> 0 \<notin> set l \<and> 10 \<notin> set l \<and> 13 \<notin> set l"

definition lines_text :: "cstring list \<Rightarrow> cstring" where
  "lines_text ls = concat (map (\<lambda>l. l @ [13, 10]) ls)"

definition length_line :: "nat \<Rightarrow> cstring" where
  "length_line n = lit ''Content-Length'' @ lit '': '' @ dec n"

definition http_header :: "cstring list \<Rightarrow> nat \<Rightarrow> cstring list \<Rightarrow> cstring" where
  "http_header before n after = lines_text (before @ length_line n # after) @ [13, 10]"

definition header_ok :: "cstring list \<Rightarrow> nat \<Rightarrow> cstring list \<Rightarrow> bool" where
  "header_ok before n after \<longleftrightarrow> list_all http_line before \<and> list_all http_line after \<and>
     list_all (\<lambda>l. find_sub (lit ''Content-Length'') l = None) before \<and> 0 < n \<and> n < 2147483648"

lemma lines_text_simps [simp]:
  "lines_text [] = []" "lines_text (l # ls) = l @ [13, 10] @ lines_text ls"
  "lines_text (as @ bs) = lines_text as @ lines_text bs"
  by (simp_all add: lines_text_def)

lemma find_sub_lines:
  assumes "list_all (\<lambda>l. find_sub pat l = None) ls" "pat \<noteq> []" "13 \<notin> set pat" "10 \<notin> set pat"
  shows "find_sub pat (lines_text ls @ r) = map_option (\<lambda>k. length (lines_text ls) + k) (find_sub pat r)"
  using assms(1)
proof (induction ls)
  case Nil
  then show ?case by (simp add: option.map_ident)
next
  case (Cons l ls)
  have "find_sub pat (lines_text (l # ls) @ r) =
      map_option (\<lambda>k. Suc (length l) + k) (find_sub pat (10 # lines_text ls @ r))"
    using find_sub_sep [of pat l 13] Cons.prems assms by simp
  also have "find_sub pat (10 # lines_text ls @ r) = map_option Suc (find_sub pat (lines_text ls @ r))"
    using find_sub_sep [of pat "[]" 10] assms by simp
  finally show ?case
    using Cons by (simp add: option.map_comp comp_def add.assoc)
qed

lemma find_sub_here: "pat \<noteq> [] \<Longrightarrow> find_sub pat (pat @ r) = Some 0"
  by (cases pat) auto

lemma find_sub_crlf: "13 \<notin> set d \<Longrightarrow> find_sub [13, 10] (d @ 13 # 10 # r) = Some (length d)"
  by (induction d) auto

lemma dec_line: "http_line (dec n)"
proof -
  have "is_digit c \<Longrightarrow> c \<noteq> 0 \<and> c \<noteq> 10 \<and> c \<noteq> 13" for c
    by (auto simp: is_digit_def word_le_nat_alt)
  then show ?thesis
    using dec_digits [of n] by (auto simp: http_line_def list_all_iff)
qed

lemma http_line_length_line: "http_line (length_line n)"
  using dec_line [of n] by (auto simp: http_line_def length_line_def lit_def of_char_def)

lemma takeWhile_digits: "takeWhile is_digit (dec n @ 0 # z) = dec n"
  using dec_digits [of n] by (subst takeWhile_append2) (auto simp: list_all_iff is_digit_def)

lemma atoi_dec:
  assumes "n < 2147483648" "0 < z"
  shows "atoi (dec n @ replicate z 0) = Some (of_nat n)"
proof -
  have c: "cstr_of (dec n @ replicate z 0) = dec n"
    using dec_line [of n] assms(2) by (cases z) (auto simp: cstr_of_def http_line_def takeWhile_append)
  obtain x xs where x: "dec n = x # xs" by (cases "dec n") auto
  then have d: "is_digit x" using dec_digits [of n] by simp
  then have "\<not> is_space x" "x \<noteq> 0x2D"
    by (auto simp: is_digit_def is_space_def word_le_nat_alt)
  then have "dropWhile is_space (dec n) = dec n" "hd (dec n) \<noteq> 0x2D" by (simp_all add: x)
  then show ?thesis
    using strtol_dec [of n] assms by (simp add: atoi_def c Let_def)
qed

lemma parse_content_length_found:
  assumes "header_ok before n after" "content_len firm = 0" "0 \<in> set rest"
  shows "parse_content_length skip_size (http_header before n after @ rest) firm =
    Some (firm\<lparr>content_len := of_nat n, ota_size := of_nat n - skip_size, ota_offset := skip_size\<rparr>)"
proof -
  let ?CL = "lit ''Content-Length''" and ?P = "lines_text before"
  let ?r = "[13, 10] @ lines_text after @ [13, 10] @ rest"
  let ?text = "http_header before n after @ rest" and ?p = "length (lines_text before)"
  have t: "?text = ?P @ ?CL @ lit '': '' @ dec n @ ?r"
    by (simp add: http_header_def length_line_def)
  have nz: "0 \<notin> set (http_header before n after)"
    using assms(1) http_line_length_line [of n]
    by (auto simp: http_header_def lines_text_def header_ok_def list_all_iff http_line_def)
  have lines: "0 \<notin> set (lines_text after)"
    using nz by (simp add: http_header_def)
  have 1: "strstr ?text 0 ?CL = Some (Some ?p)"
  proof -
    have "cstr_of ?text = ?P @ ?CL @ cstr_of (lit '': '' @ dec n @ ?r)"
      using nz unfolding t by (simp add: cstr_of_def http_header_def length_line_def takeWhile_append)
    then show ?thesis
      using assms(1,3) find_sub_lines [of ?CL before] find_sub_here [of ?CL]
      by (simp add: strstr_def header_ok_def lit_def of_char_def)
  qed
  have d: "drop (?p + 16) ?text = dec n @ ?r"
    unfolding t by (simp add: lit_def)
  have 2: "strstr ?text (?p + 16) [13, 10] = Some (Some (?p + 16 + length (dec n)))"
  proof -
    have "cstr_of (dec n @ ?r) = dec n @ 13 # 10 # cstr_of (lines_text after @ [13, 10] @ rest)"
      using dec_line [of n] by (simp add: cstr_of_def http_line_def takeWhile_append)
    then show ?thesis
      unfolding strstr_def d using assms(3) dec_line [of n] find_sub_crlf [of "dec n"]
      by (simp add: http_line_def)
  qed
  have n: "n < 2147483648" using assms(1) by (simp add: header_ok_def)
  then have l: "length (dec n) \<le> 10" using length_dec [of n 10] by simp
  have 3: "load_block ?text (?p + 16) (length (dec n)) = Some (dec n)"
  proof -
    have "?p + 16 + length (dec n) \<le> length ?text" unfolding t by simp
    then show ?thesis unfolding load_block_def d by simp
  qed
  have 4: "store_block (replicate 32 0) 0 (dec n) = Some (dec n @ replicate (32 - length (dec n)) 0)"
    using l by (simp add: store_block_def)
  show ?thesis
    using l 1 2 3 4 atoi_dec [OF n, of "32 - length (dec n)"] assms(2)
    by (simp add: parse_content_length_def)
qed

lemma read_until_line:
  assumes "10 \<notin> set l" "length l < len"
  shows "read_until (pre @ l @ 10 # r) (length pre) 10 len = Some (length l + 1)"
proof -
  have "read_until_from (pre @ l @ 10 # r) (length pre) 10 len i = Some (length l + 1)"
    if "i \<le> length l" for i
    using that
  proof (induction "length l - i" arbitrary: i)
    case 0
    then show ?case by (subst read_until_from.simps) (simp add: load8_def nth_append)
  next
    case (Suc k)
    then have i: "i < length l" by simp
    then have "l ! i \<noteq> 10" using assms(1) nth_mem by metis
    then show ?case
      using i assms(2) Suc(1) [of "Suc i"] Suc(2)
      by (subst read_until_from.simps) (simp add: load8_def nth_append)
  qed
  then show ?thesis by (simp add: read_until_def)
qed

lemma parse_http_lines_rest:
  assumes "content_len firm \<noteq> 0" "list_all http_line ls"
    "length pre + length (lines_text ls) + 2 \<le> total_len"
  shows "parse_http_lines skip_size (pre @ lines_text ls @ [13, 10] @ rest) total_len (length pre) firm =
    Some (Returns (firm, Some (length pre + length (lines_text ls) + 2)))"
  using assms(2,3)
proof (induction ls arbitrary: pre)
  case Nil
  have "read_until (pre @ [13] @ 10 # rest) (length pre) 10 (total_len - length pre) = Some 2"
    using Nil by (subst read_until_line) auto
  then show ?case
    using Nil assms(1)
    by (subst parse_http_lines.simps) (simp add: load8_def nth_append parse_content_length_def)
next
  case (Cons l ls)
  let ?text = "pre @ lines_text (l # ls) @ [13, 10] @ rest"
  have r: "read_until ?text (length pre) 10 (total_len - length pre) = Some (length l + 2)"
    using read_until_line [of "l @ [13]" "total_len - length pre" pre "lines_text ls @ [13, 10] @ rest"]
      Cons.prems by (simp add: http_line_def)
  have c: "load8 ?text (length pre) = Some (hd l)" "hd l \<noteq> 0"
    using Cons.prems by (cases l; simp add: load8_def nth_append http_line_def)+
  have "parse_http_lines skip_size ?text total_len (length pre + (length l + 2)) firm =
      Some (Returns (firm, Some (length pre + length (lines_text (l # ls)) + 2)))"
    using Cons.IH [of "pre @ l @ [13, 10]"] Cons.prems by (simp add: add.assoc)
  moreover have "l \<noteq> []" using Cons.prems by (simp add: http_line_def)
  ultimately show ?case
    using r c Cons.prems assms(1)
    by (subst parse_http_lines.simps) (simp add: parse_content_length_def)
qed

lemma parse_http_header:
  assumes "header_ok before n after" "content_len firm = 0" "0 \<in> set rest"
    "length (http_header before n after) \<le> total_len" "part = Some address"
  shows "esp_ota_firm_parse_http part firm (http_header before n after @ rest) total_len =
    Some (Returns (firm\<lparr>content_len := of_nat n, ota_size := of_nat n - (address - 0x1000),
        ota_offset := address - 0x1000\<rparr>, Some (length (http_header before n after))))"
proof -
  let ?h = "http_header before n after" and ?skip = "address - 0x1000"
  let ?firm1 = "firm\<lparr>content_len := of_nat n, ota_size := of_nat n - ?skip, ota_offset := ?skip\<rparr>"
  have pc: "parse_content_length ?skip (?h @ rest) firm = Some ?firm1"
    by (rule parse_content_length_found [OF assms(1-3)])
  have n: "(of_nat n :: u32) \<noteq> 0"
    using assms(1) by (simp add: header_ok_def word_of_nat_eq_0_iff nat_dvd_not_less)
  have "list_all http_line (before @ length_line n # after)"
    using assms(1) http_line_length_line by (simp add: header_ok_def)
  from parse_http_lines_rest [of ?firm1 _ "[]", OF _ this, of total_len ?skip rest] n assms(4)
  have *: "parse_http_lines ?skip (?h @ rest) total_len 0 ?firm1 = Some (Returns (?firm1, Some (length ?h)))"
    by (simp add: http_header_def)
  obtain l ls where l: "before @ length_line n # after = l # ls" by (cases before) auto
  then have "http_line l"
    using assms(1) http_line_length_line [of n] by (cases before) (auto simp: header_ok_def)
  then have c: "load8 (?h @ rest) 0 = Some (hd l)" "hd l \<noteq> 0" and "0 < length ?h"
    by (cases l; simp add: http_header_def l load8_def http_line_def)+
  then have t: "0 < total_len" using assms(4) by linarith
  have pc1: "parse_content_length ?skip (?h @ rest) ?firm1 = Some ?firm1"
    using n by (simp add: parse_content_length_def)
  have "parse_http_lines ?skip (?h @ rest) total_len 0 firm = parse_http_lines ?skip (?h @ rest) total_len 0 ?firm1"
    unfolding parse_http_lines.simps [of ?skip "?h @ rest" total_len 0 firm]
      parse_http_lines.simps [of ?skip "?h @ rest" total_len 0 ?firm1]
    by (simp only: c pc pc1 t bind.bind_lunit simp_thms if_False)
  then show ?thesis using * by (simp add: esp_ota_firm_parse_http_def assms(5))
qed

section \<open>The stream of the body\<close>

lemma unat_of_nat_u32: "k < 4294967296 \<Longrightarrow> unat (of_nat k :: u32) = k"
  by (simp add: unat_of_nat)

text \<open>The state of the parser after a part \<open>sofar\<close> of the body, of a response with \<open>n\<close> bytes of which
  the first \<open>k\<close> are skipped; \<open>flash\<close> is what has been written.\<close>

definition stream_inv :: "nat \<Rightarrow> nat \<Rightarrow> u8 list \<Rightarrow> esp_ota_firm_t \<Rightarrow> u8 list \<Rightarrow> bool" where
  "stream_inv n k sofar firm flash \<longleftrightarrow>
     k \<le> n \<and> n < 2147483648 \<and> length sofar \<le> n \<and>
     ota_size firm = of_nat (n - k) \<and> ota_offset firm = of_nat k \<and>
     flash = drop k sofar \<and> write_bytes firm = of_nat (length flash) \<and>
     (ota_state firm = ESP_OTA_PREPARE \<and> read_bytes firm = of_nat (length sofar) \<and>
        (length sofar < k \<or> sofar = []) \<or>
      ota_state firm = ESP_OTA_START \<and> k \<le> length sofar)"

text \<open>What a message of the body does to the parser: it is still before the part to be written, or it gives the
  task the bytes to be written, and has finished if there are more bytes than the firmware has.\<close>

definition body_done ::
  "nat \<Rightarrow> nat \<Rightarrow> u8 list \<Rightarrow> u8 list \<Rightarrow> u8 list \<Rightarrow> nat \<Rightarrow> esp_ota_firm_t \<Rightarrow> bool" where
  "body_done n k sofar flash data in_buf firm1 \<longleftrightarrow>
    (if length (sofar @ data) < k then ota_state firm1 = ESP_OTA_PREPARE \<and> stream_inv n k (sofar @ data) firm1 flash
     else esp_ota_firm_can_write firm1 \<and>
       ota_buf firm1 = Some (in_buf + (k - length sofar)) \<and>
       unat (ota_bytes firm1) = length (take (n - length sofar) (drop (k - length sofar) data)) \<and>
       (if length (sofar @ data) \<le> n
        then \<not> esp_ota_firm_is_finished firm1 \<and>
          stream_inv n k (sofar @ data) firm1 (flash @ drop (k - length sofar) data)
        else esp_ota_firm_is_finished firm1 \<and> k \<le> length sofar))"

lemma do_parse_prepare:
  assumes "stream_inv n k sofar firm flash" "data \<noteq> []" "length data \<le> 1024"
    "1024 \<le> n - k \<or> length (sofar @ data) \<le> n" "ota_state firm = ESP_OTA_PREPARE"
  shows "\<exists>firm1. esp_ota_firm_do_parse_msg part firm text in_buf (length data) = Some (Returns (length data, firm1)) \<and>
    body_done n k sofar flash data in_buf firm1"
proof -
  note u = unat_of_nat_u32
  let ?d = "length data" and ?s = "length sofar"
  define m where "m = ?s + ?d"
  have b: "k \<le> n" "n < 2147483648" "?s \<le> n" "0 < ?d" "ota_size firm = of_nat (n - k)" "ota_offset firm = of_nat k"
    "flash = []" "write_bytes firm = 0" "read_bytes firm = of_nat ?s" "?s < k \<or> sofar = []"
    using assms(1,2,5) by (auto simp: stream_inv_def)
  have rb: "read_bytes firm + of_nat ?d = of_nat m" by (simp add: b m_def)
  have le: "(of_nat k \<le> (of_nat m :: u32)) = (k \<le> m)"
    unfolding word_le_nat_alt using b assms(3) by (subst (1 2) u) (auto simp: m_def)
  show ?thesis
  proof (cases "m < k")
    case True
    then show ?thesis
      using assms(5) b rb le
      by (auto simp: esp_ota_firm_do_parse_msg_def Let_def stream_inv_def m_def body_done_def)
  next
    case False
    define r where "r = m - k"
    have fits: "m \<le> n" and len: "r = ?d - (k - ?s)" "r \<le> ?d" "?d - r = k - ?s"
      using b(10) False assms(3,4) by (auto simp: m_def r_def)
    have rest: "(of_nat m :: u32) - of_nat k = of_nat r" using False by (simp add: r_def of_nat_diff)
    have tail: "unat ((of_nat ?d :: u32) - of_nat r) = k - ?s"
      using len b by (simp add: of_nat_diff [symmetric] u del: of_nat_diff)
    define firm1 where "firm1 = firm\<lparr>read_bytes := of_nat m, ota_buf := Some (in_buf + (k - ?s)),
      ota_bytes := of_nat r, write_bytes := of_nat r, ota_state := ESP_OTA_START\<rparr>"
    have 1: "esp_ota_firm_do_parse_msg part firm text in_buf ?d = Some (Returns (?d, firm1))"
      using assms(5) b rb le False rest tail
      by (simp add: esp_ota_firm_do_parse_msg_def Let_def firm1_def del: of_nat_diff)
    have 2: "unat (ota_bytes firm1) = ?d - (k - ?s)"
      using fits b by (simp add: firm1_def u r_def len(1) [symmetric])
    have 3: "stream_inv n k (sofar @ data) firm1 (flash @ drop (k - ?s) data)"
      using b fits False len by (auto simp: stream_inv_def firm1_def m_def)
    show ?thesis
      using 1 2 3 False fits by (intro exI [of _ firm1])
        (auto simp: m_def esp_ota_firm_can_write_def esp_ota_firm_is_finished_def firm1_def body_done_def)
  qed
qed

lemma do_parse_start:
  assumes "stream_inv n k sofar firm flash" "data \<noteq> []" "length data \<le> 1024" "ota_state firm = ESP_OTA_START"
  shows "\<exists>firm1. esp_ota_firm_do_parse_msg part firm text in_buf (length data) = Some (Returns (length data, firm1)) \<and>
    body_done n k sofar flash data in_buf firm1"
proof -
  note u = unat_of_nat_u32
  let ?d = "length data" and ?s = "length sofar"
  have b: "k \<le> n" "n < 2147483648" "?s \<le> n" "0 < ?d" "k \<le> ?s"
    using assms(1,2,4) by (auto simp: stream_inv_def)
  have sz: "ota_size firm = of_nat (n - k)" "ota_offset firm = of_nat k" "flash = drop k sofar"
    "write_bytes firm = of_nat (?s - k)"
    using assms(1) by (auto simp: stream_inv_def)
  have sum: "write_bytes firm + of_nat ?d = of_nat (?s - k + ?d)" by (simp add: sz)
  have gt: "(ota_size firm < write_bytes firm + of_nat ?d) = (n < ?s + ?d)"
    unfolding sum sz(1) word_less_nat_alt using b assms(3) by (subst (1 2) u) auto
  show ?thesis
  proof (cases "n < ?s + ?d")
    case True
    have "ota_size firm - write_bytes firm = of_nat (n - ?s)"
      using b by (simp add: sz of_nat_diff)
    moreover have "unat (of_nat (n - ?s) :: u32) = n - ?s" using b by (intro u) simp
    ultimately have "unat (ota_size firm - write_bytes firm) = n - ?s" by simp
    then show ?thesis
      using assms(4) True gt b
      by (auto simp: esp_ota_firm_do_parse_msg_def Let_def esp_ota_firm_can_write_def
          esp_ota_firm_is_finished_def body_done_def)
  next
    case False
    have "unat (of_nat ?d :: u32) = ?d" using assms(3) by (simp add: u)
    then show ?thesis
      using assms(4) False gt b sz sum
      by (auto simp: esp_ota_firm_do_parse_msg_def Let_def esp_ota_firm_can_write_def
          esp_ota_firm_is_finished_def stream_inv_def body_done_def)
  qed
qed

lemma do_parse_body:
  assumes "stream_inv n k sofar firm flash" "data \<noteq> []" "length data \<le> 1024"
    "1024 \<le> n - k \<or> length (sofar @ data) \<le> n"
  shows "\<exists>firm1. esp_ota_firm_do_parse_msg part firm text in_buf (length data) = Some (Returns (length data, firm1)) \<and>
    body_done n k sofar flash data in_buf firm1"
proof -
  have "ota_state firm = ESP_OTA_PREPARE \<or> ota_state firm = ESP_OTA_START"
    using assms(1) by (auto simp: stream_inv_def)
  then show ?thesis using do_parse_prepare [OF assms] do_parse_start [OF assms(1-3)] by blast
qed

text \<open>What happens to the task after a message has been parsed.\<close>

definition after_message ::
  "u32 option \<Rightarrow> (u8 list \<Rightarrow> u8 list \<Rightarrow> bool) \<Rightarrow> recv_result list \<Rightarrow> ota_task \<Rightarrow> loop_end option" where
  "after_message part write_ok rs t2 =
     (if \<not> esp_ota_firm_can_write (t_firm t2) then receive_loop part write_ok rs t2
      else do {
        wr \<leftarrow> write_firmware write_ok t2;
        case wr of
          Fatal \<Rightarrow> Some Task_ended
        | Returns t3 \<Rightarrow>
            if esp_ota_firm_is_finished (t_firm t3) then Some (Loop_left t3)
            else receive_loop part write_ok rs t3
      })"

lemma clear_buffers_sel [simp]:
  "t_text (clear_buffers t) = replicate TEXT_BUFFSIZE 0 @ drop TEXT_BUFFSIZE (t_text t)"
  "t_write_data (clear_buffers t) = replicate BUFFSIZE 0 @ drop BUFFSIZE (t_write_data t)"
  "t_firm (clear_buffers t) = t_firm t" "t_flash (clear_buffers t) = t_flash t"
  by (simp_all add: clear_buffers_def)

lemma receive_loop_Received:
  assumes "length data \<le> TEXT_BUFFSIZE" "length (t_text t) = BUFFSIZE + 1"
  shows "receive_loop part write_ok (Received data # rs) t =
    (let text1 = data @ replicate (TEXT_BUFFSIZE - length data) 0 @ drop TEXT_BUFFSIZE (t_text t) in do {
       m \<leftarrow> esp_ota_firm_parse_msg part (t_firm t) text1 (length data);
       case m of Fatal \<Rightarrow> Some Task_ended
       | Returns firm1 \<Rightarrow> after_message part write_ok rs ((clear_buffers t)\<lparr>t_text := text1, t_firm := firm1\<rparr>)
     })"
  using assms by (simp add: receive_loop.simps(2) Let_def store_block_def after_message_def)

text \<open>The buffers of the task, and the stream it has seen.\<close>

definition task_inv :: "nat \<Rightarrow> nat \<Rightarrow> u8 list \<Rightarrow> ota_task \<Rightarrow> bool" where
  "task_inv n k sofar t \<longleftrightarrow> length (t_text t) = BUFFSIZE + 1 \<and> length (t_write_data t) = BUFFSIZE + 1 \<and>
     stream_inv n k sofar (t_firm t) (t_flash t)"

lemma write_firmware_out:
  assumes "ota_buf (t_firm t) = Some (length pre + j)" "unat (ota_bytes (t_firm t)) = length out"
    "take (length out) (drop j data) = out" "j \<le> length data" "t_text t = pre @ data @ post"
    "length out \<le> BUFFSIZE" "length (t_write_data t) = BUFFSIZE + 1" "\<forall>a b. write_ok a b"
  shows "\<exists>wd. length wd = BUFFSIZE + 1 \<and> write_firmware write_ok t =
    Some (Returns (t\<lparr>t_write_data := wd, t_flash := t_flash t @ out, t_length := t_length t + length out\<rparr>))"
proof -
  have "length out \<le> length data - j" by (subst assms(3) [symmetric]) simp
  then have ld: "load_block (t_text t) (length pre + j) (length out) = Some out"
    using assms(3-5) by (simp add: load_block_def)
  define wd where "wd = out @ drop (length out) (t_write_data t)"
  have st: "store_block (t_write_data t) 0 out = Some wd" "take (length out) wd = out" "length wd = BUFFSIZE + 1"
    using assms(6,7) by (auto simp: store_block_def wd_def)
  then show ?thesis
    using assms(1,2,8) ld by (intro exI [of _ wd]) (simp add: write_firmware_def Let_def)
qed

lemma body_message:
  assumes "stream_inv n k sofar firm flash" "data \<noteq> []" "length data \<le> 1024"
    "1024 \<le> n - k \<or> length (sofar @ data) \<le> n" "\<forall>a b. write_ok a b"
    "t_text t = pre @ data @ post" "length (t_text t) = BUFFSIZE + 1" "length (t_write_data t) = BUFFSIZE + 1"
    "t_flash t = flash"
  shows "\<exists>t1. (do {
      m \<leftarrow> parse_msg_from part (t_text t) (length pre + length data) (length pre) firm;
      case m of Fatal \<Rightarrow> Some Task_ended
      | Returns firm1 \<Rightarrow> after_message part write_ok rs (t\<lparr>t_firm := firm1\<rparr>) }) =
     (if length (sofar @ data) \<le> n then receive_loop part write_ok rs t1 else Some (Loop_left t1)) \<and>
    (if length (sofar @ data) \<le> n then task_inv n k (sofar @ data) t1
     else t_flash t1 = drop k (take n (sofar @ data)))"
proof -
  obtain firm1 where p: "esp_ota_firm_do_parse_msg part firm (t_text t) (length pre) (length data) =
      Some (Returns (length data, firm1))" and bd: "body_done n k sofar flash data (length pre) firm1"
    using do_parse_body [OF assms(1-4)] by metis
  note r = bd [unfolded body_done_def]
  have parsed: "parse_msg_from part (t_text t) (length pre + length data) (length pre) firm = Some (Returns firm1)"
    by (subst parse_msg_from.simps) (simp add: p)
  let ?t2 = "t\<lparr>t_firm := firm1\<rparr>"
  show ?thesis
  proof (cases "length (sofar @ data) < k")
    case True
    then have "\<not> esp_ota_firm_can_write firm1" "length (sofar @ data) \<le> n"
      using r assms(1) by (simp_all add: esp_ota_firm_can_write_def stream_inv_def)
    then show ?thesis
      using True r assms(7-9) unfolding parsed
      by (intro exI [of _ ?t2]) (simp add: after_message_def task_inv_def)
  next
    case False
    define out where "out = take (n - length sofar) (drop (k - length sofar) data)"
    have "length out \<le> length data" "take (length out) (drop (k - length sofar) data) = out"
      "k - length sofar \<le> length data"
      using False by (auto simp: out_def min_def)
    then obtain wd where wd: "length wd = BUFFSIZE + 1" "write_firmware write_ok ?t2 = Some (Returns
        (?t2\<lparr>t_write_data := wd, t_flash := flash @ out, t_length := t_length t + length out\<rparr>))"
      using write_firmware_out [of ?t2 pre "k - length sofar" out data post write_ok] assms(3,5,6,8,9) False r
      by (auto simp: out_def [symmetric] BUFFSIZE_def)
    let ?t3 = "?t2\<lparr>t_write_data := wd, t_flash := flash @ out, t_length := t_length t + length out\<rparr>"
    have cw: "esp_ota_firm_can_write firm1" using r False by simp
    show ?thesis
    proof (cases "length (sofar @ data) \<le> n")
      case True
      then have "out = drop (k - length sofar) data" by (simp add: out_def)
      then show ?thesis
        using True False r assms(7) wd unfolding parsed
        by (intro exI [of _ ?t3]) (simp add: after_message_def cw task_inv_def)
    next
      case over: False
      then have "flash @ out = drop k (take n (sofar @ data))"
        using r False assms(1) by (auto simp: stream_inv_def out_def)
      then show ?thesis
        using over False r wd unfolding parsed
        by (intro exI [of _ ?t3]) (simp add: after_message_def cw)
    qed
  qed
qed

lemma receive_body:
  assumes "task_inv n k sofar t" "\<And>d. d \<in> set ds \<Longrightarrow> d \<noteq> [] \<and> length d \<le> 1024" "\<forall>a b. write_ok a b"
    "1024 \<le> n - k \<or> length (sofar @ concat ds) \<le> n"
  shows "\<exists>t1. receive_loop part write_ok (map Received ds @ [Closed]) t = Some (Loop_left t1) \<and>
    t_flash t1 = drop k (take n (sofar @ concat ds))"
  using assms(1,2,4)
proof (induction ds arbitrary: sofar t)
  case Nil
  then show ?case
    by (auto simp: task_inv_def stream_inv_def receive_loop.simps Let_def)
next
  case (Cons d ds)
  let ?text = "d @ replicate (TEXT_BUFFSIZE - length d) 0 @ drop TEXT_BUFFSIZE (t_text t)"
  let ?t = "(clear_buffers t)\<lparr>t_text := ?text\<rparr>"
  have d: "d \<noteq> []" "length d \<le> 1024" using Cons.prems(2) by auto
  then have dt: "length d \<le> TEXT_BUFFSIZE" by (simp add: TEXT_BUFFSIZE_def)
  have len: "length (t_text t) = BUFFSIZE + 1" "length (t_write_data t) = BUFFSIZE + 1"
    and inv: "stream_inv n k sofar (t_firm t) (t_flash t)"
    using Cons.prems(1) by (auto simp: task_inv_def)
  have fit: "1024 \<le> n - k \<or> length (sofar @ d) \<le> n" using Cons.prems(3) by auto
  have tt: "t_text ?t = [] @ d @ (replicate (TEXT_BUFFSIZE - length d) 0 @ drop TEXT_BUFFSIZE (t_text t))"
    "length (t_text ?t) = BUFFSIZE + 1" "length (t_write_data ?t) = BUFFSIZE + 1" "t_flash ?t = t_flash t"
    using d len by (auto simp: clear_buffers_def TEXT_BUFFSIZE_def BUFFSIZE_def)
  obtain t1 where
    t1: "receive_loop part write_ok (Received d # map Received ds @ [Closed]) t =
      (if length (sofar @ d) \<le> n then receive_loop part write_ok (map Received ds @ [Closed]) t1 else Some (Loop_left t1))"
    and r: "if length (sofar @ d) \<le> n then task_inv n k (sofar @ d) t1
      else t_flash t1 = drop k (take n (sofar @ d))"
    using body_message [OF inv d fit assms(3) tt(1-4), where part = part and rs = "map Received ds @ [Closed]"] dt len
    by (auto simp: receive_loop_Received esp_ota_firm_parse_msg_def Let_def)
  show ?case
  proof (cases "length (sofar @ d) \<le> n")
    case True
    have "\<exists>t2. receive_loop part write_ok (map Received ds @ [Closed]) t1 = Some (Loop_left t2) \<and>
        t_flash t2 = drop k (take n ((sofar @ d) @ concat ds))"
      using Cons.prems(2,3) r True by (intro Cons.IH) auto
    then show ?thesis using t1 True by simp
  next
    case False
    then show ?thesis using t1 r by simp
  qed
qed

text \<open>The message with the header.\<close>

lemma receive_header:
  fixes partition_count subtype :: u8
  assumes "header_ok before n after" "unat (address - 0x1000) \<le> n" "length (http_header before n after @ d) \<le> 1024"
  defines "h \<equiv> http_header before n after" and "init \<equiv> ota_task_init partition_count subtype"
  shows "\<exists>t firm post. stream_inv n (unat (address - 0x1000)) [] firm [] \<and> t_text t = h @ d @ post \<and>
    length (t_text t) = BUFFSIZE + 1 \<and> length (t_write_data t) = BUFFSIZE + 1 \<and> t_flash t = [] \<and>
    (\<forall>rs. receive_loop (Some address) write_ok (Received (h @ d) # rs) init =
      (if d = [] then receive_loop (Some address) write_ok rs (t\<lparr>t_firm := firm\<rparr>)
       else do { m \<leftarrow> parse_msg_from (Some address) (t_text t) (length h + length d) (length h) firm;
         case m of Fatal \<Rightarrow> Some Task_ended
         | Returns firm1 \<Rightarrow> after_message (Some address) write_ok rs (t\<lparr>t_firm := firm1\<rparr>) }))"
proof -
  let ?skip = "address - 0x1000"
  let ?post = "replicate (TEXT_BUFFSIZE - length (h @ d)) 0 @ drop TEXT_BUFFSIZE (t_text init)"
  let ?text = "(h @ d) @ ?post"
  let ?firm = "(t_firm init)\<lparr>content_len := of_nat n, ota_size := of_nat n - ?skip,
    ota_offset := ?skip, ota_state := ESP_OTA_PREPARE\<rparr>"
  let ?t = "(clear_buffers init)\<lparr>t_text := ?text\<rparr>"
  have n: "n < 2147483648" using assms(1) by (simp add: header_ok_def)
  have sk: "?skip = of_nat (unat ?skip)" by simp
  have inv: "stream_inv n (unat ?skip) [] ?firm []"
    using assms(2) n by (simp add: stream_inv_def init_def ota_task_init_def esp_ota_firm_init_def of_nat_diff)
  have z: "0 \<in> set (d @ ?post)"
    by (simp add: init_def ota_task_init_def TEXT_BUFFSIZE_def BUFFSIZE_def)
  have parse: "esp_ota_firm_do_parse_msg (Some address) (t_firm init) ?text 0 (length (h @ d)) =
      Some (Returns (length h, ?firm))"
    using parse_http_header [OF assms(1) _ z, of "t_firm init" "length (h @ d)" "Some address"]
    by (simp add: esp_ota_firm_do_parse_msg_def init_def ota_task_init_def esp_ota_firm_init_def h_def)
  have len: "length (h @ d) \<le> TEXT_BUFFSIZE" "length (t_text init) = BUFFSIZE + 1"
    using assms(3) by (simp_all add: TEXT_BUFFSIZE_def init_def ota_task_init_def h_def)
  have tt: "t_text ?t = h @ d @ ?post" "length (t_text ?t) = BUFFSIZE + 1"
      "length (t_write_data ?t) = BUFFSIZE + 1" "t_flash ?t = []"
    using assms(3) by (simp_all add: init_def h_def ota_task_init_def BUFFSIZE_def TEXT_BUFFSIZE_def)
  have "receive_loop (Some address) write_ok (Received (h @ d) # rs) init =
      (if d = [] then receive_loop (Some address) write_ok rs (?t\<lparr>t_firm := ?firm\<rparr>)
       else do { m \<leftarrow> parse_msg_from (Some address) (t_text ?t) (length h + length d) (length h) ?firm;
         case m of Fatal \<Rightarrow> Some Task_ended
         | Returns firm1 \<Rightarrow> after_message (Some address) write_ok rs (?t\<lparr>t_firm := firm1\<rparr>) })" for rs
  proof -
    have "parse_msg_from (Some address) ?text (length (h @ d)) 0 (t_firm init) =
      (if d = [] then Some (Returns ?firm)
       else parse_msg_from (Some address) (t_text ?t) (length h + length d) (length h) ?firm)"
      using parse by (subst parse_msg_from.simps) simp
    then have "receive_loop (Some address) write_ok (Received (h @ d) # rs) init = do {
        m \<leftarrow> (if d = [] then Some (Returns ?firm)
            else parse_msg_from (Some address) (t_text ?t) (length h + length d) (length h) ?firm);
        case m of Fatal \<Rightarrow> Some Task_ended
        | Returns firm1 \<Rightarrow> after_message (Some address) write_ok rs (?t\<lparr>t_firm := firm1\<rparr>) }"
      using receive_loop_Received [OF len, of "Some address" write_ok rs]
      by (simp only: esp_ota_firm_parse_msg_def Let_def append_assoc)
    then show ?thesis
      by (cases "d = []") (simp add: after_message_def esp_ota_firm_can_write_def, simp only: if_False)
  qed
  then show ?thesis using inv tt by (intro exI [of _ ?t] exI [of _ ?firm] exI [of _ ?post]) blast
qed

lemma receive_firmware:
  assumes "header_ok before n after" "unat (address - 0x1000) \<le> n"
    "length (http_header before n after @ d) \<le> 1024"
    "\<And>p. p \<in> set ds \<Longrightarrow> p \<noteq> [] \<and> length p \<le> 1024" "\<forall>a b. write_ok a b"
    "1024 \<le> n - unat (address - 0x1000) \<or> length (concat (d # ds)) \<le> n"
  shows "\<exists>t. receive_loop (Some address) write_ok
      (Received (http_header before n after @ d) # map Received ds @ [Closed])
      (ota_task_init partition_count subtype) = Some (Loop_left t) \<and>
    t_flash t = drop (unat (address - 0x1000)) (take n (concat (d # ds)))"
proof -
  define k where "k = unat (address - 0x1000)"
  let ?h = "http_header before n after" and ?rs = "map Received ds @ [Closed]"
  obtain t firm post where inv: "stream_inv n k [] firm []" and tt: "t_text t = ?h @ d @ post"
    "length (t_text t) = BUFFSIZE + 1" "length (t_write_data t) = BUFFSIZE + 1" "t_flash t = []"
    and first: "receive_loop (Some address) write_ok (Received (?h @ d) # ?rs) (ota_task_init partition_count subtype) =
      (if d = [] then receive_loop (Some address) write_ok ?rs (t\<lparr>t_firm := firm\<rparr>)
       else do { m \<leftarrow> parse_msg_from (Some address) (t_text t) (length ?h + length d) (length ?h) firm;
         case m of Fatal \<Rightarrow> Some Task_ended
         | Returns firm1 \<Rightarrow> after_message (Some address) write_ok ?rs (t\<lparr>t_firm := firm1\<rparr>) })"
    using receive_header [OF assms(1-3), of write_ok partition_count subtype] unfolding k_def by blast
  have fit: "1024 \<le> n - k \<or> length ([] @ concat (d # ds)) \<le> n" using assms(6) by (simp add: k_def)
  have rest: "\<exists>t1. receive_loop (Some address) write_ok ?rs t0 = Some (Loop_left t1) \<and>
      t_flash t1 = drop k (take n (d @ concat ds))" if "task_inv n k d t0" for t0
    using that fit by (intro receive_body [OF _ assms(4,5)]) auto
  show ?thesis
  proof (cases "d = []")
    case True
    have "task_inv n k d (t\<lparr>t_firm := firm\<rparr>)" using True inv tt by (simp add: task_inv_def)
    from rest [OF this] show ?thesis using True first by (simp add: k_def)
  next
    case False
    have "length d \<le> 1024" "1024 \<le> n - k \<or> length ([] @ d) \<le> n" using assms(3) fit by auto
    from body_message [OF inv False this assms(5) tt, where part = "Some address" and rs = ?rs]
    obtain t1 where
      t1: "receive_loop (Some address) write_ok (Received (?h @ d) # ?rs) (ota_task_init partition_count subtype) =
        (if length d \<le> n then receive_loop (Some address) write_ok ?rs t1 else Some (Loop_left t1))"
      and r: "if length d \<le> n then task_inv n k d t1 else t_flash t1 = drop k (take n d)"
      unfolding append_Nil first if_not_P [OF False] by blast
    show ?thesis
    proof (cases "length d \<le> n")
      case True
      then show ?thesis using t1 r rest [of t1] by (simp add: k_def)
    next
      case over: False
      then show ?thesis using t1 r by (simp add: k_def)
    qed
  qed
qed


text \<open>A response with six bytes of content of which two are skipped, in three packets.\<close>

definition demo_ota_env :: ota_env where
  "demo_ota_env = \<lparr>e_socket = True, e_connect = True, e_asprintf = True, e_send = True,
     e_update_partition = Some 0x11, e_ota_begin = True, e_partition_count = 2, e_first_partition = Some 0x1002,
     e_recv = Received (http_header [lit ''HTTP/1.0 200 OK''] 6 [] @ [1, 2]) #
       map Received [[3, 4, 5], [6]] @ [Closed],
     e_write_ok = (\<lambda>a b. True), e_end_ok = (\<lambda>a. True), e_set_boot_ok = True\<rparr>"


section \<open>Where the parser fails\<close>

lemma parse_http_lines_le:
  "parse_http_lines skip_size text total_len i firm = Some (Returns (firm1, Some m)) \<Longrightarrow> 0 < m \<and> m \<le> total_len"
proof (induction skip_size "text" total_len i firm rule: parse_http_lines.induct)
  case (1 skip_size b total_len i firm)
  from 1(2) show ?case
    by (subst (asm) parse_http_lines.simps) (auto split: bind_splits if_splits dest!: 1(1))
qed

lemma parse_msg_stuck:
  assumes "parse_msg_from part tx in_len parse_bytes firm = Some r"
    "ota_state firm = ESP_OTA_RECVED \<or> ota_state firm = ESP_OTA_FINISH"
  shows "parse_bytes = in_len"
proof -
  have "ota_state firm = ESP_OTA_RECVED \<or> ota_state firm = ESP_OTA_FINISH \<longrightarrow> parse_bytes = in_len"
  proof (rule parse_msg_from.raw_induct [OF _ assms(1), where P = "\<lambda>part tx in_len parse_bytes firm r.
      ota_state firm = ESP_OTA_RECVED \<or> ota_state firm = ESP_OTA_FINISH \<longrightarrow> parse_bytes = in_len"])
    fix rec :: "u32 option \<Rightarrow> u8 list \<Rightarrow> nat \<Rightarrow> nat \<Rightarrow> esp_ota_firm_t \<Rightarrow> esp_ota_firm_t run option"
      and part :: "u32 option" and tx :: "u8 list" and n b :: nat and f r
    assume ih: "\<And>part tx n b f r. rec part tx n b f = Some r \<Longrightarrow>
        ota_state f = ESP_OTA_RECVED \<or> ota_state f = ESP_OTA_FINISH \<longrightarrow> b = n"
      and run: "esp_ota_firm_do_parse_msg part f tx b (n - b) \<bind>
        (\<lambda>r. case r of Fatal \<Rightarrow> Some Fatal
         | Returns (bytes, firm1) \<Rightarrow> if b + bytes \<noteq> n then rec part tx n (b + bytes) firm1 else Some (Returns firm1)) =
        Some r"
    show "ota_state f = ESP_OTA_RECVED \<or> ota_state f = ESP_OTA_FINISH \<longrightarrow> b = n"
      using run ih [of part tx n b "f\<lparr>ota_state := ESP_OTA_FINISH\<rparr>" r] ih [of part tx n b f r]
      by (auto simp: esp_ota_firm_do_parse_msg_def split: if_splits)
  qed
  then show ?thesis using assms(2) by blast
qed

lemma find_sub_no_cr: "13 \<notin> set s \<Longrightarrow> find_sub [13, 10] s = None"
  by (induction s) auto

lemma parse_body_ends:
  assumes "b \<le> in_len" "ota_state f = ESP_OTA_PREPARE \<or> ota_state f = ESP_OTA_START"
  shows "\<exists>firm1. parse_msg_from part text in_len b f = Some (Returns firm1)"
  using assms by (subst parse_msg_from.simps) (auto simp: esp_ota_firm_do_parse_msg_def Let_def)

lemma parse_header_ends:
  assumes "esp_ota_firm_parse_http part firm text in_len = Some r" "ota_state firm = ESP_OTA_INIT"
  shows "parse_msg_from part text in_len 0 firm \<noteq> None"
proof -
  consider (fatal) "r = Fatal" | (incomplete) firm1 where "r = Returns (firm1, None)"
    | (complete) firm1 k where "r = Returns (firm1, Some k)"
    by (metis option.exhaust run.exhaust surj_pair)
  then show ?thesis
  proof cases
    case complete
    then have "k \<le> in_len"
      using assms(1) by (auto simp: esp_ota_firm_parse_http_def split: option.splits dest: parse_http_lines_le)
    then show ?thesis
      using assms complete parse_body_ends [of k in_len "firm1\<lparr>ota_state := ESP_OTA_PREPARE\<rparr>" part "text"]
      by (subst parse_msg_from.simps) (auto simp: esp_ota_firm_do_parse_msg_def)
  qed (use assms in \<open>subst parse_msg_from.simps; simp add: esp_ota_firm_do_parse_msg_def\<close>)+
qed

text \<open>C35: The parser comes back from a message exactly if it is in a state that takes bytes: in the header
  as far as the header can be parsed, and in the body. When the firmware is complete, a further message is
  never consumed and the loop does not end; the task must leave its own loop before, and does.\<close>

theorem ota_parse_msg_ends_iff:
  assumes "0 < in_len"
  shows "esp_ota_firm_parse_msg part firm text in_len \<noteq> None \<longleftrightarrow>
    ota_state firm = ESP_OTA_PREPARE \<or> ota_state firm = ESP_OTA_START \<or>
    ota_state firm = ESP_OTA_INIT \<and> esp_ota_firm_parse_http part firm text in_len \<noteq> None"
proof (cases "ota_state firm")
  case ESP_OTA_INIT
  show ?thesis
  proof (cases "esp_ota_firm_parse_http part firm text in_len")
    case None
    then show ?thesis
      using ESP_OTA_INIT by (simp add: esp_ota_firm_parse_msg_def parse_msg_from.simps esp_ota_firm_do_parse_msg_def)
  next
    case (Some r)
    then show ?thesis
      using parse_header_ends ESP_OTA_INIT by (simp add: esp_ota_firm_parse_msg_def)
  qed
qed (use assms parse_body_ends [of 0 in_len firm part "text"] parse_msg_stuck [of part "text" in_len 0 firm] in
    \<open>fastforce simp: esp_ota_firm_parse_msg_def\<close>)+

theorem ota_parse_msg_ends_iff_witness:
  "esp_ota_firm_parse_msg None ((esp_ota_firm_init 2 0x11)\<lparr>ota_state := ESP_OTA_RECVED\<rparr>) [1] 1 = None"
  using ota_parse_msg_ends_iff [of 1 None "(esp_ota_firm_init 2 0x11)\<lparr>ota_state := ESP_OTA_RECVED\<rparr>" "[1]"]
  by simp

text \<open>A packet that ends inside the line with the length of the content makes the parser copy with the
  distance to a null pointer: the header must not be cut there, and nothing prevents that.\<close>

theorem ota_cut_length_line:
  assumes "list_all http_line before" "list_all (\<lambda>l. find_sub (lit ''Content-Length'') l = None) before"
    "0 \<notin> set s" "13 \<notin> set s" "data = lines_text before @ lit ''Content-Length'' @ s" "length data \<le> 1024"
  shows "receive_loop (Some address) write_ok (Received data # rs) (ota_task_init partition_count subtype) = None"
proof -
  let ?init = "ota_task_init partition_count subtype" and ?skip = "address - 0x1000"
  let ?CL = "lit ''Content-Length''" and ?P = "lines_text before"
  define post where "post = replicate (1501 - length data) (0 :: u8)"
  have post: "replicate (TEXT_BUFFSIZE - length data) 0 @ drop TEXT_BUFFSIZE (t_text ?init) = post"
    using assms(6) by (simp add: post_def ota_task_init_def TEXT_BUFFSIZE_def BUFFSIZE_def flip: replicate_add)
  have z: "0 \<in> set post" "0 \<in> set (drop (Suc 0) post)" "0 \<in> set (drop 2 post)" "13 \<notin> set post"
    using assms(6) by (simp_all add: post_def)
  have nz: "0 \<notin> set data"
    using assms(1,3,5) by (auto simp: lines_text_def list_all_iff http_line_def lit_def of_char_def)
  have c: "cstr_of (data @ post) = data"
    using nz by (cases "1501 - length data") (auto simp: post_def cstr_of_def takeWhile_append)
  have 1: "strstr (data @ post) 0 ?CL = Some (Some (length ?P))"
    using c assms(2,5) find_sub_lines [of ?CL before "?CL @ s"] find_sub_here [of ?CL s] z(1)
    by (auto simp: strstr_def lit_def of_char_def)
  have d: "drop (length ?P + 16) (data @ post) = drop 2 (s @ post)"
    by (simp add: assms(5))
  have "0 \<in> set (drop 2 (s @ post))" using z by (cases s rule: remdups_adj.cases) auto
  moreover have "find_sub [13, 10] (cstr_of (drop 2 (s @ post))) = None"
  proof -
    have "13 \<notin> set (drop 2 (s @ post))" using assms(4) z(4) by (auto dest: in_set_dropD)
    then have "13 \<notin> set (cstr_of (drop 2 (s @ post)))"
      by (auto simp: cstr_of_def dest: set_takeWhileD)
    then show ?thesis by (rule find_sub_no_cr)
  qed
  ultimately have 2: "strstr (data @ post) (length ?P + 16) [13, 10] = Some None"
    unfolding strstr_def d by simp
  have pc: "parse_content_length ?skip (data @ post) (t_firm ?init) = None"
    using 1 2 by (simp add: parse_content_length_def ota_task_init_def esp_ota_firm_init_def)
  have ne: "data \<noteq> []" "data ! 0 \<noteq> 0"
    using nz assms(5) by (auto simp: lit_def nth_append in_set_conv_nth)
  have "parse_http_lines ?skip (data @ post) (length data) 0 (t_firm ?init) = None"
    using pc ne by (subst parse_http_lines.simps) (simp add: load8_def nth_append)
  then have "esp_ota_firm_parse_msg (Some address) (t_firm ?init) (data @ post) (length data) = None"
    unfolding esp_ota_firm_parse_msg_def by (subst parse_msg_from.simps)
      (simp add: esp_ota_firm_do_parse_msg_def esp_ota_firm_parse_http_def ota_task_init_def esp_ota_firm_init_def)
  moreover have "length data \<le> TEXT_BUFFSIZE" "length (t_text ?init) = BUFFSIZE + 1"
    using assms(6) by (simp_all add: TEXT_BUFFSIZE_def ota_task_init_def)
  ultimately show ?thesis by (simp add: receive_loop_Received post)
qed

theorem ota_cut_length_line_witness:
  "receive_loop (Some 0x10000) (\<lambda>a b. True) [Received (lit ''Content-Length: 12'')] (ota_task_init 2 0x11) = None"
  by (rule ota_cut_length_line [of "[]" "lit '': 12''"]) (simp_all add: lit_def of_char_def)

end
