(* ===== verification/Espnow_Checksum.thy ===== *)
theory Espnow_Checksum
  imports Mdns_Prelude
begin

text \<open>
  The checksum \<^verbatim>\<open>crc16_le\<close> of the SDK, which the ESP-NOW example uses: the table and the loop of the code, and the
  proof that they compute the cyclic redundancy check bit by bit, with the polynomial
  x^16 + x^12 + x^5 + 1 in reversed order.
\<close>

section \<open>The checksum\<close>

definition crc16_le_table :: "u16 list" where
  "crc16_le_table = [
    0x0000, 0x1189, 0x2312, 0x329b, 0x4624, 0x57ad, 0x6536, 0x74bf, 0x8c48, 0x9dc1, 0xaf5a, 0xbed3,
    0xca6c, 0xdbe5, 0xe97e, 0xf8f7, 0x1081, 0x0108, 0x3393, 0x221a, 0x56a5, 0x472c, 0x75b7, 0x643e,
    0x9cc9, 0x8d40, 0xbfdb, 0xae52, 0xdaed, 0xcb64, 0xf9ff, 0xe876, 0x2102, 0x308b, 0x0210, 0x1399,
    0x6726, 0x76af, 0x4434, 0x55bd, 0xad4a, 0xbcc3, 0x8e58, 0x9fd1, 0xeb6e, 0xfae7, 0xc87c, 0xd9f5,
    0x3183, 0x200a, 0x1291, 0x0318, 0x77a7, 0x662e, 0x54b5, 0x453c, 0xbdcb, 0xac42, 0x9ed9, 0x8f50,
    0xfbef, 0xea66, 0xd8fd, 0xc974, 0x4204, 0x538d, 0x6116, 0x709f, 0x0420, 0x15a9, 0x2732, 0x36bb,
    0xce4c, 0xdfc5, 0xed5e, 0xfcd7, 0x8868, 0x99e1, 0xab7a, 0xbaf3, 0x5285, 0x430c, 0x7197, 0x601e,
    0x14a1, 0x0528, 0x37b3, 0x263a, 0xdecd, 0xcf44, 0xfddf, 0xec56, 0x98e9, 0x8960, 0xbbfb, 0xaa72,
    0x6306, 0x728f, 0x4014, 0x519d, 0x2522, 0x34ab, 0x0630, 0x17b9, 0xef4e, 0xfec7, 0xcc5c, 0xddd5,
    0xa96a, 0xb8e3, 0x8a78, 0x9bf1, 0x7387, 0x620e, 0x5095, 0x411c, 0x35a3, 0x242a, 0x16b1, 0x0738,
    0xffcf, 0xee46, 0xdcdd, 0xcd54, 0xb9eb, 0xa862, 0x9af9, 0x8b70, 0x8408, 0x9581, 0xa71a, 0xb693,
    0xc22c, 0xd3a5, 0xe13e, 0xf0b7, 0x0840, 0x19c9, 0x2b52, 0x3adb, 0x4e64, 0x5fed, 0x6d76, 0x7cff,
    0x9489, 0x8500, 0xb79b, 0xa612, 0xd2ad, 0xc324, 0xf1bf, 0xe036, 0x18c1, 0x0948, 0x3bd3, 0x2a5a,
    0x5ee5, 0x4f6c, 0x7df7, 0x6c7e, 0xa50a, 0xb483, 0x8618, 0x9791, 0xe32e, 0xf2a7, 0xc03c, 0xd1b5,
    0x2942, 0x38cb, 0x0a50, 0x1bd9, 0x6f66, 0x7eef, 0x4c74, 0x5dfd, 0xb58b, 0xa402, 0x9699, 0x8710,
    0xf3af, 0xe226, 0xd0bd, 0xc134, 0x39c3, 0x284a, 0x1ad1, 0x0b58, 0x7fe7, 0x6e6e, 0x5cf5, 0x4d7c,
    0xc60c, 0xd785, 0xe51e, 0xf497, 0x8028, 0x91a1, 0xa33a, 0xb2b3, 0x4a44, 0x5bcd, 0x6956, 0x78df,
    0x0c60, 0x1de9, 0x2f72, 0x3efb, 0xd68d, 0xc704, 0xf59f, 0xe416, 0x90a9, 0x8120, 0xb3bb, 0xa232,
    0x5ac5, 0x4b4c, 0x79d7, 0x685e, 0x1ce1, 0x0d68, 0x3ff3, 0x2e7a, 0xe70e, 0xf687, 0xc41c, 0xd595,
    0xa12a, 0xb0a3, 0x8238, 0x93b1, 0x6b46, 0x7acf, 0x4854, 0x59dd, 0x2d62, 0x3ceb, 0x0e70, 0x1ff9,
    0xf78f, 0xe606, 0xd49d, 0xc514, 0xb1ab, 0xa022, 0x92b9, 0x8330, 0x7bc7, 0x6a4e, 0x58d5, 0x495c,
    0x3de3, 0x2c6a, 0x1ef1, 0x0f78]"

text \<open>The loop over the bytes, with the checksum inverted before and after.\<close>

fun crc16_le_loop :: "u16 \<Rightarrow> u8 list \<Rightarrow> u16" where
  "crc16_le_loop crc [] = crc"
| "crc16_le_loop crc (b # bs) =
     crc16_le_loop (crc16_le_table ! unat ((crc XOR ucast b) AND 0xFF) XOR drop_bit 8 crc) bs"

definition crc16_le :: "u16 \<Rightarrow> u8 list \<Rightarrow> u16" where
  "crc16_le crc buf = NOT (crc16_le_loop (NOT crc) buf)"

text \<open>The same checksum bit by bit: one bit of the division by the polynomial.\<close>

definition crc_bit :: "u16 \<Rightarrow> u16" where
  "crc_bit s = (if bit s 0 then drop_bit 1 s XOR 0x8408 else drop_bit 1 s)"

definition crc_byte :: "u16 \<Rightarrow> u16" where
  "crc_byte s = crc_bit (crc_bit (crc_bit (crc_bit (crc_bit (crc_bit (crc_bit (crc_bit s)))))))"

lemma all_bytes: "map of_nat [0..<256] = [
    0x00, 0x01, 0x02, 0x03, 0x04, 0x05, 0x06, 0x07, 0x08, 0x09, 0x0a, 0x0b, 0x0c, 0x0d, 0x0e, 0x0f,
    0x10, 0x11, 0x12, 0x13, 0x14, 0x15, 0x16, 0x17, 0x18, 0x19, 0x1a, 0x1b, 0x1c, 0x1d, 0x1e, 0x1f,
    0x20, 0x21, 0x22, 0x23, 0x24, 0x25, 0x26, 0x27, 0x28, 0x29, 0x2a, 0x2b, 0x2c, 0x2d, 0x2e, 0x2f,
    0x30, 0x31, 0x32, 0x33, 0x34, 0x35, 0x36, 0x37, 0x38, 0x39, 0x3a, 0x3b, 0x3c, 0x3d, 0x3e, 0x3f,
    0x40, 0x41, 0x42, 0x43, 0x44, 0x45, 0x46, 0x47, 0x48, 0x49, 0x4a, 0x4b, 0x4c, 0x4d, 0x4e, 0x4f,
    0x50, 0x51, 0x52, 0x53, 0x54, 0x55, 0x56, 0x57, 0x58, 0x59, 0x5a, 0x5b, 0x5c, 0x5d, 0x5e, 0x5f,
    0x60, 0x61, 0x62, 0x63, 0x64, 0x65, 0x66, 0x67, 0x68, 0x69, 0x6a, 0x6b, 0x6c, 0x6d, 0x6e, 0x6f,
    0x70, 0x71, 0x72, 0x73, 0x74, 0x75, 0x76, 0x77, 0x78, 0x79, 0x7a, 0x7b, 0x7c, 0x7d, 0x7e, 0x7f,
    0x80, 0x81, 0x82, 0x83, 0x84, 0x85, 0x86, 0x87, 0x88, 0x89, 0x8a, 0x8b, 0x8c, 0x8d, 0x8e, 0x8f,
    0x90, 0x91, 0x92, 0x93, 0x94, 0x95, 0x96, 0x97, 0x98, 0x99, 0x9a, 0x9b, 0x9c, 0x9d, 0x9e, 0x9f,
    0xa0, 0xa1, 0xa2, 0xa3, 0xa4, 0xa5, 0xa6, 0xa7, 0xa8, 0xa9, 0xaa, 0xab, 0xac, 0xad, 0xae, 0xaf,
    0xb0, 0xb1, 0xb2, 0xb3, 0xb4, 0xb5, 0xb6, 0xb7, 0xb8, 0xb9, 0xba, 0xbb, 0xbc, 0xbd, 0xbe, 0xbf,
    0xc0, 0xc1, 0xc2, 0xc3, 0xc4, 0xc5, 0xc6, 0xc7, 0xc8, 0xc9, 0xca, 0xcb, 0xcc, 0xcd, 0xce, 0xcf,
    0xd0, 0xd1, 0xd2, 0xd3, 0xd4, 0xd5, 0xd6, 0xd7, 0xd8, 0xd9, 0xda, 0xdb, 0xdc, 0xdd, 0xde, 0xdf,
    0xe0, 0xe1, 0xe2, 0xe3, 0xe4, 0xe5, 0xe6, 0xe7, 0xe8, 0xe9, 0xea, 0xeb, 0xec, 0xed, 0xee, 0xef,
    0xf0, 0xf1, 0xf2, 0xf3, 0xf4, 0xf5, 0xf6, 0xf7, 0xf8, 0xf9, 0xfa, 0xfb, 0xfc, 0xfd, 0xfe, 0xff :: u16]"
  by (simp add: upt_rec)

lemma crc16_le_table_entries: "crc16_le_table = map crc_byte (map of_nat [0..<256])"
  unfolding all_bytes crc16_le_table_def by (simp add: crc_byte_def crc_bit_def)


lemma xor_cancel:
  fixes a b c :: "'a::len word"
  shows "a XOR c = b XOR c \<longleftrightarrow> a = b" "c XOR a = c XOR b \<longleftrightarrow> a = b"
proof -
  have r: "(x XOR c) XOR c = x" for x by (simp add: xor.assoc)
  then show "a XOR c = b XOR c \<longleftrightarrow> a = b" by (metis r)
  then show "c XOR a = c XOR b \<longleftrightarrow> a = b" by (simp add: xor.commute)
qed

lemma crc_bit_xor: "crc_bit (x XOR y) = crc_bit x XOR crc_bit y"
  by (simp add: crc_bit_def drop_bit_xor bit_xor_iff ac_simps)

lemma crc_byte_xor: "crc_byte (x XOR y) = crc_byte x XOR crc_byte y"
  by (simp add: crc_byte_def crc_bit_xor)

lemma crc_byte_high: "crc_byte (push_bit 8 (drop_bit 8 s)) = drop_bit 8 s"
proof -
  define t where "t = push_bit 8 (drop_bit 8 s)"
  have "crc_bit (drop_bit k t) = drop_bit (Suc k) t" if "k < 8" for k
    using that by (simp add: crc_bit_def t_def bit_simps drop_bit_drop_bit)
  from this [of 0] this [of 1] this [of 2] this [of 3] this [of 4] this [of 5] this [of 6] this [of 7]
  have "crc_byte t = drop_bit 8 t" by (simp add: crc_byte_def numeral_eq_Suc)
  also have "\<dots> = drop_bit 8 s"
    by (rule bit_word_eqI) (auto simp: t_def bit_simps dest: bit_imp_le_length)
  finally show ?thesis by (simp add: t_def)
qed

lemma crc_table_step:
  "crc16_le_table ! unat ((crc XOR ucast (b :: u8)) AND 0xFF) XOR drop_bit 8 crc = crc_byte (crc XOR ucast b)"
proof -
  define s where "s = crc XOR ucast b"
  have m: "s AND 0xFF = take_bit 8 s" by (simp add: take_bit_eq_mask mask_eq_exp_minus_1)
  then have l: "unat (s AND 0xFF) < 256"
    using take_bit_nat_less_exp [of 8 "unat s"] by (simp add: unsigned_take_bit_eq)
  have split: "s = (s AND 0xFF) XOR push_bit 8 (drop_bit 8 s)"
    unfolding m by (rule bit_word_eqI) (auto simp: bit_simps)
  have "crc16_le_table ! unat (s AND 0xFF) = crc_byte (s AND 0xFF)"
    using l by (simp add: crc16_le_table_entries)
  moreover have "drop_bit 8 crc = drop_bit 8 s"
    by (rule bit_word_eqI) (auto simp: s_def bit_simps dest: bit_imp_le_length)
  ultimately show ?thesis
    using crc_byte_xor [of "s AND 0xFF" "push_bit 8 (drop_bit 8 s)"]
    unfolding s_def [symmetric] split [symmetric] by (simp add: crc_byte_high)
qed

text \<open>C34: The checksum with its table of 256 entries equals the division by the polynomial bit by bit.\<close>

theorem crc16_le_bitwise:
  "crc16_le crc buf = NOT (foldl (\<lambda>s b. crc_byte (s XOR ucast b)) (NOT crc) buf)"
proof -
  have "crc16_le_loop s buf = foldl (\<lambda>s b. crc_byte (s XOR ucast b)) s buf" for s
    by (induction buf arbitrary: s) (simp_all add: crc_table_step)
  then show ?thesis by (simp add: crc16_le_def)
qed

lemma inj_crc_bit: "inj crc_bit"
proof (rule injI)
  fix x y assume e: "crc_bit x = crc_bit y"
  have h: "bit (crc_bit z) 15 = bit z 0" for z
    by (auto simp: crc_bit_def bit_simps dest: bit_imp_le_length)
  have b: "bit x 0 = bit y 0" using h [of x] h [of y] e by simp
  then have d: "drop_bit 1 x = drop_bit 1 y"
    using e by (auto simp: crc_bit_def xor_cancel split: if_splits)
  show "x = y"
  proof (rule bit_word_eqI)
    fix n :: nat assume "n < LENGTH(16)"
    show "bit x n = bit y n"
    proof (cases n)
      case (Suc k)
      then show ?thesis using arg_cong [OF d, of "\<lambda>z. bit z k"] by (simp add: bit_simps)
    qed (use b in simp)
  qed
qed

lemma crc_byte_eq_iff: "crc_byte x = crc_byte y \<longleftrightarrow> x = y"
  by (simp add: crc_byte_def inj_eq [OF inj_crc_bit])

lemma crc_fold_eq_iff:
  "foldl (\<lambda>s b. crc_byte (s XOR ucast b)) s buf = foldl (\<lambda>s b. crc_byte (s XOR ucast b)) t buf \<longleftrightarrow> s = t"
proof (induction buf arbitrary: s t)
  case (Cons b buf)
  have "s XOR ucast b = t XOR ucast b \<longleftrightarrow> s = t"
    by (rule xor_cancel)
  then show ?case using Cons by (simp add: crc_byte_eq_iff)
qed simp

text \<open>A changed byte changes the checksum.\<close>

lemma crc16_le_update:
  assumes "i < length buf" "v \<noteq> buf ! i"
  shows "crc16_le crc (buf[i := v]) \<noteq> crc16_le crc buf"
proof -
  let ?f = "\<lambda>s b. crc_byte (s XOR ucast (b :: u8))"
  let ?s = "foldl ?f (NOT crc) (take i buf)"
  have "(ucast (ucast x :: u16) :: u8) = x" for x
    by (rule bit_word_eqI) (auto simp: bit_simps)
  then have "(ucast v :: u16) \<noteq> ucast (buf ! i)"
    using assms(2) by metis
  then have "?s XOR ucast v \<noteq> ?s XOR ucast (buf ! i)"
    by (simp add: xor_cancel)
  moreover have "crc16_le crc (buf[i := v]) = NOT (foldl ?f (?f ?s v) (drop (Suc i) buf))"
    using assms(1) by (simp add: crc16_le_bitwise upd_conv_take_nth_drop)
  moreover have "crc16_le crc buf = NOT (foldl ?f (?f ?s (buf ! i)) (drop (Suc i) buf))"
    unfolding crc16_le_bitwise by (subst id_take_nth_drop [OF assms(1)]) simp
  ultimately show ?thesis by (simp add: crc_fold_eq_iff crc_byte_eq_iff)
qed

section \<open>What users of a checksum rely on\<close>

text \<open>A checksum that no change of a single byte leaves as it was.\<close>

locale checksum =
  fixes sum :: "u16 \<Rightarrow> u8 list \<Rightarrow> u16"
  assumes sum_update: "i < length buf \<Longrightarrow> v \<noteq> buf ! i \<Longrightarrow> sum c (buf[i := v]) \<noteq> sum c buf"

interpretation crc: checksum crc16_le
  by unfold_locales (rule crc16_le_update)

end
