(* ===== verification/Espnow_Device.thy ===== *)
theory Espnow_Device
  imports Espnow_Checksum
begin

text \<open>
  The ESP-NOW example, \<^verbatim>\<open>espnow_example_main.c\<close> of \<^verbatim>\<open>examples/wifi/espnow\<close>: the packets, and the task that
  handles the events of sending and receiving. The answers of the SDK are the fields of \<open>espnow_answers\<close>;
  a failed \<^verbatim>\<open>assert\<close> or \<^verbatim>\<open>ESP_ERROR_CHECK\<close> is \<open>None\<close> like undefined behaviour.
\<close>

section \<open>Packets\<close>

definition EXAMPLE_ESPNOW_DATA_BROADCAST :: int where "EXAMPLE_ESPNOW_DATA_BROADCAST = 0"
definition EXAMPLE_ESPNOW_DATA_UNICAST :: int where "EXAMPLE_ESPNOW_DATA_UNICAST = 1"

type_synonym mac = "u8 list"

definition example_broadcast_mac :: mac where
  "example_broadcast_mac = replicate 6 0xFF"

definition IS_BROADCAST_ADDR :: "mac \<Rightarrow> bool" where
  "IS_BROADCAST_ADDR addr \<longleftrightarrow> addr = example_broadcast_mac"

text \<open>The fields of \<open>example_espnow_data_t\<close>, which is packed: type, state, sequence number, checksum and
  magic number at the offsets 0, 1, 2, 4 and 6, the numbers with the low byte first, ten bytes
  together.\<close>

definition le16 :: "u16 \<Rightarrow> u8 list" where
  "le16 v = [ucast v, ucast (drop_bit 8 v)]"

definition le32 :: "u32 \<Rightarrow> u8 list" where
  "le32 v = [ucast v, ucast (drop_bit 8 v), ucast (drop_bit 16 v), ucast (drop_bit 24 v)]"

definition get16 :: "u8 list \<Rightarrow> nat \<Rightarrow> u16 option" where
  "get16 p i = do {
     b \<leftarrow> load_block p i 2;
     Some (push_bit 8 (ucast (b ! 1)) OR ucast (b ! 0))
   }"

definition get32 :: "u8 list \<Rightarrow> nat \<Rightarrow> u32 option" where
  "get32 p i = do {
     b \<leftarrow> load_block p i 4;
     Some (push_bit 24 (ucast (b ! 3)) OR push_bit 16 (ucast (b ! 2)) OR push_bit 8 (ucast (b ! 1)) OR ucast (b ! 0))
   }"

record espnow_recv =
  recv_state :: u8
  recv_seq :: u16
  recv_magic :: u32

text \<open>The result is the type of the packet or -1; the fields are stored unless the packet is too
  short.\<close>

definition example_espnow_data_parse :: "u8 list \<Rightarrow> u16 \<Rightarrow> (int \<times> espnow_recv option) option" where
  "example_espnow_data_parse data data_len =
     (if unat data_len < 10 then Some (- 1, None)
      else do {
        state \<leftarrow> load8 data 1;
        seq \<leftarrow> get16 data 2;
        magic \<leftarrow> get32 data 6;
        crc \<leftarrow> get16 data 4;
        buf \<leftarrow> store_block data 4 (le16 0);
        block \<leftarrow> load_block buf 0 (unat data_len);
        type \<leftarrow> load8 buf 0;
        Some (if crc16_le 0xFFFF block = crc then uint type else - 1,
              Some \<lparr>recv_state = state, recv_seq = seq, recv_magic = magic\<rparr>)
      })"

section \<open>The device\<close>

record espnow_param =
  p_unicast :: bool
  p_broadcast :: bool
  p_state :: u8
  p_magic :: u32
  p_count :: u16
  p_delay :: u16
  p_len :: nat
  p_buffer :: "u8 list"
  p_dest_mac :: mac

text \<open>The state of a device: \<open>send_param\<close>, the sequence numbers, the random numbers to come, the table of
  peers, and the packets handed to \<open>esp_now_send\<close> with their destinations.\<close>

record espnow =
  send_param :: espnow_param
  espnow_seq :: "u16 list"
  random :: "nat \<Rightarrow> u32"
  peers :: "mac list"
  sent :: "(mac \<times> u8 list) list"

definition esp_random :: "espnow \<Rightarrow> u32 \<times> espnow" where
  "esp_random w = (random w 0, w\<lparr>random := \<lambda>n. random w (Suc n)\<rparr>)"

text \<open>The loop that fills the payload with the low bytes of random numbers.\<close>

fun random_payload :: "nat \<Rightarrow> espnow \<Rightarrow> u8 list \<times> espnow" where
  "random_payload 0 w = ([], w)"
| "random_payload (Suc n) w =
     (let (r, w1) = esp_random w; (bs, w2) = random_payload n w1 in (ucast r # bs, w2))"

definition example_espnow_data_prepare :: "espnow \<Rightarrow> espnow option" where
  "example_espnow_data_prepare w =
     (let p = send_param w;
          type = (if IS_BROADCAST_ADDR (p_dest_mac p) then 0 else 1);
          seq = espnow_seq w ! type
      in if p_len p < 10 then None
      else let w1 = w\<lparr>espnow_seq := (espnow_seq w)[type := seq + 1]\<rparr>;
               (payload, w2) = random_payload (p_len p - 10) w1
      in do {
        b1 \<leftarrow> store_block (p_buffer p) 0 ([of_nat type, p_state p] @ le16 seq @ le16 0 @ le32 (p_magic p) @ payload);
        block \<leftarrow> load_block b1 0 (p_len p);
        b2 \<leftarrow> store_block b1 4 (le16 (crc16_le 0xFFFF block));
        Some (w2\<lparr>send_param := p\<lparr>p_buffer := b2\<rparr>\<rparr>)
      })"

text \<open>\<open>esp_now_send\<close> gets the first \<open>len\<close> bytes of the buffer.\<close>

definition esp_now_send :: "bool \<Rightarrow> espnow \<Rightarrow> espnow option" where
  "esp_now_send ok w = do {
     block \<leftarrow> load_block (p_buffer (send_param w)) 0 (p_len (send_param w));
     Some (if ok then w\<lparr>sent := sent w @ [(p_dest_mac (send_param w), block)]\<rparr> else w)
   }"

record espnow_answers =
  a_send :: bool
  a_malloc :: bool
  a_add_peer :: bool

text \<open>\<open>Deleted\<close>: the memory of the task has been freed and the task has ended.\<close>

datatype espnow_task = Running espnow | Deleted espnow

definition send_or_delete :: "espnow_answers \<Rightarrow> espnow \<Rightarrow> (espnow \<Rightarrow> espnow) \<Rightarrow> espnow_task option" where
  "send_or_delete a w after = do {
     w1 \<leftarrow> esp_now_send (a_send a) w;
     Some (if a_send a then Running (after w1) else Deleted w1)
   }"

definition set_dest :: "mac \<Rightarrow> espnow \<Rightarrow> espnow" where
  "set_dest mac w = w\<lparr>send_param := (send_param w)\<lparr>p_dest_mac := mac\<rparr>\<rparr>"

text \<open>The events of the queue and what the task does with them.\<close>

datatype espnow_event = SEND_CB mac bool | RECV_CB mac "u8 list" int

definition handle_send_cb :: "espnow_answers \<Rightarrow> espnow \<Rightarrow> mac \<Rightarrow> espnow_task option" where
  "handle_send_cb a w mac =
     (let is_broadcast = IS_BROADCAST_ADDR mac; p = send_param w in
      if is_broadcast \<and> \<not> p_broadcast p then Some (Running w)
      else let w1 = (if is_broadcast then w else w\<lparr>send_param := p\<lparr>p_count := p_count p - 1\<rparr>\<rparr>) in
        if \<not> is_broadcast \<and> p_count (send_param w1) = 0 then Some (Deleted w1)
        else do {
          w2 \<leftarrow> example_espnow_data_prepare (set_dest mac w1);
          send_or_delete a w2 id
        })"

definition add_peer :: "espnow_answers \<Rightarrow> espnow \<Rightarrow> mac \<Rightarrow> espnow_task option" where
  "add_peer a w mac =
     (if mac \<in> set (peers w) then Some (Running w)
      else if \<not> a_malloc a then Some (Deleted w)
      else if \<not> a_add_peer a then None
      else Some (Running (w\<lparr>peers := peers w @ [mac]\<rparr>)))"

definition handle_recv_cb :: "espnow_answers \<Rightarrow> espnow \<Rightarrow> mac \<Rightarrow> u8 list \<Rightarrow> int \<Rightarrow> espnow_task option" where
  "handle_recv_cb a w mac data data_len = do {
     (ret, recv) \<leftarrow> example_espnow_data_parse data (of_int data_len);
     if ret = EXAMPLE_ESPNOW_DATA_BROADCAST then do {
       r \<leftarrow> recv;
       t \<leftarrow> add_peer a w mac;
       case t of
         Deleted w1 \<Rightarrow> Some (Deleted w1)
       | Running w1 \<Rightarrow>
           let p = send_param w1;
               w2 = (if p_state p = 0 then w1\<lparr>send_param := p\<lparr>p_state := 1\<rparr>\<rparr> else w1)
           in if recv_state r = 1 \<and> \<not> p_unicast (send_param w2) \<and> p_magic (send_param w2) \<ge> recv_magic r
              then do {
                w3 \<leftarrow> example_espnow_data_prepare (set_dest mac w2);
                send_or_delete a w3
                  (\<lambda>w. w\<lparr>send_param := (send_param w)\<lparr>p_broadcast := False, p_unicast := True\<rparr>\<rparr>)
              }
              else Some (Running w2)
     }
     else if ret = EXAMPLE_ESPNOW_DATA_UNICAST
     then Some (Running (w\<lparr>send_param := (send_param w)\<lparr>p_broadcast := False\<rparr>\<rparr>))
     else Some (Running w)
   }"

definition handle_event :: "espnow_answers \<Rightarrow> espnow \<Rightarrow> espnow_event \<Rightarrow> espnow_task option" where
  "handle_event a w evt = (case evt of
     SEND_CB mac status \<Rightarrow> handle_send_cb a w mac
   | RECV_CB mac data data_len \<Rightarrow> handle_recv_cb a w mac data data_len)"

text \<open>The task: the first packet, and then one event after the other.\<close>

fun espnow_loop :: "espnow \<Rightarrow> (espnow_answers \<times> espnow_event) list \<Rightarrow> espnow_task option" where
  "espnow_loop w [] = Some (Running w)"
| "espnow_loop w ((a, evt) # evts) = do {
     t \<leftarrow> handle_event a w evt;
     case t of Deleted w1 \<Rightarrow> Some (Deleted w1) | Running w1 \<Rightarrow> espnow_loop w1 evts
   }"

definition example_espnow_task ::
  "bool \<Rightarrow> espnow \<Rightarrow> (espnow_answers \<times> espnow_event) list \<Rightarrow> espnow_task option" where
  "example_espnow_task first_send_ok w evts = do {
     w1 \<leftarrow> esp_now_send first_send_ok w;
     if first_send_ok then espnow_loop w1 evts else Some (Deleted w1)
   }"

text \<open>The callbacks of the Wi-Fi task: the event they put into the queue, if any; they wait until the queue has
  room. A null pointer is \<open>None\<close>; \<open>malloc_ok\<close> says whether the copy of the data could be allocated.\<close>

definition example_espnow_send_cb :: "mac option \<Rightarrow> bool \<Rightarrow> espnow_event option" where
  "example_espnow_send_cb mac_addr status = map_option (\<lambda>mac. SEND_CB mac status) mac_addr"

definition example_espnow_recv_cb ::
  "bool \<Rightarrow> mac option \<Rightarrow> u8 list option \<Rightarrow> int \<Rightarrow> espnow_event option option" where
  "example_espnow_recv_cb malloc_ok mac_addr data len = (case (mac_addr, data) of
     (Some mac, Some d) \<Rightarrow>
       if len \<le> 0 then Some None
       else if \<not> malloc_ok then Some None
       else do {
         copy \<leftarrow> load_block d 0 (nat len);
         Some (Some (RECV_CB mac copy len))
       }
   | _ \<Rightarrow> Some None)"

text \<open>The configuration of the project, and the start. The fields of the answers are the results of the calls
  in their order: the queue, the calls of the SDK that end the program on failure, and the three
  allocations. The second allocation is used before it is tested.\<close>

record espnow_config =
  ESPNOW_SEND_COUNT :: u16
  ESPNOW_SEND_DELAY :: u16
  ESPNOW_SEND_LEN :: nat

record espnow_init_answers =
  i_queue :: bool
  i_sdk :: bool
  i_peer :: bool
  i_add_peer :: bool
  i_param :: bool
  i_buffer :: bool

definition example_espnow_init ::
  "espnow_config \<Rightarrow> espnow_init_answers \<Rightarrow> u8 list \<Rightarrow> (nat \<Rightarrow> u32) \<Rightarrow> espnow option option" where
  "example_espnow_init cfg a junk rnd =
     (if \<not> i_queue a then Some None
      else if \<not> i_sdk a then None
      else if \<not> i_peer a then Some None
      else if \<not> i_add_peer a then None
      else if \<not> i_param a then None
      else if \<not> i_buffer a then Some None
      else map_option Some (example_espnow_data_prepare
        \<lparr>send_param = \<lparr>p_unicast = False, p_broadcast = True, p_state = 0, p_magic = rnd 0,
           p_count = ESPNOW_SEND_COUNT cfg, p_delay = ESPNOW_SEND_DELAY cfg, p_len = ESPNOW_SEND_LEN cfg,
           p_buffer = take (ESPNOW_SEND_LEN cfg) (junk @ replicate (ESPNOW_SEND_LEN cfg) 0),
           p_dest_mac = example_broadcast_mac\<rparr>,
         espnow_seq = [0, 0], random = (\<lambda>n. rnd (Suc n)), peers = [example_broadcast_mac], sent = []\<rparr>))"

section \<open>Packets that are sent are understood\<close>

lemma get16_le16: "length pre = i \<Longrightarrow> get16 (pre @ le16 v @ post) i = Some v"
  by (simp add: get16_def load_block_def le16_def)

lemma get32_le32: "length pre = i \<Longrightarrow> get32 (pre @ le32 v @ post) i = Some v"
  by (simp add: get32_def load_block_def le32_def)

lemma length_le [simp]: "length (le16 v) = 2" "length (le32 u) = 4"
  by (simp_all add: le16_def le32_def)

text \<open>A packet with given fields; the checksum is that of the packet with a zero checksum.\<close>

definition espnow_packet :: "u8 \<Rightarrow> u8 \<Rightarrow> u16 \<Rightarrow> u32 \<Rightarrow> u8 list \<Rightarrow> u8 list" where
  "espnow_packet type state seq magic payload =
     [type, state] @ le16 seq @
     le16 (crc16_le 0xFFFF ([type, state] @ le16 seq @ le16 0 @ le32 magic @ payload)) @ le32 magic @ payload"

lemma length_packet [simp]: "length (espnow_packet t s q m p) = 10 + length p"
  by (simp add: espnow_packet_def)

lemma parse_packet:
  assumes "length p < 65526"
  shows "example_espnow_data_parse (espnow_packet t s q m p) (of_nat (10 + length p)) =
    Some (uint t, Some \<lparr>recv_state = s, recv_seq = q, recv_magic = m\<rparr>)"
proof -
  let ?b = "espnow_packet t s q m p"
  define crc where "crc = crc16_le 0xFFFF ([t, s] @ le16 q @ le16 0 @ le32 m @ p)"
  have b: "?b = [t, s] @ le16 q @ le16 crc @ le32 m @ p"
    by (simp add: espnow_packet_def crc_def)
  have l: "unat (of_nat (10 + length p) :: u16) = 10 + length p"
    using assms by (simp only: unat_of_nat) simp
  have 1: "get16 ?b 2 = Some q" "get16 ?b 4 = Some crc" "get32 ?b 6 = Some m"
    unfolding b using get16_le16 [of "[t, s]" 2 q] get16_le16 [of "[t, s] @ le16 q" 4 crc]
      get32_le32 [of "[t, s] @ le16 q @ le16 crc" 6 m] by simp_all
  have 2: "load8 ?b 1 = Some s" by (simp add: b load8_def)
  have 3: "store_block ?b 4 (le16 0) = Some ([t, s] @ le16 q @ le16 0 @ le32 m @ p)"
    by (simp add: b store_block_def le16_def)
  have 4: "load_block ([t, s] @ le16 q @ le16 0 @ le32 m @ p) 0 (10 + length p) =
      Some ([t, s] @ le16 q @ le16 0 @ le32 m @ p)"
    by (simp add: load_block_def)
  show ?thesis
    unfolding example_espnow_data_parse_def l using 1 2 3 4
    by (simp add: crc_def load8_def)
qed

lemma random_payload_props:
  "random_payload n w = (bs, w1) \<Longrightarrow>
   length bs = n \<and> send_param w1 = send_param w \<and> espnow_seq w1 = espnow_seq w \<and> peers w1 = peers w \<and> sent w1 = sent w"
  by (induction n arbitrary: w bs) (auto simp: esp_random_def Let_def split: prod.splits)

text \<open>What a device must have to prepare a packet.\<close>

definition sendable :: "espnow \<Rightarrow> bool" where
  "sendable w \<longleftrightarrow> 10 \<le> p_len (send_param w) \<and> p_len (send_param w) < 65536 \<and>
     length (p_buffer (send_param w)) = p_len (send_param w) \<and> length (espnow_seq w) = 2"

definition packet_type :: "mac \<Rightarrow> nat" where
  "packet_type mac = (if IS_BROADCAST_ADDR mac then 0 else 1)"

lemma prepare_packet:
  assumes "sendable w"
  shows "\<exists>w1 payload. let p = send_param w; t = packet_type (p_dest_mac p); seq = espnow_seq w ! t;
      packet = espnow_packet (of_nat t) (p_state p) seq (p_magic p) payload
    in example_espnow_data_prepare w = Some w1 \<and> length payload = p_len p - 10 \<and>
      send_param w1 = p\<lparr>p_buffer := packet\<rparr> \<and> espnow_seq w1 = (espnow_seq w)[t := seq + 1] \<and>
      peers w1 = peers w \<and> sent w1 = sent w \<and> sendable w1"
proof -
  let ?p = "send_param w" and ?t = "packet_type (p_dest_mac (send_param w))"
  let ?seq = "espnow_seq w ! ?t"
  let ?w1 = "w\<lparr>espnow_seq := (espnow_seq w)[?t := ?seq + 1]\<rparr>"
  obtain payload w2 where r: "random_payload (p_len ?p - 10) ?w1 = (payload, w2)"
    by (cases "random_payload (p_len ?p - 10) ?w1")
  note r2 = random_payload_props [OF r]
  let ?zero = "[of_nat ?t, p_state ?p] @ le16 ?seq @ le16 0 @ le32 (p_magic ?p) @ payload"
  let ?crc = "crc16_le 0xFFFF ?zero"
  have len: "length (p_buffer ?p) = p_len ?p" "10 \<le> p_len ?p" "length payload = p_len ?p - 10"
    using assms r2 by (auto simp: sendable_def)
  have b1: "store_block (p_buffer ?p) 0 ?zero = Some ?zero" "load_block ?zero 0 (p_len ?p) = Some ?zero"
    using len by (simp_all add: store_block_def load_block_def)
  have b2: "store_block ?zero 4 (le16 ?crc) = Some (espnow_packet (of_nat ?t) (p_state ?p) ?seq (p_magic ?p) payload)"
    using len by (simp add: store_block_def espnow_packet_def le16_def)
  have "example_espnow_data_prepare w = Some (w2\<lparr>send_param := ?p\<lparr>p_buffer :=
      espnow_packet (of_nat ?t) (p_state ?p) ?seq (p_magic ?p) payload\<rparr>\<rparr>)"
    using len b1 b2 r unfolding example_espnow_data_prepare_def Let_def packet_type_def [symmetric] by simp
  then show ?thesis
    using r2 len assms unfolding Let_def
    by (intro exI [of _ "w2\<lparr>send_param := ?p\<lparr>p_buffer :=
          espnow_packet (of_nat ?t) (p_state ?p) ?seq (p_magic ?p) payload\<rparr>\<rparr>"] exI [of _ payload])
      (auto simp: sendable_def)
qed

text \<open>C26: A packet prepared by one device is understood by every other: the parser accepts it and gives back its
  type, the state, the sequence number and the magic number of the sender.\<close>

theorem espnow_round_trip:
  assumes "sendable w"
  shows "\<exists>w1. example_espnow_data_prepare w = Some w1 \<and>
    example_espnow_data_parse (p_buffer (send_param w1)) (of_nat (p_len (send_param w1))) =
      Some (if IS_BROADCAST_ADDR (p_dest_mac (send_param w)) then EXAMPLE_ESPNOW_DATA_BROADCAST
            else EXAMPLE_ESPNOW_DATA_UNICAST,
        Some \<lparr>recv_state = p_state (send_param w),
              recv_seq = espnow_seq w ! packet_type (p_dest_mac (send_param w)),
              recv_magic = p_magic (send_param w)\<rparr>)"
proof -
  let ?p = "send_param w" and ?t = "packet_type (p_dest_mac (send_param w))"
  obtain w1 payload where w1: "example_espnow_data_prepare w = Some w1" "length payload = p_len ?p - 10"
    "send_param w1 = ?p\<lparr>p_buffer := espnow_packet (of_nat ?t) (p_state ?p) (espnow_seq w ! ?t) (p_magic ?p) payload\<rparr>"
    using prepare_packet [OF assms] by (auto simp: Let_def)
  have "p_len ?p = 10 + length payload" "length payload < 65526"
    using assms w1(2) by (auto simp: sendable_def)
  then show ?thesis
    using w1 parse_packet [of payload]
    by (auto simp: packet_type_def EXAMPLE_ESPNOW_DATA_BROADCAST_def EXAMPLE_ESPNOW_DATA_UNICAST_def)
qed

definition demo_espnow :: espnow where
  "demo_espnow = \<lparr>send_param = \<lparr>p_unicast = False, p_broadcast = True, p_state = 0, p_magic = 7, p_count = 2,
     p_delay = 0, p_len = 10, p_buffer = replicate 10 0, p_dest_mac = example_broadcast_mac\<rparr>,
     espnow_seq = [0, 0], random = (\<lambda>n. 0), peers = [example_broadcast_mac], sent = []\<rparr>"

theorem espnow_round_trip_witness:
  "\<exists>w1. example_espnow_data_prepare demo_espnow = Some w1 \<and>
    example_espnow_data_parse (p_buffer (send_param w1)) (of_nat (p_len (send_param w1))) =
      Some (0, Some \<lparr>recv_state = 0, recv_seq = 0, recv_magic = 7\<rparr>)"
  using espnow_round_trip [of demo_espnow]
  by (simp add: sendable_def demo_espnow_def IS_BROADCAST_ADDR_def packet_type_def EXAMPLE_ESPNOW_DATA_BROADCAST_def)

text \<open>The first \<open>n\<close> bytes of a packet, with a zero in place of the checksum.\<close>

definition unsealed :: "nat \<Rightarrow> u8 list \<Rightarrow> u8 list" where
  "unsealed n d = take n (take 4 d @ le16 0 @ drop 6 d)"

lemma length_unsealed: "10 \<le> n \<Longrightarrow> n \<le> length d \<Longrightarrow> length (unsealed n d) = n"
  by (simp add: unsealed_def)

lemma unsealed_nth:
  assumes "10 \<le> n" "n \<le> length d" "i < n" "i \<noteq> 4" "i \<noteq> 5"
  shows "unsealed n d ! i = d ! i"
  using assms by (auto simp: unsealed_def nth_append le16_def nth_Cons')

lemma unsealed_update:
  assumes "10 \<le> n" "n \<le> length d"
  shows "unsealed n (d[i := v]) = (if i = 4 \<or> i = 5 then unsealed n d else (unsealed n d)[i := v])"
proof -
  consider "i = 4 \<or> i = 5" | "i < 4" | "6 \<le> i" by linarith
  then show ?thesis
  proof cases
    case 2
    then show ?thesis using assms
      by (simp add: unsealed_def take_update_swap list_update_append le16_def)
  next
    case 3
    define j where "j = i - 6"
    have "i = 6 + j" "i - 4 = Suc (Suc j)" "n - 4 = Suc (Suc (n - 6))"
      using 3 assms by (auto simp: j_def)
    then show ?thesis using assms
      by (simp add: unsealed_def take_update_swap list_update_append drop_update_swap le16_def list_update_beyond)
  qed (auto simp: unsealed_def)
qed

lemma get16_update:
  assumes "i = 4 \<or> i = 5" "6 \<le> length data" "v \<noteq> data ! i"
  shows "get16 (data[i := v]) 4 \<noteq> get16 data 4"
proof -
  have nth: "take 2 (drop 4 xs) = [xs ! 4, xs ! 5]" if "6 \<le> length xs" for xs :: "u8 list"
    using that by (auto simp: list_eq_iff_nth_eq nth_Cons' less_Suc_eq numeral_2_eq_2)
  have lo: "ucast (push_bit 8 (ucast a) OR ucast b :: u16) = b" for a b :: u8
    by (rule bit_word_eqI) (auto simp: bit_simps)
  have hi: "ucast (drop_bit 8 (push_bit 8 (ucast a) OR ucast b :: u16)) = a" for a b :: u8
    by (rule bit_word_eqI) (auto simp: bit_simps dest: bit_imp_le_length)
  have inj: "(push_bit 8 (ucast a) OR ucast b :: u16) = push_bit 8 (ucast c) OR ucast d \<longleftrightarrow> a = c \<and> b = d"
    for a b c d :: u8 by (metis lo hi)
  show ?thesis
    using assms nth [of data] nth [of "data[i := v]"]
    by (auto simp: get16_def load_block_def inj)
qed

text \<open>Whatever checksum of this kind is used, a packet whose checksum is right has a wrong one after a change.\<close>

context checksum begin

lemma sealed_update:
  assumes "10 \<le> n" "n \<le> length d" "get16 d 4 = Some (sum c (unsealed n d))" "i < n" "v \<noteq> d ! i"
  shows "get16 (d[i := v]) 4 \<noteq> Some (sum c (unsealed n (d[i := v])))"
proof (cases "i = 4 \<or> i = 5")
  case True
  have "6 \<le> length d" using assms(1,2) by linarith
  then show ?thesis
    using get16_update [OF True, of d v] assms by (simp add: unsealed_update True)
next
  case False
  then have "get16 (d[i := v]) 4 = get16 d 4"
    by (auto simp: get16_def load_block_def)
  moreover have "sum c ((unsealed n d)[i := v]) \<noteq> sum c (unsealed n d)"
    using assms False by (intro sum_update) (auto simp: length_unsealed unsealed_nth)
  ultimately show ?thesis
    using assms False by (simp add: unsealed_update)
qed

end

lemma parse_Some:
  assumes "10 \<le> unat len" "unat len \<le> length data"
  shows "\<exists>r. example_espnow_data_parse data len =
    Some (if get16 data 4 = Some (crc16_le 0xFFFF (unsealed (unat len) data)) then uint (data ! 0) else - 1, Some r)"
proof -
  let ?z = "take 4 data @ le16 0 @ drop 6 data"
  have "store_block data 4 (le16 0) = Some ?z" using assms by (simp add: store_block_def)
  moreover have "length ?z = length data" "?z ! 0 = data ! 0"
    using assms by (auto simp: nth_append le16_def)
  ultimately show ?thesis
    using assms
    by (auto simp: example_espnow_data_parse_def load8_def get16_def get32_def load_block_def unsealed_def)
qed

lemma corruption_refused:
  assumes "example_espnow_data_parse data len = Some (type, r)" "type \<noteq> - 1" "i < unat len" "v \<noteq> data ! i"
  shows "\<exists>r1. example_espnow_data_parse (data[i := v]) len = Some (- 1, r1)"
proof -
  have l: "10 \<le> unat len" using assms(1,2) by (auto simp: example_espnow_data_parse_def split: if_splits)
  have d: "unat len \<le> length data"
    using assms(1) l by (auto simp: example_espnow_data_parse_def store_block_def load_block_def split: bind_splits if_splits)
  have "get16 data 4 = Some (crc16_le 0xFFFF (unsealed (unat len) data))"
    using parse_Some [OF l d] assms(1,2) by (auto split: if_splits)
  from crc.sealed_update [OF l d this assms(3,4)] show ?thesis
    using parse_Some [of len "data[i := v]"] l d by auto
qed

text \<open>C25: A packet in which one byte has been changed on its way is refused, whichever byte it is.\<close>

theorem espnow_corruption_detected:
  assumes "example_espnow_data_parse data len = Some (type, r)" "type \<noteq> - 1" "i < unat len" "v \<noteq> data ! i"
  shows "\<exists>r1. example_espnow_data_parse (data[i := v]) len = Some (- 1, r1)"
  using assms by (rule corruption_refused)

definition demo_packet :: "u8 list" where "demo_packet = espnow_packet 0 1 2 3 []"

theorem espnow_corruption_detected_witness:
  "\<exists>r1. example_espnow_data_parse (demo_packet[0 := 1]) 10 = Some (- 1, r1)"
proof -
  have "example_espnow_data_parse demo_packet 10 = Some (0, Some \<lparr>recv_state = 1, recv_seq = 2, recv_magic = 3\<rparr>)"
    using parse_packet [of "[]" 0 1 2 3] by (simp add: demo_packet_def)
  then show ?thesis
    by (rule espnow_corruption_detected) (simp_all add: demo_packet_def espnow_packet_def)
qed

end
