(* ===== verification/Espnow_Network.thy ===== *)
theory Espnow_Network
  imports Espnow_Device
begin

text \<open>
  Two devices that run the ESP-NOW example. Devices broadcast until they have heard of each other; the one
  with the larger random number then sends a fixed number of packets to the other one. The invariant of a device,
  the network as a step relation with losses and corruptions, and what holds in all its runs.
\<close>

section \<open>The invariant of a device\<close>

text \<open>A packet for a destination with the magic number of its sender.\<close>

definition packet_from :: "u32 \<Rightarrow> mac \<times> u8 list \<Rightarrow> bool" where
  "packet_from magic mb \<longleftrightarrow> length (snd mb) < 65536 \<and>
     (\<exists>r. example_espnow_data_parse (snd mb) (of_nat (length (snd mb))) =
        Some (int (packet_type (fst mb)), Some r) \<and> recv_magic r = magic)"

definition device_inv :: "u32 \<Rightarrow> espnow \<Rightarrow> bool" where
  "device_inv magic w \<longleftrightarrow> sendable w \<and> p_magic (send_param w) = magic \<and> list_all (packet_from magic) (sent w)"

fun task_state :: "espnow_task \<Rightarrow> espnow" where
  "task_state (Running w) = w"
| "task_state (Deleted w) = w"

lemma sendable_simps [simp]:
  "sendable (set_dest mac w) = sendable w"
  "sendable (w\<lparr>send_param := (send_param w)\<lparr>p_broadcast := b, p_unicast := u\<rparr>\<rparr>) = sendable w"
  "sendable (w\<lparr>send_param := (send_param w)\<lparr>p_broadcast := b\<rparr>\<rparr>) = sendable w"
  "sendable (w\<lparr>send_param := (send_param w)\<lparr>p_count := c\<rparr>\<rparr>) = sendable w"
  "sendable (w\<lparr>send_param := (send_param w)\<lparr>p_state := s\<rparr>\<rparr>) = sendable w"
  "sendable (w\<lparr>peers := ps\<rparr>) = sendable w"
  by (simp_all add: sendable_def set_dest_def)

lemma set_dest_simps [simp]:
  "p_magic (send_param (set_dest mac w)) = p_magic (send_param w)"
  "p_dest_mac (send_param (set_dest mac w)) = mac"
  "p_unicast (send_param (set_dest mac w)) = p_unicast (send_param w)"
  "p_broadcast (send_param (set_dest mac w)) = p_broadcast (send_param w)"
  "p_count (send_param (set_dest mac w)) = p_count (send_param w)"
  "p_state (send_param (set_dest mac w)) = p_state (send_param w)"
  "p_len (send_param (set_dest mac w)) = p_len (send_param w)"
  "sent (set_dest mac w) = sent w" "peers (set_dest mac w) = peers w"
  "espnow_seq (set_dest mac w) = espnow_seq w"
  by (simp_all add: set_dest_def)

text \<open>Preparing a packet for a destination and sending it: what the device has sent afterwards, and
  what stays.\<close>

lemma prepare_and_send:
  assumes "sendable w"
  shows "\<exists>w1 w2 payload. let p = send_param w; t = packet_type mac in
    example_espnow_data_prepare (set_dest mac w) = Some w1 \<and> esp_now_send ok w1 = Some w2 \<and>
    length payload = p_len p - 10 \<and>
    sent w2 = (if ok then sent w @ [(mac, espnow_packet (of_nat t) (p_state p) (espnow_seq w ! t) (p_magic p) payload)]
               else sent w) \<and>
    send_param w2 = p\<lparr>p_dest_mac := mac, p_buffer := p_buffer (send_param w1)\<rparr> \<and>
    peers w2 = peers w \<and> espnow_seq w2 = (espnow_seq w)[t := espnow_seq w ! t + 1] \<and> sendable w2"
proof -
  have s: "sendable (set_dest mac w)" using assms by simp
  let ?p = "send_param w" and ?t = "packet_type mac"
  obtain w1 payload where
    w1: "example_espnow_data_prepare (set_dest mac w) = Some w1" "length payload = p_len ?p - 10"
      "send_param w1 = (send_param (set_dest mac w))\<lparr>p_buffer :=
         espnow_packet (of_nat ?t) (p_state ?p) (espnow_seq w ! ?t) (p_magic ?p) payload\<rparr>"
      "espnow_seq w1 = (espnow_seq w)[?t := espnow_seq w ! ?t + 1]"
      "peers w1 = peers w" "sent w1 = sent w" "sendable w1"
    using prepare_packet [OF s] by (auto simp: Let_def)
  let ?pk = "espnow_packet (of_nat ?t) (p_state ?p) (espnow_seq w ! ?t) (p_magic ?p) payload"
  let ?w2 = "if ok then w1\<lparr>sent := sent w @ [(mac, ?pk)]\<rparr> else w1"
  have "p_len ?p = 10 + length payload" using w1(2) assms by (simp add: sendable_def)
  then have "esp_now_send ok w1 = Some ?w2"
    using w1 by (simp add: esp_now_send_def load_block_def)
  then show ?thesis
    using w1 unfolding Let_def
    by (intro exI [of _ w1] exI [of _ ?w2] exI [of _ payload]) (auto simp: set_dest_def sendable_def)
qed

lemma packet_from_packet:
  assumes "length payload < 65526"
  shows "packet_from magic (mac, espnow_packet (of_nat (packet_type mac)) s q magic payload)"
  using parse_packet [OF assms, of "of_nat (packet_type mac)" s q magic] assms
  by (auto simp: packet_from_def packet_type_def)

lemma sent_inv:
  assumes "device_inv magic w" "example_espnow_data_prepare (set_dest mac w) = Some w1"
    "esp_now_send ok w1 = Some w2"
  shows "device_inv magic w2 \<and> (\<exists>blk. sent w2 = (if ok then sent w @ [(mac, blk)] else sent w)) \<and>
    p_unicast (send_param w2) = p_unicast (send_param w)"
proof -
  have s: "sendable w" using assms(1) by (simp add: device_inv_def)
  obtain payload where p: "length payload = p_len (send_param w) - 10"
    "sent w2 = (if ok then sent w @ [(mac, espnow_packet (of_nat (packet_type mac)) (p_state (send_param w))
       (espnow_seq w ! packet_type mac) (p_magic (send_param w)) payload)] else sent w)"
    "send_param w2 = (send_param w)\<lparr>p_dest_mac := mac, p_buffer := p_buffer (send_param w1)\<rparr>" "sendable w2"
    using prepare_and_send [OF s, of mac ok] assms(2,3) by (auto simp: Let_def)
  have "length payload < 65526" using p(1) s by (auto simp: sendable_def)
  then show ?thesis
    using assms(1) p packet_from_packet [of payload magic mac]
    by (auto simp: device_inv_def)
qed

lemma send_or_delete_inv:
  assumes "device_inv magic w" "example_espnow_data_prepare (set_dest mac w) = Some w1"
    "send_or_delete a w1 after = Some t" "\<And>x. device_inv magic x \<Longrightarrow> device_inv magic (after x) \<and> sent (after x) = sent x"
  shows "device_inv magic (task_state t) \<and> set (sent (task_state t)) \<subseteq> set (sent w) \<union> range (Pair mac)"
proof -
  obtain w2 where w2: "esp_now_send (a_send a) w1 = Some w2" "t = (if a_send a then Running (after w2) else Deleted w2)"
    using assms(3) by (auto simp: send_or_delete_def split: bind_splits)
  show ?thesis
    using sent_inv [OF assms(1,2) w2(1)] assms(4) [of w2] w2(2) by (auto split: if_splits)
qed

text \<open>The device that does not win the comparison of the numbers: it has not begun to send to one device,
  and all its packets are broadcasts.\<close>

definition listener :: "espnow \<Rightarrow> bool" where
  "listener w \<longleftrightarrow> \<not> p_unicast (send_param w) \<and> (\<forall>mb\<in>set (sent w). IS_BROADCAST_ADDR (fst mb))"

lemma send_cb_inv:
  assumes "device_inv magic w" "handle_send_cb a w mac = Some t"
  shows "device_inv magic (task_state t) \<and> (listener w \<and> IS_BROADCAST_ADDR mac \<longrightarrow> listener (task_state t))"
proof (cases "IS_BROADCAST_ADDR mac")
  case True
  show ?thesis
  proof (cases "p_broadcast (send_param w)")
    case b: True
    obtain w1 where w1: "example_espnow_data_prepare (set_dest mac w) = Some w1" "send_or_delete a w1 id = Some t"
      using assms(2) True b by (auto simp: handle_send_cb_def Let_def split: bind_splits)
    obtain w2 where w2: "esp_now_send (a_send a) w1 = Some w2" "task_state t = w2"
      using w1(2) by (auto simp: send_or_delete_def split: bind_splits)
    show ?thesis
      using sent_inv [OF assms(1) w1(1) w2(1)] True unfolding w2(2)
      by (auto simp: listener_def split: if_splits)
  qed (use assms True in \<open>auto simp: handle_send_cb_def Let_def\<close>)
next
  case False
  let ?w = "w\<lparr>send_param := (send_param w)\<lparr>p_count := p_count (send_param w) - 1\<rparr>\<rparr>"
  have i: "device_inv magic ?w" using assms(1) by (simp add: device_inv_def)
  show ?thesis
  proof (cases "p_count (send_param ?w) = 0")
    case True
    then show ?thesis using assms(2) False i by (auto simp: handle_send_cb_def Let_def)
  next
    case c: False
    obtain w1 where w1: "example_espnow_data_prepare (set_dest mac ?w) = Some w1" "send_or_delete a w1 id = Some t"
      using assms(2) False c by (auto simp: handle_send_cb_def Let_def split: bind_splits)
    show ?thesis using send_or_delete_inv [OF i w1] False by auto
  qed
qed

lemma add_peer_Running:
  assumes "add_peer a w mac = Some (Running w1)"
  shows "w1 = w \<or> w1 = w\<lparr>peers := peers w @ [mac]\<rparr>"
  using assms by (auto simp: add_peer_def split: if_splits)

text \<open>A packet that is not accepted, or that comes from a device with a larger number.\<close>

definition harmless :: "u32 \<Rightarrow> u8 list \<Rightarrow> int \<Rightarrow> bool" where
  "harmless magic data len \<longleftrightarrow> (\<forall>t r. example_espnow_data_parse data (of_int len) = Some (t, r) \<longrightarrow>
     t = - 1 \<or> (\<exists>rr. r = Some rr \<and> magic < recv_magic rr))"

lemma recv_cb_inv:
  assumes "device_inv magic w" "handle_recv_cb a w mac data len = Some t"
  shows "device_inv magic (task_state t) \<and> (listener w \<and> harmless magic data len \<longrightarrow> listener (task_state t))"
proof -
  obtain ret recv where p: "example_espnow_data_parse data (of_int len) = Some (ret, recv)"
    using assms(2) by (auto simp: handle_recv_cb_def split: bind_splits)
  show ?thesis
  proof (cases "ret = EXAMPLE_ESPNOW_DATA_BROADCAST")
    case False
    then show ?thesis
      using assms p
      by (auto simp: handle_recv_cb_def device_inv_def listener_def split: if_splits)
  next
    case True
    obtain r t1 where r: "recv = Some r" "add_peer a w mac = Some t1"
      using assms(2) p True by (auto simp: handle_recv_cb_def split: bind_splits)
    show ?thesis
    proof (cases t1)
      case (Deleted w1)
      then show ?thesis
        using assms p True r
        by (auto simp: handle_recv_cb_def add_peer_def split: if_splits)
    next
      case (Running w1)
      define w2 where "w2 = (if p_state (send_param w1) = 0
        then w1\<lparr>send_param := (send_param w1)\<lparr>p_state := 1\<rparr>\<rparr> else w1)"
      have w1: "device_inv magic w1" "listener w1 = listener w"
        using add_peer_Running [of a w mac w1] r(2) Running assms(1)
        by (auto simp: device_inv_def listener_def)
      then have w2: "device_inv magic w2" "listener w2 = listener w"
        by (auto simp: w2_def device_inv_def listener_def)
      have t: "(if recv_state r = 1 \<and> \<not> p_unicast (send_param w2) \<and> p_magic (send_param w2) \<ge> recv_magic r
          then do {
            w3 \<leftarrow> example_espnow_data_prepare (set_dest mac w2);
            send_or_delete a w3
              (\<lambda>w. w\<lparr>send_param := (send_param w)\<lparr>p_broadcast := False, p_unicast := True\<rparr>\<rparr>)
          }
          else Some (Running w2)) = Some t"
        using assms(2) p True r Running unfolding w2_def by (simp add: handle_recv_cb_def Let_def)
      show ?thesis
      proof (cases "recv_state r = 1 \<and> \<not> p_unicast (send_param w2) \<and> p_magic (send_param w2) \<ge> recv_magic r")
        case False
        have "t = Running w2" using t unfolding if_not_P [OF False] by simp
        then show ?thesis using w2 by simp
      next
        case go: True
        then obtain w3 where w3: "example_espnow_data_prepare (set_dest mac w2) = Some w3"
          "send_or_delete a w3 (\<lambda>w. w\<lparr>send_param := (send_param w)\<lparr>p_broadcast := False, p_unicast := True\<rparr>\<rparr>) = Some t"
          using t by (auto split: bind_splits)
        have "device_inv magic (task_state t)"
          using send_or_delete_inv [OF w2(1) w3] by (simp add: device_inv_def)
        moreover have "\<not> harmless magic data len"
          using go w2(1) p r True by (auto simp: harmless_def device_inv_def EXAMPLE_ESPNOW_DATA_BROADCAST_def)
        ultimately show ?thesis by simp
      qed
    qed
  qed
qed

section \<open>Two devices\<close>

text \<open>The two devices, named by \<open>True\<close> and \<open>False\<close>, with their addresses. A device gets the result of a packet
  that it has sent, or a packet of the other one that is a broadcast or has its address; packets can
  be lost, come late, come more than once or come with a changed byte.\<close>

type_synonym espnow_net = "bool \<Rightarrow> espnow_task"

inductive net_step :: "(bool \<Rightarrow> mac) \<Rightarrow> espnow_net \<Rightarrow> espnow_net \<Rightarrow> bool" for addr where
  sent_event: "net i = Running w \<Longrightarrow> (mac, blk) \<in> set (sent w) \<Longrightarrow>
    handle_event a w (SEND_CB mac status) = Some t \<Longrightarrow> net_step addr net (net(i := t))"
| received: "net i = Running w \<Longrightarrow> (mac, blk) \<in> set (sent (task_state (net (\<not> i)))) \<Longrightarrow>
    IS_BROADCAST_ADDR mac \<or> mac = addr i \<Longrightarrow>
    handle_event a w (RECV_CB (addr (\<not> i)) blk (int (length blk))) = Some t \<Longrightarrow> net_step addr net (net(i := t))"
| corrupted: "net i = Running w \<Longrightarrow> (mac, blk) \<in> set (sent (task_state (net (\<not> i)))) \<Longrightarrow>
    k < length blk \<Longrightarrow> v \<noteq> blk ! k \<Longrightarrow>
    handle_event a w (RECV_CB (addr (\<not> i)) (blk[k := v]) (int (length blk))) = Some t \<Longrightarrow>
    net_step addr net (net(i := t))"

definition device_start :: "espnow_config \<Rightarrow> u8 list \<Rightarrow> (nat \<Rightarrow> u32) \<Rightarrow> espnow_task option" where
  "device_start cfg junk rnd = do {
     w \<leftarrow> example_espnow_init cfg \<lparr>i_queue = True, i_sdk = True, i_peer = True, i_add_peer = True, i_param = True,
       i_buffer = True\<rparr> junk rnd;
     case w of None \<Rightarrow> None | Some w \<Rightarrow> example_espnow_task True w []
   }"

inductive net_reachable :: "(bool \<Rightarrow> mac) \<Rightarrow> espnow_config \<Rightarrow> (bool \<Rightarrow> u8 list) \<Rightarrow> (bool \<Rightarrow> nat \<Rightarrow> u32) \<Rightarrow> espnow_net \<Rightarrow> bool"
  for addr cfg junk rnd where
  start: "(\<And>i. device_start cfg (junk i) (rnd i) = Some (net i)) \<Longrightarrow> net_reachable addr cfg junk rnd net"
| step: "net_reachable addr cfg junk rnd net \<Longrightarrow> net_step addr net net1 \<Longrightarrow> net_reachable addr cfg junk rnd net1"

lemma device_start_ok:
  assumes "10 \<le> ESPNOW_SEND_LEN cfg" "ESPNOW_SEND_LEN cfg < 65536"
  shows "\<exists>w payload. device_start cfg junk rnd = Some (Running w) \<and> device_inv (rnd 0) w \<and> listener w \<and>
    sent w = [(example_broadcast_mac, espnow_packet 0 0 0 (rnd 0) payload)] \<and>
    length payload = ESPNOW_SEND_LEN cfg - 10 \<and>
    p_state (send_param w) = 0 \<and> p_broadcast (send_param w) \<and> espnow_seq w = [1, 0]"
proof -
  define w0 where "w0 = \<lparr>send_param = \<lparr>p_unicast = False, p_broadcast = True, p_state = 0, p_magic = rnd 0,
           p_count = ESPNOW_SEND_COUNT cfg, p_delay = ESPNOW_SEND_DELAY cfg, p_len = ESPNOW_SEND_LEN cfg,
           p_buffer = take (ESPNOW_SEND_LEN cfg) (junk @ replicate (ESPNOW_SEND_LEN cfg) 0),
           p_dest_mac = example_broadcast_mac\<rparr>,
         espnow_seq = [0, 0], random = (\<lambda>n. rnd (Suc n)), peers = [example_broadcast_mac], sent = []\<rparr>"
  have s: "sendable w0" using assms by (auto simp: sendable_def w0_def)
  have d: "set_dest example_broadcast_mac w0 = w0" by (simp add: set_dest_def w0_def)
  have bt: "packet_type example_broadcast_mac = 0" by (simp add: packet_type_def IS_BROADCAST_ADDR_def)
  have f: "p_len (send_param w0) = ESPNOW_SEND_LEN cfg" "p_state (send_param w0) = 0"
    "p_magic (send_param w0) = rnd 0" "p_broadcast (send_param w0)" "\<not> p_unicast (send_param w0)"
    "espnow_seq w0 = [0, 0]" "sent w0 = []"
    by (simp_all add: w0_def)
  obtain w1 w2 payload where w: "example_espnow_data_prepare w0 = Some w1" "esp_now_send True w1 = Some w2"
    "length payload = ESPNOW_SEND_LEN cfg - 10"
    "sent w2 = [(example_broadcast_mac, espnow_packet 0 0 0 (rnd 0) payload)]"
    "send_param w2 = (send_param w0)\<lparr>p_dest_mac := example_broadcast_mac, p_buffer := p_buffer (send_param w1)\<rparr>"
    "espnow_seq w2 = [1, 0]" "sendable w2"
    using prepare_and_send [OF s, of example_broadcast_mac True] by (auto simp: d bt f Let_def)
  have "length payload < 65526" using w(3) assms by auto
  then have p: "packet_from (rnd 0) (example_broadcast_mac, espnow_packet 0 0 0 (rnd 0) payload)"
    using packet_from_packet [of payload "rnd 0" example_broadcast_mac] by (simp add: bt)
  have "device_start cfg junk rnd = Some (Running w2)"
    using w(1,2) by (simp add: device_start_def example_espnow_init_def example_espnow_task_def w0_def)
  then show ?thesis
    using w p f by (auto simp: device_inv_def listener_def IS_BROADCAST_ADDR_def)
qed

definition net_inv :: "(bool \<Rightarrow> nat \<Rightarrow> u32) \<Rightarrow> espnow_net \<Rightarrow> bool" where
  "net_inv rnd net \<longleftrightarrow> (\<forall>i. device_inv (rnd i 0) (task_state (net i))) \<and>
     (\<forall>i. rnd i 0 < rnd (\<not> i) 0 \<longrightarrow> listener (task_state (net i)))"

lemma net_inv_upd:
  assumes "net_inv rnd net" "net i = Running w"
    "device_inv (rnd i 0) (task_state t) \<and> (rnd i 0 < rnd (\<not> i) 0 \<longrightarrow> listener (task_state t))"
  shows "net_inv rnd (net(i := t))"
  using assms by (auto simp: net_inv_def)

lemma of_int_length: "(of_int (int (length xs)) :: u16) = of_nat (length xs)"
  by simp

lemma harmless_sent:
  assumes "packet_from m' (mac, blk)" "magic < m'"
  shows "harmless magic blk (int (length blk))"
  using assms by (auto simp: harmless_def packet_from_def)

lemma harmless_corrupted:
  assumes "packet_from m' (mac, blk)" "k < length blk" "v \<noteq> blk ! k"
  shows "harmless magic (blk[k := v]) (int (length blk))"
proof -
  obtain r where r: "example_espnow_data_parse blk (of_nat (length blk)) = Some (int (packet_type mac), r)"
    using assms(1) by (auto simp: packet_from_def)
  have "unat (of_nat (length blk) :: u16) = length blk"
    using assms(1) by (simp add: packet_from_def unat_of_nat)
  with corruption_refused [OF r _ _ assms(3)] assms(2)
  have "\<exists>r1. example_espnow_data_parse (blk[k := v]) (of_nat (length blk)) = Some (- 1, r1)"
    by simp
  then show ?thesis by (auto simp: harmless_def)
qed

lemma net_step_inv:
  assumes "net_step addr net net1" "net_inv rnd net"
  shows "net_inv rnd net1"
  using assms(1)
proof cases
  case (sent_event i w mac blk a status t)
  have "device_inv (rnd i 0) w" "rnd i 0 < rnd (\<not> i) 0 \<longrightarrow> listener w"
    using assms(2) sent_event(2) by (auto simp: net_inv_def dest: spec [of _ i])
  then show ?thesis
    using send_cb_inv [of "rnd i 0" w a mac t] sent_event net_inv_upd [OF assms(2) sent_event(2), of t]
    by (auto simp: handle_event_def listener_def)
next
  case (received i w mac blk a t)
  have i: "device_inv (rnd i 0) w" "rnd i 0 < rnd (\<not> i) 0 \<longrightarrow> listener w"
    using assms(2) received(2) by (auto simp: net_inv_def dest: spec [of _ i])
  have "packet_from (rnd (\<not> i) 0) (mac, blk)"
    using assms(2) received(3) by (auto simp: net_inv_def device_inv_def list_all_iff)
  then show ?thesis
    using recv_cb_inv [OF i(1)] harmless_sent i(2) received net_inv_upd [OF assms(2) received(2), of t]
    by (auto simp: handle_event_def)
next
  case (corrupted i w mac blk k v a t)
  have i: "device_inv (rnd i 0) w" "rnd i 0 < rnd (\<not> i) 0 \<longrightarrow> listener w"
    using assms(2) corrupted(2) by (auto simp: net_inv_def dest: spec [of _ i])
  have "packet_from (rnd (\<not> i) 0) (mac, blk)"
    using assms(2) corrupted(3) by (auto simp: net_inv_def device_inv_def list_all_iff)
  then show ?thesis
    using recv_cb_inv [OF i(1)] harmless_corrupted i(2) corrupted net_inv_upd [OF assms(2) corrupted(2), of t]
    by (auto simp: handle_event_def)
qed

lemma net_reachable_inv:
  assumes "net_reachable addr cfg junk rnd net" "10 \<le> ESPNOW_SEND_LEN cfg" "ESPNOW_SEND_LEN cfg < 65536"
  shows "net_inv rnd net"
  using assms(1)
proof induction
  case (start net)
  have "device_inv (rnd i 0) (task_state (net i)) \<and> listener (task_state (net i))" for i
    using device_start_ok [OF assms(2,3), of "junk i" "rnd i"] start [of i] by auto
  then show ?case by (simp add: net_inv_def)
qed (rule net_step_inv)

text \<open>C8: Of two devices at most one becomes the sender: the device with the smaller magic number never starts to
  send to the other one, whatever is lost, delayed, repeated or corrupted, and all packets that it ever
  sends are broadcasts.\<close>

theorem espnow_one_sender:
  assumes "net_reachable addr cfg junk rnd net" "10 \<le> ESPNOW_SEND_LEN cfg" "ESPNOW_SEND_LEN cfg < 65536"
    "rnd i 0 < rnd (\<not> i) 0"
  shows "\<not> p_unicast (send_param (task_state (net i))) \<and>
    (\<forall>mb\<in>set (sent (task_state (net i))). IS_BROADCAST_ADDR (fst mb))"
  using net_reachable_inv [OF assms(1-3)] assms(4) by (auto simp: net_inv_def listener_def)

definition demo_cfg :: espnow_config where
  "demo_cfg = \<lparr>ESPNOW_SEND_COUNT = 100, ESPNOW_SEND_DELAY = 1000, ESPNOW_SEND_LEN = 200\<rparr>"

definition demo_net :: espnow_net where
  "demo_net i = the (device_start demo_cfg [] (\<lambda>n. if i then 1 else 2))"

theorem espnow_one_sender_witness:
  "\<not> p_unicast (send_param (task_state (demo_net True))) \<and>
    list_all (\<lambda>mb. IS_BROADCAST_ADDR (fst mb)) (sent (task_state (demo_net True)))"
proof -
  let ?rnd = "\<lambda>i n :: nat. if i then 1 else 2 :: u32"
  have "\<exists>w. device_start demo_cfg [] (?rnd i) = Some w" for i
    using device_start_ok [of demo_cfg "[]" "?rnd i"] by (auto simp: demo_cfg_def)
  then have "net_reachable (\<lambda>i. []) demo_cfg (\<lambda>i. []) ?rnd demo_net"
    by (intro net_reachable.start) (auto simp: demo_net_def)
  then have "\<not> p_unicast (send_param (task_state (demo_net True))) \<and>
    (\<forall>mb\<in>set (sent (task_state (demo_net True))). IS_BROADCAST_ADDR (fst mb))"
    by (rule espnow_one_sender) (simp_all add: demo_cfg_def)
  then show ?thesis by (simp add: list_all_iff)
qed

section \<open>The handshake\<close>

lemma not_broadcast: "hd mac \<noteq> 0xFF \<Longrightarrow> \<not> IS_BROADCAST_ADDR mac"
  by (auto simp: IS_BROADCAST_ADDR_def example_broadcast_mac_def numeral_eq_Suc)

definition all_ok :: espnow_answers where
  "all_ok = \<lparr>a_send = True, a_malloc = True, a_add_peer = True\<rparr>"

lemma add_peer_ok:
  "\<exists>w1. add_peer all_ok w mac = Some (Running w1) \<and> send_param w1 = send_param w \<and> sent w1 = sent w \<and>
     espnow_seq w1 = espnow_seq w"
  by (auto simp: add_peer_def all_ok_def)

lemma sendable_cong:
  "send_param w1 = send_param w \<Longrightarrow> espnow_seq w1 = espnow_seq w \<Longrightarrow> sendable w1 = sendable w"
  by (simp add: sendable_def)

lemma recv_broadcast:
  assumes "example_espnow_data_parse data (of_int len) = Some (0, Some r)"
  shows "\<exists>w1. send_param w1 = (send_param w)\<lparr>p_state := if p_state (send_param w) = 0 then 1 else p_state (send_param w)\<rparr> \<and>
    sent w1 = sent w \<and> espnow_seq w1 = espnow_seq w \<and>
    handle_recv_cb all_ok w mac data len =
      (if recv_state r = 1 \<and> \<not> p_unicast (send_param w) \<and> p_magic (send_param w) \<ge> recv_magic r
       then do {
         w3 \<leftarrow> example_espnow_data_prepare (set_dest mac w1);
         send_or_delete all_ok w3
           (\<lambda>w. w\<lparr>send_param := (send_param w)\<lparr>p_broadcast := False, p_unicast := True\<rparr>\<rparr>)
       }
       else Some (Running w1))"
proof -
  obtain w1 where w1: "add_peer all_ok w mac = Some (Running w1)" "send_param w1 = send_param w"
    "sent w1 = sent w" "espnow_seq w1 = espnow_seq w"
    using add_peer_ok by blast
  let ?w2 = "if p_state (send_param w1) = 0 then w1\<lparr>send_param := (send_param w1)\<lparr>p_state := 1\<rparr>\<rparr> else w1"
  have "send_param ?w2 = (send_param w)\<lparr>p_state := if p_state (send_param w) = 0 then 1 else p_state (send_param w)\<rparr>"
    "sent ?w2 = sent w" "espnow_seq ?w2 = espnow_seq w"
    using w1 by simp_all
  then show ?thesis
    using assms w1 by (intro exI [of _ ?w2]) (simp add: handle_recv_cb_def Let_def EXAMPLE_ESPNOW_DATA_BROADCAST_def)
qed

lemma start_unicast:
  assumes "example_espnow_data_parse data (of_int len) = Some (0, Some r)" "recv_state r = 1"
    "\<not> p_unicast (send_param w)" "p_magic (send_param w) \<ge> recv_magic r" "device_inv magic w"
  shows "\<exists>w1 blk. handle_recv_cb all_ok w mac data len = Some (Running w1) \<and> p_unicast (send_param w1) \<and>
    \<not> p_broadcast (send_param w1) \<and> (mac, blk) \<in> set (sent w1) \<and> packet_from magic (mac, blk)"
proof -
  obtain w1 where w1:
    "send_param w1 = (send_param w)\<lparr>p_state := if p_state (send_param w) = 0 then 1 else p_state (send_param w)\<rparr>"
    "sent w1 = sent w" "espnow_seq w1 = espnow_seq w"
    "handle_recv_cb all_ok w mac data len = do {
         w3 \<leftarrow> example_espnow_data_prepare (set_dest mac w1);
         send_or_delete all_ok w3
           (\<lambda>w. w\<lparr>send_param := (send_param w)\<lparr>p_broadcast := False, p_unicast := True\<rparr>\<rparr>)
       }"
    using recv_broadcast [OF assms(1), of w mac] assms(2-4) by auto
  have i: "device_inv magic w1" using assms(5) w1 by (auto simp: device_inv_def sendable_def)
  obtain w2 w3 where w2: "example_espnow_data_prepare (set_dest mac w1) = Some w2" "esp_now_send True w2 = Some w3"
    using prepare_and_send [of w1 mac True] i by (auto simp: device_inv_def Let_def)
  obtain blk where blk: "device_inv magic w3" "sent w3 = sent w1 @ [(mac, blk)]"
    using sent_inv [OF i w2] by auto
  then have "packet_from magic (mac, blk)" by (simp add: device_inv_def)
  then show ?thesis
    using w1(4) w2 blk(2) by (auto simp: send_or_delete_def all_ok_def)
qed

lemma recv_unicast:
  assumes "example_espnow_data_parse data (of_int len) = Some (1, r)"
  shows "handle_recv_cb a w mac data len = Some (Running (w\<lparr>send_param := (send_param w)\<lparr>p_broadcast := False\<rparr>\<rparr>))"
  using assms by (simp add: handle_recv_cb_def EXAMPLE_ESPNOW_DATA_BROADCAST_def EXAMPLE_ESPNOW_DATA_UNICAST_def)

text \<open>The four steps of the handshake: a device hears the first broadcast of the other one, broadcasts that it
  has heard it, the other one begins to send to it, and it stops its own broadcasts.\<close>

lemma IS_BROADCAST_example [simp]: "IS_BROADCAST_ADDR example_broadcast_mac"
  by (simp add: IS_BROADCAST_ADDR_def)

lemma step_hear:
  assumes "net i = Running w" "p_state (send_param w) = 0" "length p < 65526"
    "(example_broadcast_mac, espnow_packet 0 0 q m p) \<in> set (sent (task_state (net (\<not> i))))"
  shows "\<exists>w1. net_step addr net (net(i := Running w1)) \<and> send_param w1 = (send_param w)\<lparr>p_state := 1\<rparr> \<and>
    sent w1 = sent w \<and> espnow_seq w1 = espnow_seq w"
proof -
  let ?b = "espnow_packet 0 0 q m p"
  have "example_espnow_data_parse ?b (of_int (int (length ?b))) = Some (0, Some \<lparr>recv_state = 0, recv_seq = q, recv_magic = m\<rparr>)"
    using parse_packet [OF assms(3), of 0 0 q m] by simp
  from recv_broadcast [OF this, of w "addr (\<not> i)"] assms(2)
  obtain w1 where w1: "handle_recv_cb all_ok w (addr (\<not> i)) ?b (int (length ?b)) = Some (Running w1)"
    "send_param w1 = (send_param w)\<lparr>p_state := 1\<rparr>" "sent w1 = sent w" "espnow_seq w1 = espnow_seq w"
    by auto
  then show ?thesis
    using net_step.received [OF assms(1,4), of addr all_ok "Running w1"] by (auto simp: handle_event_def)
qed

lemma step_broadcast:
  assumes "net i = Running w" "device_inv m w" "p_broadcast (send_param w)" "(example_broadcast_mac, blk) \<in> set (sent w)"
  shows "\<exists>w1 q p. net_step addr net (net(i := Running w1)) \<and> length p < 65526 \<and>
    (example_broadcast_mac, espnow_packet 0 (p_state (send_param w)) q m p) \<in> set (sent w1)"
proof -
  have s: "sendable w" "p_magic (send_param w) = m" using assms(2) by (auto simp: device_inv_def)
  from prepare_and_send [OF s(1), of example_broadcast_mac True]
  obtain w' w1 p where w1: "example_espnow_data_prepare (set_dest example_broadcast_mac w) = Some w'"
    "esp_now_send True w' = Some w1" "length p = p_len (send_param w) - 10"
    "sent w1 = sent w @ [(example_broadcast_mac, espnow_packet 0 (p_state (send_param w)) (espnow_seq w ! 0) m p)]"
    by (auto simp: packet_type_def Let_def s(2))
  have "handle_send_cb all_ok w example_broadcast_mac = Some (Running w1)"
    using w1(1,2) assms(3) by (simp add: handle_send_cb_def send_or_delete_def all_ok_def)
  then have "net_step addr net (net(i := Running w1))"
    using net_step.sent_event [of net i w example_broadcast_mac blk all_ok True "Running w1" addr] assms(1,4)
    by (simp add: handle_event_def)
  then show ?thesis
    using w1(3,4) s(1) by (intro exI conjI) (auto simp: sendable_def)
qed

lemma step_unicast:
  assumes "net i = Running w" "device_inv magic w" "\<not> p_unicast (send_param w)" "m \<le> magic" "length p < 65526"
    "(example_broadcast_mac, espnow_packet 0 1 q m p) \<in> set (sent (task_state (net (\<not> i))))"
  shows "\<exists>w1 blk. net_step addr net (net(i := Running w1)) \<and> p_unicast (send_param w1) \<and>
    \<not> p_broadcast (send_param w1) \<and> (addr (\<not> i), blk) \<in> set (sent w1) \<and> packet_from magic (addr (\<not> i), blk)"
proof -
  let ?b = "espnow_packet 0 1 q m p"
  have "example_espnow_data_parse ?b (of_int (int (length ?b))) = Some (0, Some \<lparr>recv_state = 1, recv_seq = q, recv_magic = m\<rparr>)"
    using parse_packet [OF assms(5), of 0 1 q m] by simp
  from start_unicast [OF this _ assms(3) _ assms(2), of "addr (\<not> i)"] assms(2,4)
  obtain w1 blk where w1: "handle_recv_cb all_ok w (addr (\<not> i)) ?b (int (length ?b)) = Some (Running w1)"
    "p_unicast (send_param w1)" "\<not> p_broadcast (send_param w1)" "(addr (\<not> i), blk) \<in> set (sent w1)"
    "packet_from magic (addr (\<not> i), blk)"
    by (auto simp: device_inv_def)
  then show ?thesis
    using net_step.received [OF assms(1,6), of addr all_ok "Running w1"] by (auto simp: handle_event_def)
qed

lemma step_silent:
  assumes "net i = Running w" "(addr i, blk) \<in> set (sent (task_state (net (\<not> i))))" "packet_from m (addr i, blk)"
    "\<not> IS_BROADCAST_ADDR (addr i)"
  shows "\<exists>w1. net_step addr net (net(i := Running w1)) \<and> \<not> p_broadcast (send_param w1)"
proof -
  let ?w = "w\<lparr>send_param := (send_param w)\<lparr>p_broadcast := False\<rparr>\<rparr>"
  obtain r where "example_espnow_data_parse blk (of_int (int (length blk))) = Some (1, r)"
    using assms(3,4) by (auto simp: packet_from_def packet_type_def)
  from recv_unicast [OF this, of all_ok w "addr (\<not> i)"]
  have "net_step addr net (net(i := Running ?w))"
    using net_step.received [OF assms(1,2), of addr all_ok "Running ?w"] by (simp add: handle_event_def)
  then show ?thesis by (intro exI conjI) auto
qed

text \<open>C36: The handshake can complete: from the start, one delivery of a broadcast to each side, a second broadcast of the
  device with the smaller number and the first packet to it lead to a state in which the other
  device sends to it and no device broadcasts any more.\<close>

theorem espnow_handshake:
  assumes "10 \<le> ESPNOW_SEND_LEN cfg" "ESPNOW_SEND_LEN cfg < 65536" "\<not> IS_BROADCAST_ADDR (addr (\<not> i))"
    "rnd (\<not> i) 0 \<le> rnd i 0"
  shows "\<exists>net u v. net_reachable addr cfg junk rnd net \<and> net i = Running u \<and> net (\<not> i) = Running v \<and>
    p_unicast (send_param u) \<and> \<not> p_broadcast (send_param u) \<and> \<not> p_broadcast (send_param v)"
proof -
  let ?j = "\<not> i"
  define net0 where "net0 = (\<lambda>k. the (device_start cfg (junk k) (rnd k)))"
  have start: "\<exists>w p. device_start cfg (junk k) (rnd k) = Some (net0 k) \<and> net0 k = Running w \<and> device_inv (rnd k 0) w \<and>
      listener w \<and> sent w = [(example_broadcast_mac, espnow_packet 0 0 0 (rnd k 0) p)] \<and> length p < 65526 \<and>
      p_state (send_param w) = 0 \<and> p_broadcast (send_param w)" for k
    using device_start_ok [OF assms(1,2), of "junk k" "rnd k"] assms(2) by (fastforce simp: net0_def)
  then have r0: "net_reachable addr cfg junk rnd net0" by (intro net_reachable.start) blast
  obtain u0 up where u0: "net0 i = Running u0" "device_inv (rnd i 0) u0" "listener u0"
    "sent u0 = [(example_broadcast_mac, espnow_packet 0 0 0 (rnd i 0) up)]" "length up < 65526"
    using start [of i] by blast
  obtain v0 vp where v0: "net0 ?j = Running v0" "device_inv (rnd ?j 0) v0"
    "sent v0 = [(example_broadcast_mac, espnow_packet 0 0 0 (rnd ?j 0) vp)]"
    "p_state (send_param v0) = 0" "p_broadcast (send_param v0)"
    using start [of ?j] by blast
  obtain v1 where v1: "net_step addr net0 (net0(?j := Running v1))" "send_param v1 = (send_param v0)\<lparr>p_state := 1\<rparr>"
    "sent v1 = sent v0" "espnow_seq v1 = espnow_seq v0"
    using step_hear [of net0 ?j v0 up 0 "rnd i 0" addr] v0(1,4) u0 by auto
  have i1: "device_inv (rnd ?j 0) v1" using v0(2) v1(2-4) by (auto simp: device_inv_def sendable_def)
  obtain v2 q p where v2: "net_step addr (net0(?j := Running v1)) (net0(?j := Running v2))" "length p < 65526"
    "(example_broadcast_mac, espnow_packet 0 1 q (rnd ?j 0) p) \<in> set (sent v2)"
    using step_broadcast [of "net0(?j := Running v1)" ?j v1 "rnd ?j 0" "espnow_packet 0 0 0 (rnd ?j 0) vp" addr] i1 v0(3,5) v1(2,3)
    by auto
  obtain u1 blk where u1: "net_step addr (net0(?j := Running v2)) (net0(?j := Running v2, i := Running u1))"
    "p_unicast (send_param u1)" "\<not> p_broadcast (send_param u1)" "(addr ?j, blk) \<in> set (sent u1)"
    "packet_from (rnd i 0) (addr ?j, blk)"
    using step_unicast [of "net0(?j := Running v2)" i u0 "rnd i 0" "rnd ?j 0" p q addr] u0(1-3) v2(2,3) assms(4)
    by (auto simp: listener_def)
  let ?net3 = "net0(?j := Running v2, i := Running u1)"
  obtain v3 where v3: "net_step addr ?net3 (?net3(?j := Running v3))" "\<not> p_broadcast (send_param v3)"
    using step_silent [of ?net3 ?j v2 addr blk, OF _ _ u1(5) assms(3)] u1(4) by auto
  have "net_reachable addr cfg junk rnd (?net3(?j := Running v3))"
    using r0 v1(1) v2(1) u1(1) v3(1) by (meson net_reachable.step)
  then show ?thesis
    using u1(2,3) v3(2) by (intro exI [of _ "?net3(?j := Running v3)"]) simp
qed

theorem espnow_handshake_witness:
  "\<exists>net u v. net_reachable (\<lambda>i. if i then [1, 1, 1, 1, 1, 1] else [2, 2, 2, 2, 2, 2]) demo_cfg (\<lambda>i. [])
     (\<lambda>i n. if i then 2 else 1) net \<and> net True = Running u \<and> net (\<not> True) = Running v \<and>
    p_unicast (send_param u) \<and> \<not> p_broadcast (send_param u) \<and> \<not> p_broadcast (send_param v)"
  by (rule espnow_handshake) (simp_all add: demo_cfg_def not_broadcast)

section \<open>The packets of the sender\<close>



end
