(* ===== verification/Iperf.thy ===== *)
theory Iperf
  imports Mdns_Prelude
begin

text \<open>
  The bandwidth test of the Wi-Fi example, \<^verbatim>\<open>iperf.c\<close> of \<^verbatim>\<open>examples/wifi/iperf/components/iperf\<close>: starting and
  stopping, the traffic task in its four roles and the report task. The tasks share the variables
  \<^verbatim>\<open>s_iperf_ctrl\<close> and \<^verbatim>\<open>s_iperf_is_running\<close>. A step of a task is one round of a loop, which begins with the test
  of \<open>finish\<close>; what the sockets return in it are the fields of \<open>io_answers\<close>. The bandwidth that is
  printed is kept as the number of bytes, before it is converted to a floating point number.
\<close>

section \<open>State\<close>

type_synonym u64 = "64 word"

definition IPERF_FLAG_CLIENT :: u32 where "IPERF_FLAG_CLIENT = 1"
definition IPERF_FLAG_SERVER :: u32 where "IPERF_FLAG_SERVER = 2"
definition IPERF_FLAG_TCP :: u32 where "IPERF_FLAG_TCP = 4"
definition IPERF_FLAG_UDP :: u32 where "IPERF_FLAG_UDP = 8"
definition IPERF_UDP_TX_LEN :: u32 where "IPERF_UDP_TX_LEN = 1472"
definition IPERF_UDP_RX_LEN :: u32 where "IPERF_UDP_RX_LEN = 16384"
definition IPERF_TCP_TX_LEN :: u32 where "IPERF_TCP_TX_LEN = 16384"
definition IPERF_TCP_RX_LEN :: u32 where "IPERF_TCP_RX_LEN = 16384"
definition IPERF_MAX_DELAY :: u32 where "IPERF_MAX_DELAY = 64"

record iperf_cfg_t =
  cfg_flag :: u32
  cfg_dip :: u32
  cfg_sip :: u32
  cfg_dport :: u16
  cfg_sport :: u16
  cfg_interval :: u32
  cfg_time :: u32

record iperf_ctrl_t =
  cfg :: iperf_cfg_t
  finish :: bool
  total_len :: u64
  buffer_len :: u32
  buffer :: "u8 list option"

text \<open>The local variables of the UDP client and of the report task.\<close>

record udp_client =
  uc_id :: int
  uc_retry :: bool
  uc_delay :: u32

record report =
  rp_interval :: u32
  rp_time :: u32
  rp_last_len :: u32
  rp_cur :: u32

text \<open>Where the traffic task is: at its beginning, or at the head of a loop.\<close>

datatype traffic_pc =
  Tr_start | Tr_udp_client udp_client | Tr_udp_server bool | Tr_tcp_client | Tr_tcp_accept | Tr_tcp_recv

record iperf =
  is_running :: bool
  ctrl :: iperf_ctrl_t
  traffic :: "traffic_pc option"
  reports :: "report list"
  printed :: "(u32 \<times> u32 \<times> u64) list"
  wire :: "u8 list list"

record io_answers =
  io_socket :: bool
  io_bind :: bool
  io_listen :: bool
  io_accept :: bool
  io_connect :: bool
  io_report :: bool
  io_sent :: int
  io_enomem :: bool
  io_recv :: "u8 list option"

section \<open>Start and stop\<close>

definition has_flag :: "iperf_ctrl_t \<Rightarrow> u32 \<Rightarrow> bool" where
  "has_flag c f \<longleftrightarrow> cfg_flag (cfg c) AND f \<noteq> 0"

definition iperf_is_udp_client :: "iperf_ctrl_t \<Rightarrow> bool" where
  "iperf_is_udp_client c \<longleftrightarrow> has_flag c IPERF_FLAG_CLIENT \<and> has_flag c IPERF_FLAG_UDP"

definition iperf_is_udp_server :: "iperf_ctrl_t \<Rightarrow> bool" where
  "iperf_is_udp_server c \<longleftrightarrow> has_flag c IPERF_FLAG_SERVER \<and> has_flag c IPERF_FLAG_UDP"

definition iperf_is_tcp_client :: "iperf_ctrl_t \<Rightarrow> bool" where
  "iperf_is_tcp_client c \<longleftrightarrow> has_flag c IPERF_FLAG_CLIENT \<and> has_flag c IPERF_FLAG_TCP"

definition iperf_get_buffer_len :: "iperf_ctrl_t \<Rightarrow> u32" where
  "iperf_get_buffer_len c =
     (if iperf_is_udp_client c then IPERF_UDP_TX_LEN
      else if iperf_is_udp_server c then IPERF_UDP_RX_LEN
      else if iperf_is_tcp_client c then IPERF_TCP_TX_LEN
      else IPERF_TCP_RX_LEN)"

text \<open>The result is whether the call succeeds. A start without memory leaves \<open>is_running\<close> set.\<close>

definition iperf_start :: "bool \<Rightarrow> bool \<Rightarrow> iperf_cfg_t option \<Rightarrow> iperf \<Rightarrow> bool \<times> iperf" where
  "iperf_start malloc_ok task_ok config w = (case config of
     None \<Rightarrow> (False, w)
   | Some c \<Rightarrow>
       if is_running w then (False, w)
       else let c1 = \<lparr>cfg = c, finish = False, total_len = 0, buffer_len = 0, buffer = None\<rparr>;
                len = iperf_get_buffer_len c1;
                c2 = c1\<lparr>buffer_len := len\<rparr>;
                w1 = w\<lparr>ctrl := c2, is_running := True\<rparr>
         in if \<not> malloc_ok then (False, w1)
            else if \<not> task_ok then (False, w1)
            else (True, w1\<lparr>ctrl := c2\<lparr>buffer := Some (replicate (unat len) 0)\<rparr>, traffic := Some Tr_start\<rparr>))"

definition set_finish :: "iperf \<Rightarrow> iperf" where
  "set_finish w = w\<lparr>ctrl := (ctrl w)\<lparr>finish := True\<rparr>\<rparr>"

text \<open>\<^verbatim>\<open>iperf_stop\<close>: the request; the caller then waits until \<open>is_running\<close> is false.\<close>

definition iperf_stop :: "iperf \<Rightarrow> iperf" where
  "iperf_stop w = (if is_running w then set_finish w else w)"

section \<open>Reports\<close>

definition iperf_start_report :: "bool \<Rightarrow> iperf \<Rightarrow> iperf" where
  "iperf_start_report ok w =
     (if ok then w\<lparr>reports := reports w @ [\<lparr>rp_interval = cfg_interval (cfg (ctrl w)),
        rp_time = cfg_time (cfg (ctrl w)), rp_last_len = 0, rp_cur = 0\<rparr>]\<rparr> else w)"

text \<open>The end of the report task, and a round of its loop; the result is the task that is left.\<close>

definition report_end :: "report \<Rightarrow> iperf \<Rightarrow> iperf" where
  "report_end r w = set_finish (if rp_cur r \<noteq> 0
     then w\<lparr>printed := printed w @ [(0, rp_time r, total_len (ctrl w))]\<rparr> else w)"

definition iperf_report_round :: "report \<Rightarrow> iperf \<Rightarrow> report option \<times> iperf" where
  "iperf_report_round r w =
     (if finish (ctrl w) then (None, report_end r w)
      else let w1 = w\<lparr>printed := printed w @
                 [(rp_cur r, rp_cur r + rp_interval r, total_len (ctrl w) - ucast (rp_last_len r))]\<rparr>;
               r1 = r\<lparr>rp_cur := rp_cur r + rp_interval r, rp_last_len := ucast (total_len (ctrl w))\<rparr>
        in if rp_cur r1 \<ge> rp_time r1 then (None, report_end r1 w1) else (Some r1, w1))"

definition iperf_report_task :: "nat \<Rightarrow> iperf \<Rightarrow> iperf" where
  "iperf_report_task k w = (let (r, w1) = iperf_report_round (reports w ! k) w in
     w1\<lparr>reports := (case r of None \<Rightarrow> take k (reports w1) @ drop (Suc k) (reports w1)
                        | Some r1 \<Rightarrow> (reports w1)[k := r1])\<rparr>)"

section \<open>Traffic\<close>

text \<open>The end of \<^verbatim>\<open>iperf_task_traffic\<close>, behind the function of the role.\<close>

definition traffic_end :: "iperf \<Rightarrow> iperf" where
  "traffic_end w = w\<lparr>ctrl := (ctrl w)\<lparr>buffer := None\<rparr>, is_running := False, traffic := None\<rparr>"

definition goto :: "traffic_pc \<Rightarrow> iperf \<Rightarrow> iperf" where
  "goto pc w = w\<lparr>traffic := Some pc\<rparr>"

definition add_total :: "nat \<Rightarrow> iperf \<Rightarrow> iperf" where
  "add_total n w = w\<lparr>ctrl := (ctrl w)\<lparr>total_len := total_len (ctrl w) + of_nat n\<rparr>\<rparr>"

definition store_buffer :: "u8 list \<Rightarrow> iperf \<Rightarrow> iperf option" where
  "store_buffer data w = do {
     b \<leftarrow> buffer (ctrl w);
     b1 \<leftarrow> store_block b 0 data;
     Some (w\<lparr>ctrl := (ctrl w)\<lparr>buffer := Some b1\<rparr>\<rparr>)
   }"

text \<open>\<open>htonl (id)\<close> in memory.\<close>

definition be32 :: "u32 \<Rightarrow> u8 list" where
  "be32 v = [ucast (drop_bit 24 v), ucast (drop_bit 16 v), ucast (drop_bit 8 v), ucast v]"

text \<open>The functions of the roles up to their loops. The options of the sockets have no influence here.\<close>

definition iperf_run_udp_client :: "io_answers \<Rightarrow> iperf \<Rightarrow> iperf" where
  "iperf_run_udp_client a w =
     (if \<not> io_socket a then traffic_end w
      else goto (Tr_udp_client \<lparr>uc_id = 0, uc_retry = False, uc_delay = 1\<rparr>) (iperf_start_report (io_report a) w))"

definition iperf_run_udp_server :: "io_answers \<Rightarrow> iperf \<Rightarrow> iperf" where
  "iperf_run_udp_server a w =
     (if \<not> io_socket a then traffic_end w
      else if \<not> io_bind a then traffic_end w
      else goto (Tr_udp_server True) w)"

definition iperf_run_tcp_client :: "io_answers \<Rightarrow> iperf \<Rightarrow> iperf" where
  "iperf_run_tcp_client a w =
     (if \<not> io_socket a then traffic_end w
      else if \<not> io_connect a then traffic_end w
      else goto Tr_tcp_client (iperf_start_report (io_report a) w))"

definition iperf_run_tcp_server :: "io_answers \<Rightarrow> iperf \<Rightarrow> iperf" where
  "iperf_run_tcp_server a w =
     (if \<not> io_socket a then traffic_end w
      else if \<not> io_bind a then traffic_end w
      else if \<not> io_listen a then traffic_end w
      else goto Tr_tcp_accept w)"

definition iperf_traffic_begin :: "io_answers \<Rightarrow> iperf \<Rightarrow> iperf" where
  "iperf_traffic_begin a w =
     (if iperf_is_udp_client (ctrl w) then iperf_run_udp_client a w
      else if iperf_is_udp_server (ctrl w) then iperf_run_udp_server a w
      else if iperf_is_tcp_client (ctrl w) then iperf_run_tcp_client a w
      else iperf_run_tcp_server a w)"

lemmas traffic_begin_defs = iperf_traffic_begin_def iperf_run_udp_client_def iperf_run_udp_server_def
  iperf_run_tcp_client_def iperf_run_tcp_server_def

text \<open>A number of more than 31 bits is undefined behaviour.\<close>

definition iperf_udp_client_round :: "io_answers \<Rightarrow> udp_client \<Rightarrow> iperf \<Rightarrow> iperf option" where
  "iperf_udp_client_round a uc w =
     (if finish (ctrl w) then Some (traffic_end (set_finish w))
      else do {
        (uc1, w1) \<leftarrow> (if \<not> uc_retry uc then
             if uc_id uc = 2147483647 then None
             else do {
               w1 \<leftarrow> store_buffer (be32 (of_int (uc_id uc + 1))) w;
               Some (uc\<lparr>uc_id := uc_id uc + 1, uc_delay := 1\<rparr>, w1)
             }
           else Some (uc, w));
        b \<leftarrow> buffer (ctrl w1);
        block \<leftarrow> load_block b 0 (unat (buffer_len (ctrl w1)));
        if io_sent a \<noteq> int (unat (buffer_len (ctrl w1))) then
          if io_enomem a
          then Some (goto (Tr_udp_client (uc1\<lparr>uc_retry := True,
                 uc_delay := if uc_delay uc1 < IPERF_MAX_DELAY then push_bit 1 (uc_delay uc1) else uc_delay uc1\<rparr>)) w1)
          else Some (traffic_end (set_finish w1))
        else Some (goto (Tr_udp_client (uc1\<lparr>uc_retry := False\<rparr>))
               (add_total (unat (buffer_len (ctrl w1))) (w1\<lparr>wire := wire w1 @ [block]\<rparr>)))
      })"

definition iperf_udp_server_round :: "io_answers \<Rightarrow> bool \<Rightarrow> iperf \<Rightarrow> iperf option" where
  "iperf_udp_server_round a udp_recv_start w =
     (if finish (ctrl w) then Some (traffic_end (set_finish w))
      else case io_recv a of
        None \<Rightarrow> Some w
      | Some data \<Rightarrow> do {
          w1 \<leftarrow> store_buffer data w;
          let w2 = (if udp_recv_start then iperf_start_report (io_report a) w1 else w1);
          Some (goto (Tr_udp_server False) (add_total (length data) w2))
        })"

definition iperf_tcp_client_round :: "io_answers \<Rightarrow> iperf \<Rightarrow> iperf option" where
  "iperf_tcp_client_round a w =
     (if finish (ctrl w) then Some (traffic_end (set_finish w))
      else do {
        b \<leftarrow> buffer (ctrl w);
        block \<leftarrow> load_block b 0 (unat (buffer_len (ctrl w)));
        if io_sent a \<le> 0 then Some (traffic_end (set_finish w))
        else Some (add_total (nat (io_sent a)) (w\<lparr>wire := wire w @ [take (nat (io_sent a)) block]\<rparr>))
      })"

text \<open>The outer and the inner loop of the TCP server.\<close>

definition iperf_tcp_server_accept :: "io_answers \<Rightarrow> iperf \<Rightarrow> iperf option" where
  "iperf_tcp_server_accept a w =
     (if finish (ctrl w) then Some (traffic_end (set_finish w))
      else if \<not> io_accept a then Some (traffic_end w)
      else Some (goto Tr_tcp_recv (iperf_start_report (io_report a) w)))"

definition iperf_tcp_server_recv :: "io_answers \<Rightarrow> iperf \<Rightarrow> iperf option" where
  "iperf_tcp_server_recv a w =
     (if finish (ctrl w) then Some (goto Tr_tcp_accept w)
      else case io_recv a of
        None \<Rightarrow> Some (goto Tr_tcp_accept (set_finish w))
      | Some data \<Rightarrow> do {
          w1 \<leftarrow> store_buffer data w;
          Some (add_total (length data) w1)
        })"

definition iperf_task_traffic :: "io_answers \<Rightarrow> traffic_pc \<Rightarrow> iperf \<Rightarrow> iperf option" where
  "iperf_task_traffic a pc w = (case pc of
     Tr_start \<Rightarrow> Some (iperf_traffic_begin a w)
   | Tr_udp_client uc \<Rightarrow> iperf_udp_client_round a uc w
   | Tr_udp_server b \<Rightarrow> iperf_udp_server_round a b w
   | Tr_tcp_client \<Rightarrow> iperf_tcp_client_round a w
   | Tr_tcp_accept \<Rightarrow> iperf_tcp_server_accept a w
   | Tr_tcp_recv \<Rightarrow> iperf_tcp_server_recv a w)"

section \<open>The system\<close>

inductive iperf_step :: "iperf \<Rightarrow> iperf \<Rightarrow> bool" where
  start: "iperf_start m t c w = (r, w1) \<Longrightarrow> iperf_step w w1"
| stop: "iperf_step w (iperf_stop w)"
| traffic: "traffic w = Some pc \<Longrightarrow> iperf_task_traffic a pc w = Some w1 \<Longrightarrow> iperf_step w w1"
| report: "k < length (reports w) \<Longrightarrow> iperf_step w (iperf_report_task k w)"

inductive iperf_steps :: "iperf \<Rightarrow> iperf \<Rightarrow> bool" where
  refl: "iperf_steps w w"
| step: "iperf_steps w w1 \<Longrightarrow> iperf_step w1 w2 \<Longrightarrow> iperf_steps w w2"

text \<open>C38: A start that fails because there is no memory, or no task, blocks the test for good: whatever happens
  afterwards, the flag that it runs stays set although there is no traffic task, so that \<^verbatim>\<open>iperf_stop\<close> waits for
  ever and every other start is refused.\<close>

theorem iperf_failed_start_blocks:
  assumes "\<not> is_running w" "traffic w = None" "iperf_start malloc_ok task_ok (Some c) w = (False, w1)"
    "iperf_steps w1 w2"
  shows "is_running w2 \<and> traffic w2 = None \<and> iperf_start m t config w2 = (False, w2)"
proof -
  have "is_running w1 \<and> traffic w1 = None"
    using assms(1-3) by (auto simp: iperf_start_def Let_def split: if_splits)
  moreover from assms(4) this have "is_running w2 \<and> traffic w2 = None"
  proof induction
    case (step w w1 w2)
    then have w1: "is_running w1 \<and> traffic w1 = None" by blast
    from step(2) show ?case
    proof cases
      case (start m t c r)
      then show ?thesis using w1 by (auto simp: iperf_start_def split: option.splits)
    next
      case (report k)
      then show ?thesis
        using w1 by (auto simp: iperf_report_task_def iperf_report_round_def report_end_def set_finish_def
            Let_def split: prod.splits if_splits)
    qed (use w1 in \<open>auto simp: iperf_stop_def set_finish_def\<close>)
  qed
  ultimately show ?thesis by (auto simp: iperf_start_def split: option.splits)
qed

definition demo_iperf :: iperf where
  "demo_iperf = \<lparr>is_running = False,
     ctrl = \<lparr>cfg = \<lparr>cfg_flag = 9, cfg_dip = 0, cfg_sip = 0, cfg_dport = 5001, cfg_sport = 5001,
       cfg_interval = 3, cfg_time = 30\<rparr>, finish = False, total_len = 0, buffer_len = 0, buffer = None\<rparr>,
     traffic = None, reports = [], printed = [], wire = []\<rparr>"

theorem iperf_failed_start_blocks_witness:
  "is_running (iperf_stop (snd (iperf_start False True (Some (cfg (ctrl demo_iperf))) demo_iperf)))"
proof -
  let ?w1 = "snd (iperf_start False True (Some (cfg (ctrl demo_iperf))) demo_iperf)"
  have "iperf_start False True (Some (cfg (ctrl demo_iperf))) demo_iperf = (False, ?w1)"
    by (simp add: iperf_start_def demo_iperf_def Let_def)
  moreover have "iperf_steps ?w1 (iperf_stop ?w1)" by (blast intro: iperf_steps.intros iperf_step.stop)
  ultimately show ?thesis
    using iperf_failed_start_blocks [of demo_iperf False True "cfg (ctrl demo_iperf)" ?w1 "iperf_stop ?w1"]
    by (simp add: demo_iperf_def)
qed



section \<open>The UDP client\<close>

text \<open>The rounds of the traffic task.\<close>

fun traffic_run :: "io_answers list \<Rightarrow> iperf \<Rightarrow> iperf option" where
  "traffic_run [] w = Some w"
| "traffic_run (a # as) w = (case traffic w of
     None \<Rightarrow> Some w
   | Some pc \<Rightarrow> do {
       w1 \<leftarrow> iperf_task_traffic a pc w;
       traffic_run as w1
     })"

lemma length_be32 [simp]: "length (be32 v) = 4"
  by (simp add: be32_def)

text \<open>The numbers \<open>1\<close> to \<open>n\<close> have been sent; in a retry the next one is in the buffer.\<close>

definition delays :: "u32 list" where "delays = [1, 2, 4, 8, 16, 32, 64]"

definition sent_upto :: "nat \<Rightarrow> nat \<Rightarrow> iperf \<Rightarrow> bool" where
  "sent_upto len n w \<longleftrightarrow> map (take 4) (wire w) = map (\<lambda>k. be32 (of_nat k)) [1..<Suc n] \<and>
     list_all (\<lambda>d. length d = len) (wire w) \<and> total_len (ctrl w) = of_nat (n * len)"

definition client_inv :: "nat \<Rightarrow> nat \<Rightarrow> udp_client \<Rightarrow> iperf \<Rightarrow> bool" where
  "client_inv len n uc w \<longleftrightarrow> sent_upto len n w \<and> 4 \<le> len \<and> unat (buffer_len (ctrl w)) = len \<and>
     (\<exists>b. buffer (ctrl w) = Some b \<and> length b = len \<and> (uc_retry uc \<longrightarrow> take 4 b = be32 (of_nat (Suc n)))) \<and>
     uc_id uc = int (if uc_retry uc then Suc n else n) \<and> uc_delay uc \<in> set delays"

lemma client_send:
  assumes "sent_upto len n w" "4 \<le> len" "unat (buffer_len (ctrl w)) = len" "buffer (ctrl w) = Some b"
    "length b = len" "take 4 b = be32 (of_nat (Suc n))" "uc_id uc = int (Suc n)" "uc_delay uc \<in> set delays"
  shows "client_inv len (Suc n) (uc\<lparr>uc_retry := False\<rparr>) (goto (Tr_udp_client (uc\<lparr>uc_retry := False\<rparr>))
    (add_total (unat (buffer_len (ctrl w))) (w\<lparr>wire := wire w @ [b]\<rparr>)))"
  using assms by (auto simp: client_inv_def sent_upto_def goto_def add_total_def algebra_simps)

text \<open>The packet of a round: a new number unless it is a retry.\<close>

lemma client_pick:
  assumes "client_inv len n uc w" "n < 2147483647"
  shows "\<exists>uc1 b w1. (if \<not> uc_retry uc then
             if uc_id uc = 2147483647 then None
             else do {
               w1 \<leftarrow> store_buffer (be32 (of_int (uc_id uc + 1))) w;
               Some (uc\<lparr>uc_id := uc_id uc + 1, uc_delay := 1\<rparr>, w1)
             }
           else Some (uc, w)) = Some (uc1, w1) \<and>
    sent_upto len n w1 \<and> 4 \<le> len \<and> unat (buffer_len (ctrl w1)) = len \<and> buffer (ctrl w1) = Some b \<and>
    length b = len \<and> take 4 b = be32 (of_nat (Suc n)) \<and> uc_id uc1 = int (Suc n) \<and> uc_delay uc1 \<in> set delays"
proof (cases "uc_retry uc")
  case True
  then show ?thesis using assms(1) by (auto simp: client_inv_def)
next
  case False
  obtain b where b: "buffer (ctrl w) = Some b" "length b = len" "4 \<le> len" "uc_id uc = int n"
    using assms(1) False by (auto simp: client_inv_def)
  let ?b = "be32 (of_nat (Suc n)) @ drop 4 b"
  have "store_buffer (be32 (of_int (uc_id uc + 1))) w = Some (w\<lparr>ctrl := (ctrl w)\<lparr>buffer := Some ?b\<rparr>\<rparr>)"
    using b by (simp add: store_buffer_def store_block_def add.commute)
  then show ?thesis
    using False assms b by (auto simp: client_inv_def sent_upto_def delays_def)
qed

lemma client_round:
  assumes "client_inv len n uc w" "n < 2147483647"
  shows "\<exists>w1. iperf_udp_client_round a uc w = Some w1 \<and>
    (\<exists>m \<le> Suc n. sent_upto len m w1 \<and> (traffic w1 = None \<or> (\<exists>uc1. traffic w1 = Some (Tr_udp_client uc1) \<and> client_inv len m uc1 w1)))"
proof (cases "finish (ctrl w)")
  case True
  then show ?thesis
    using assms(1) by (auto simp: iperf_udp_client_round_def traffic_end_def set_finish_def client_inv_def
        sent_upto_def intro!: exI [of _ n])
next
  case False
  obtain uc1 b1 w1 where pick: "(if \<not> uc_retry uc then
             if uc_id uc = 2147483647 then None
             else do {
               w1 \<leftarrow> store_buffer (be32 (of_int (uc_id uc + 1))) w;
               Some (uc\<lparr>uc_id := uc_id uc + 1, uc_delay := 1\<rparr>, w1)
             }
           else Some (uc, w)) = Some (uc1, w1)"
    and i: "sent_upto len n w1" "4 \<le> len" "unat (buffer_len (ctrl w1)) = len" "buffer (ctrl w1) = Some b1"
    "length b1 = len" "take 4 b1 = be32 (of_nat (Suc n))" "uc_id uc1 = int (Suc n)" "uc_delay uc1 \<in> set delays"
    using client_pick [OF assms] by blast
  have len: "uint (buffer_len (ctrl w1)) = int len" using i(3) by auto
  have run: "iperf_udp_client_round a uc w =
     (if io_sent a \<noteq> int len then
          if io_enomem a
          then Some (goto (Tr_udp_client (uc1\<lparr>uc_retry := True,
                 uc_delay := if uc_delay uc1 < IPERF_MAX_DELAY then push_bit 1 (uc_delay uc1) else uc_delay uc1\<rparr>)) w1)
          else Some (traffic_end (set_finish w1))
        else Some (goto (Tr_udp_client (uc1\<lparr>uc_retry := False\<rparr>))
               (add_total (unat (buffer_len (ctrl w1))) (w1\<lparr>wire := wire w1 @ [b1]\<rparr>))))"
    unfolding iperf_udp_client_round_def pick using False i len by (simp add: load_block_def)
  consider (sent) "io_sent a = int len" | (retry) "io_sent a \<noteq> int len" "io_enomem a"
    | (abort) "io_sent a \<noteq> int len" "\<not> io_enomem a" by blast
  then show ?thesis
  proof cases
    case sent
    let ?w2 = "goto (Tr_udp_client (uc1\<lparr>uc_retry := False\<rparr>))
               (add_total (unat (buffer_len (ctrl w1))) (w1\<lparr>wire := wire w1 @ [b1]\<rparr>))"
    have "client_inv len (Suc n) (uc1\<lparr>uc_retry := False\<rparr>) ?w2" by (rule client_send [OF i])
    then show ?thesis
      unfolding run using sent
      by (intro exI [of _ ?w2]) (auto simp: goto_def client_inv_def intro!: exI [of _ "Suc n"])
  next
    case retry
    let ?d = "if uc_delay uc1 < IPERF_MAX_DELAY then push_bit 1 (uc_delay uc1) else uc_delay uc1"
    have "?d \<in> set delays" using i(8) by (auto simp: delays_def IPERF_MAX_DELAY_def)
    then have "client_inv len n (uc1\<lparr>uc_retry := True, uc_delay := ?d\<rparr>)
        (goto (Tr_udp_client (uc1\<lparr>uc_retry := True, uc_delay := ?d\<rparr>)) w1)"
      using i by (simp add: client_inv_def goto_def sent_upto_def)
    then show ?thesis
      unfolding run using retry
      by (auto simp: goto_def client_inv_def intro!: exI [of _ n])
  next
    case abort
    then show ?thesis
      unfolding run using i(1)
      by (auto simp: traffic_end_def set_finish_def sent_upto_def intro!: exI [of _ n])
  qed
qed

lemma client_run:
  assumes "client_inv len n uc w" "traffic w = Some (Tr_udp_client uc)" "n + length as \<le> 2147483647"
  shows "\<exists>w1 m. traffic_run as w = Some w1 \<and> sent_upto len m w1 \<and>
    (\<forall>uc1. traffic w1 = Some (Tr_udp_client uc1) \<longrightarrow> uc_delay uc1 \<in> set delays)"
  using assms
proof (induction as arbitrary: n uc w)
  case Nil
  then show ?case by (auto simp: client_inv_def)
next
  case (Cons a as)
  obtain w1 m where w1: "iperf_udp_client_round a uc w = Some w1" "m \<le> Suc n" "sent_upto len m w1"
    "traffic w1 = None \<or> (\<exists>uc1. traffic w1 = Some (Tr_udp_client uc1) \<and> client_inv len m uc1 w1)"
    using client_round [OF Cons.prems(1), of a] Cons.prems(3) by auto
  show ?case
  proof (cases "traffic w1")
    case None
    then have "traffic_run as w1 = Some w1" by (cases as) auto
    then show ?thesis using w1 None Cons.prems(2) by (auto simp: iperf_task_traffic_def)
  next
    case (Some pc)
    then obtain uc1 where "traffic w1 = Some (Tr_udp_client uc1)" "client_inv len m uc1 w1" using w1(4) by auto
    from Cons.IH [OF this(2,1)] w1(1,2) Cons.prems(2,3) show ?thesis
      by (auto simp: iperf_task_traffic_def)
  qed
qed

text \<open>C28: The UDP client numbers its packets without gaps and repetitions: after any number of rounds below the
  limit of \<open>int\<close>, with any mixture of packets sent, packets refused for lack of memory and errors, the packets that
  went out have the numbers 1, 2, 3 and so on, all have the length of the buffer, the total is the sum of
  their lengths, and the delay between two attempts is a power of two of at most 64 ticks.\<close>

theorem iperf_udp_client_numbers:
  assumes "traffic w = Some (Tr_udp_client \<lparr>uc_id = 0, uc_retry = False, uc_delay = 1\<rparr>)" "wire w = []"
    "total_len (ctrl w) = 0" "buffer (ctrl w) = Some b" "length b = unat (buffer_len (ctrl w))" "4 \<le> length b"
    "length as \<le> 2147483647"
  shows "\<exists>w1. traffic_run as w = Some w1 \<and>
    map (take 4) (wire w1) = map (\<lambda>k. be32 (of_nat k)) [1..<Suc (length (wire w1))] \<and>
    list_all (\<lambda>d. length d = length b) (wire w1) \<and>
    total_len (ctrl w1) = of_nat (length (wire w1) * length b) \<and>
    (\<forall>uc. traffic w1 = Some (Tr_udp_client uc) \<longrightarrow> uc_delay uc \<in> set [1, 2, 4, 8, 16, 32, 64])"
proof -
  have "client_inv (length b) 0 \<lparr>uc_id = 0, uc_retry = False, uc_delay = 1\<rparr> w"
    using assms by (simp add: client_inv_def sent_upto_def delays_def)
  from client_run [OF this assms(1), of as] assms(7)
  obtain w1 m where w1: "traffic_run as w = Some w1" "sent_upto (length b) m w1"
    "\<forall>uc1. traffic w1 = Some (Tr_udp_client uc1) \<longrightarrow> uc_delay uc1 \<in> set delays" by auto
  have "length (wire w1) = m"
  proof -
    have "length (map (take 4) (wire w1)) = length (map (\<lambda>k. be32 (of_nat k)) [1..<Suc m])"
      using w1(2) unfolding sent_upto_def by metis
    then show ?thesis by simp
  qed
  then show ?thesis
    using w1 unfolding sent_upto_def delays_def by blast
qed

text \<open>Three rounds: a packet that is sent, one that is refused for lack of memory, and its second attempt.\<close>

definition demo_answers :: "int \<Rightarrow> io_answers" where
  "demo_answers n = \<lparr>io_socket = True, io_bind = True, io_listen = True, io_accept = True, io_connect = True,
     io_report = True, io_sent = n, io_enomem = True, io_recv = None\<rparr>"

theorem iperf_udp_client_numbers_witness:
  "\<exists>w1. traffic_run [demo_answers 1472, demo_answers (- 1), demo_answers 1472]
      (goto (Tr_udp_client \<lparr>uc_id = 0, uc_retry = False, uc_delay = 1\<rparr>)
        (snd (iperf_start True True (Some (cfg (ctrl demo_iperf))) demo_iperf))) = Some w1 \<and>
    map (take 4) (wire w1) = map (\<lambda>k. be32 (of_nat k)) [1..<Suc (length (wire w1))] \<and>
    list_all (\<lambda>d. length d = 1472) (wire w1) \<and>
    total_len (ctrl w1) = of_nat (length (wire w1) * 1472)"
proof -
  let ?w = "goto (Tr_udp_client \<lparr>uc_id = 0, uc_retry = False, uc_delay = 1\<rparr>)
    (snd (iperf_start True True (Some (cfg (ctrl demo_iperf))) demo_iperf))"
  have w: "traffic ?w = Some (Tr_udp_client \<lparr>uc_id = 0, uc_retry = False, uc_delay = 1\<rparr>)" "wire ?w = []"
    "total_len (ctrl ?w) = 0" "buffer (ctrl ?w) = Some (replicate 1472 0)" "unat (buffer_len (ctrl ?w)) = 1472"
    by (simp_all add: goto_def iperf_start_def demo_iperf_def Let_def iperf_get_buffer_len_def iperf_is_udp_client_def
        has_flag_def IPERF_FLAG_CLIENT_def IPERF_FLAG_UDP_def IPERF_UDP_TX_LEN_def)
  from iperf_udp_client_numbers [OF w(1-4), of "[demo_answers 1472, demo_answers (- 1), demo_answers 1472]"] w(5)
  show ?thesis unfolding length_replicate by auto
qed

section \<open>Safety of the traffic task\<close>

text \<open>While there is a traffic task, its buffer is there with the length that the roles use; without one, there is
  no buffer.\<close>

definition buffer_ok :: "iperf \<Rightarrow> bool" where
  "buffer_ok w \<longleftrightarrow> (case buffer (ctrl w) of
     None \<Rightarrow> traffic w = None
   | Some b \<Rightarrow> traffic w \<noteq> None \<and> is_running w \<and> length b = unat (buffer_len (ctrl w)) \<and> 4 \<le> length b)"

lemma buffer_ok_simps [simp]:
  "buffer_ok (set_finish w) = buffer_ok w"
  "buffer_ok (iperf_start_report ok w) = buffer_ok w"
  "buffer_ok (add_total n w) = buffer_ok w"
  "buffer_ok (w\<lparr>wire := d\<rparr>) = buffer_ok w"
  "buffer_ok (w\<lparr>reports := rs\<rparr>) = buffer_ok w"
  "buffer_ok (w\<lparr>printed := ps\<rparr>) = buffer_ok w"
  "buffer_ok (traffic_end w)"
  "traffic w \<noteq> None \<Longrightarrow> buffer_ok (goto pc w) = buffer_ok w"
  by (simp_all add: buffer_ok_def set_finish_def iperf_start_report_def add_total_def goto_def traffic_end_def
      split: option.splits)

lemma kept_simps [simp]:
  "traffic (set_finish w) = traffic w" "traffic (iperf_start_report ok w) = traffic w"
  "traffic (add_total n w) = traffic w"
  by (simp_all add: set_finish_def iperf_start_report_def add_total_def)

lemma store_buffer_ok:
  assumes "buffer_ok w" "store_buffer d w = Some w1"
  shows "buffer_ok w1 \<and> traffic w1 = traffic w"
  using assms by (auto simp: store_buffer_def store_block_def buffer_ok_def split: bind_splits if_splits option.splits)

lemma start_buffer_ok:
  assumes "buffer_ok w" "iperf_start m t c w = (r, w1)"
  shows "buffer_ok w1"
proof -
  have "4 \<le> unat (iperf_get_buffer_len x)" for x
    by (simp add: iperf_get_buffer_len_def IPERF_UDP_TX_LEN_def IPERF_UDP_RX_LEN_def IPERF_TCP_TX_LEN_def IPERF_TCP_RX_LEN_def)
  then show ?thesis
    using assms by (auto simp: iperf_start_def buffer_ok_def Let_def split: option.splits if_splits)
qed

lemma report_buffer_ok: "buffer_ok w \<Longrightarrow> buffer_ok (iperf_report_task k w)"
  by (auto simp: iperf_report_task_def iperf_report_round_def report_end_def Let_def split: option.splits)

lemma traffic_buffer_ok:
  assumes "buffer_ok w" "traffic w = Some pc" "iperf_task_traffic a pc w = Some w1"
  shows "buffer_ok w1"
proof (cases pc)
  case Tr_start
  then show ?thesis
    using assms by (auto simp: iperf_task_traffic_def traffic_begin_defs Let_def)
next
  case (Tr_udp_client uc)
  then show ?thesis
    using assms store_buffer_ok [OF assms(1)]
    by (auto simp: iperf_task_traffic_def iperf_udp_client_round_def split: bind_splits if_splits)
next
  case (Tr_udp_server b)
  then show ?thesis
    using assms store_buffer_ok [OF assms(1)]
    by (auto simp: iperf_task_traffic_def iperf_udp_server_round_def Let_def split: bind_splits if_splits option.splits)
next
  case Tr_tcp_client
  then show ?thesis
    using assms by (auto simp: iperf_task_traffic_def iperf_tcp_client_round_def split: bind_splits if_splits)
next
  case Tr_tcp_accept
  then show ?thesis
    using assms by (auto simp: iperf_task_traffic_def iperf_tcp_server_accept_def split: if_splits)
next
  case Tr_tcp_recv
  then show ?thesis
    using assms store_buffer_ok [OF assms(1)]
    by (auto simp: iperf_task_traffic_def iperf_tcp_server_recv_def split: bind_splits if_splits option.splits)
qed

lemma steps_buffer_ok:
  assumes "iperf_steps w w1" "buffer_ok w"
  shows "buffer_ok w1"
  using assms
proof induction
  case (step w w1 w2)
  then have "buffer_ok w1" by blast
  with step(2) show ?case
    by cases (auto intro: start_buffer_ok traffic_buffer_ok report_buffer_ok simp: iperf_stop_def)
qed

text \<open>What the sockets promise: they do not store more bytes than asked for. The number of a packet is below the
  limit of \<^verbatim>\<open>int\<close>.\<close>

definition io_fits :: "io_answers \<Rightarrow> traffic_pc \<Rightarrow> iperf \<Rightarrow> bool" where
  "io_fits a pc w \<longleftrightarrow> (case io_recv a of None \<Rightarrow> True | Some d \<Rightarrow> length d \<le> unat (buffer_len (ctrl w))) \<and>
     (case pc of Tr_udp_client uc \<Rightarrow> uc_id uc < 2147483647 | _ \<Rightarrow> True)"

text \<open>C9: No sequence of starts, failed or not, stops, reports and rounds of the traffic task leads to a state in which
  the traffic task uses a buffer that is missing, freed or too short: in every state that is reached, the next round of
  the task is defined if the sockets keep their promise.\<close>

theorem iperf_traffic_safe:
  assumes "\<not> is_running w" "traffic w = None" "buffer (ctrl w) = None" "iperf_steps w w1"
    "traffic w1 = Some pc" "io_fits a pc w1"
  shows "iperf_task_traffic a pc w1 \<noteq> None"
proof -
  have "buffer_ok w" using assms(2,3) by (simp add: buffer_ok_def)
  with steps_buffer_ok [OF assms(4)] have "buffer_ok w1" .
  then obtain b where b: "buffer (ctrl w1) = Some b" "length b = unat (buffer_len (ctrl w1))" "4 \<le> length b"
    using assms(5) by (auto simp: buffer_ok_def split: option.splits)
  have s: "\<exists>w2. store_buffer d w1 = Some w2 \<and> (\<exists>b2. buffer (ctrl w2) = Some b2 \<and> length b2 = length b) \<and>
      buffer_len (ctrl w2) = buffer_len (ctrl w1)" if "length d \<le> length b" for d
    using that b by (auto simp: store_buffer_def store_block_def)
  show ?thesis
  proof (cases pc)
    case (Tr_udp_client uc)
    obtain w2 b2 where "store_buffer (be32 (of_int (uc_id uc + 1))) w1 = Some w2" "buffer (ctrl w2) = Some b2"
      "length b2 = length b" "buffer_len (ctrl w2) = buffer_len (ctrl w1)"
      using s [of "be32 (of_int (uc_id uc + 1))"] b(3) by auto
    then show ?thesis
      using Tr_udp_client assms(6) b
      by (auto simp: io_fits_def iperf_task_traffic_def iperf_udp_client_round_def load_block_def)
  next
    case (Tr_udp_server c)
    then show ?thesis
      using assms(6) b s
      by (fastforce simp: io_fits_def iperf_task_traffic_def iperf_udp_server_round_def Let_def split: option.splits)
  next
    case Tr_tcp_recv
    then show ?thesis
      using assms(6) b s
      by (fastforce simp: io_fits_def iperf_task_traffic_def iperf_tcp_server_recv_def split: option.splits)
  qed (use b in \<open>auto simp: iperf_task_traffic_def iperf_tcp_client_round_def iperf_tcp_server_accept_def load_block_def\<close>)
qed

theorem iperf_traffic_safe_witness:
  "iperf_task_traffic (demo_answers 1472) Tr_start
     (snd (iperf_start True True (Some (cfg (ctrl demo_iperf))) demo_iperf)) \<noteq> None"
proof -
  let ?s = "iperf_start True True (Some (cfg (ctrl demo_iperf))) demo_iperf"
  have "iperf_step demo_iperf (snd ?s)" by (rule iperf_step.start [where r = "fst ?s"]) (rule prod.collapse [symmetric])
  then have "iperf_steps demo_iperf (snd ?s)" by (blast intro: iperf_steps.intros)
  moreover have "traffic (snd ?s) = Some Tr_start" by (simp add: iperf_start_def demo_iperf_def Let_def)
  ultimately show ?thesis
    by (rule iperf_traffic_safe [rotated 3]) (simp_all add: demo_iperf_def io_fits_def demo_answers_def)
qed

section \<open>Reports of an earlier test\<close>

text \<open>A report task that sleeps while its test is stopped and another one started continues with the totals of the
  new test, and ends the new test when its own time is over.\<close>

theorem iperf_stale_report:
  assumes "reports w = [r]" "rp_time r \<le> rp_cur r + rp_interval r" "traffic w = Some pc" "is_running w"
    "iperf_task_traffic a pc (iperf_stop w) = Some w1" "\<not> is_running w1" "reports w1 = [r]"
    "iperf_start True True (Some c) w1 = (True, w2)"
  shows "iperf_steps w (iperf_report_task 0 w2) \<and> \<not> finish (ctrl w2) \<and> finish (ctrl (iperf_report_task 0 w2)) \<and>
    cfg (ctrl (iperf_report_task 0 w2)) = c"
proof -
  have "iperf_step w (iperf_stop w)" by (rule iperf_step.stop)
  moreover have "iperf_step (iperf_stop w) w1"
    using assms(3,5) by (intro iperf_step.traffic) (simp_all add: iperf_stop_def)
  moreover have "iperf_step w1 w2" using assms(8) by (rule iperf_step.start)
  moreover have w2: "reports w2 = [r]" "\<not> finish (ctrl w2)" "cfg (ctrl w2) = c"
    using assms(6,7,8) by (auto simp: iperf_start_def Let_def)
  moreover have "iperf_step w2 (iperf_report_task 0 w2)" using w2 by (intro iperf_step.report) simp
  ultimately have "iperf_steps w (iperf_report_task 0 w2)"
    by (meson iperf_steps.refl iperf_steps.step)
  then show ?thesis
    using assms(2) w2
    by (simp add: iperf_report_task_def iperf_report_round_def report_end_def set_finish_def Let_def)
qed

end
