(* ===== verification/Nano_Console.thy ===== *)
theory Nano_Console
  imports Mdns_Prelude
begin

text \<open>
  The console of the factory test, \<^verbatim>\<open>nano_console.c\<close> of \<^verbatim>\<open>examples/system/factory-test/components/rf_test\<close>: a
  line editor that takes one character at a time, splits the line into words in place and calls the command with the
  name of the first word. The characters are the input; whether a call of \<^verbatim>\<open>malloc\<close> succeeds is the next element of
  a script, and \<open>nc_live\<close> counts the blocks that are allocated. The commands themselves are parameters: a call is
  recorded with its arguments.
\<close>

section \<open>State\<close>

definition NC_READ_BUF :: nat where "NC_READ_BUF = 128"

record nc_cmd_t =
  nc_name :: cstring
  nc_func :: nat

record nano_console =
  nc_cmds :: "nc_cmd_t list"
  nc_buf :: "u8 list"
  nc_num :: nat
  nc_out :: "u8 list"
  nc_calls :: "(nat \<times> cstring option list) list"
  nc_script :: "bool list"
  nc_live :: nat

definition nc_malloc :: "nano_console \<Rightarrow> bool \<times> nano_console" where
  "nc_malloc w = (case nc_script w of
     [] \<Rightarrow> (True, w\<lparr>nc_live := nc_live w + 1\<rparr>)
   | ok # oks \<Rightarrow> (ok, w\<lparr>nc_script := oks, nc_live := (if ok then nc_live w + 1 else nc_live w)\<rparr>))"

definition nc_free :: "nat \<Rightarrow> nano_console \<Rightarrow> nano_console" where
  "nc_free n w = w\<lparr>nc_live := nc_live w - n\<rparr>"

section \<open>Commands and arguments\<close>

definition get_cmd :: "nano_console \<Rightarrow> u8 list \<Rightarrow> nc_cmd_t option option" where
  "get_cmd w buf =
     (if 0 \<notin> set buf then None else Some (find (\<lambda>it. nc_name it = cstr_of buf) (nc_cmds w)))"

text \<open>The table of arguments: the entry behind the number is a null pointer until the argument is copied.\<close>

definition free_args :: "cstring option list \<Rightarrow> nano_console \<Rightarrow> nano_console" where
  "free_args argv w = nc_free (1 + length (filter (\<lambda>a. a \<noteq> None) argv)) w"

text \<open>The copies of \<open>n\<close> strings, the first of them at offset \<open>p\<close>, into the entries from \<open>i\<close>.\<close>

fun copy_args ::
  "nat \<Rightarrow> nat \<Rightarrow> u8 list \<Rightarrow> nat \<Rightarrow> cstring option list \<Rightarrow> nano_console \<Rightarrow> (cstring option list option \<times> nano_console) option" where
  "copy_args 0 i buf p argv w = Some (Some argv, w)"
| "copy_args (Suc n) i buf p argv w =
     (if 0 \<notin> set (drop p buf) then None
      else let s = cstr_of (drop p buf); (ok, w1) = nc_malloc w
        in if \<not> ok then Some (None, free_args argv w1)
           else copy_args n (Suc i) buf (p + (length s + 1)) (argv[i := Some s]) w1)"

definition alloc_args :: "u8 list \<Rightarrow> nat \<Rightarrow> nano_console \<Rightarrow> (cstring option list option \<times> nano_console) option" where
  "alloc_args buf num w = do {
     p \<leftarrow> load_block buf 0 num;
     let cnt = length (filter (\<lambda>c. c = 0) p);
     let (ok, w1) = nc_malloc w;
     if \<not> ok then Some (None, w1) else copy_args cnt 0 buf 0 (replicate cnt None) w1
   }"

section \<open>The console thread\<close>

text \<open>\<open>NC_Ended\<close>: the thread has left its loop after an error of the input or output.\<close>

datatype nc_thread = NC_Running nano_console | NC_Ended nano_console

definition nc_io_err :: "nano_console \<Rightarrow> nc_thread" where
  "nc_io_err w = NC_Ended (nc_free 1 w)"

text \<open>The echo of characters, if it is configured; \<open>ok\<close> says whether the output takes them.\<close>

definition nc_echo :: "bool \<Rightarrow> bool \<Rightarrow> u8 list \<Rightarrow> nano_console \<Rightarrow> (nano_console \<Rightarrow> nc_thread option) \<Rightarrow> nc_thread option" where
  "nc_echo cfg ok s w rest =
     (if \<not> cfg then rest w
      else if \<not> ok then Some (nc_io_err w)
      else rest (w\<lparr>nc_out := nc_out w @ s\<rparr>))"

text \<open>A line: its end is marked; then the command is looked up, called with the arguments, and the arguments are
  freed.\<close>

definition nc_end_line :: "nano_console \<Rightarrow> nano_console option" where
  "nc_end_line w = do {
     last \<leftarrow> load8 (nc_buf w) (nc_num w - 1);
     if last \<noteq> 0 then do {
       b \<leftarrow> store8 (nc_buf w) (nc_num w) 0;
       Some (w\<lparr>nc_buf := b, nc_num := nc_num w + 1\<rparr>)
     } else Some w
   }"

definition nc_run_line :: "nano_console \<Rightarrow> nc_thread option" where
  "nc_run_line w1 = do {
     cmd \<leftarrow> get_cmd w1 (nc_buf w1);
     case cmd of
       None \<Rightarrow> Some (NC_Running (w1\<lparr>nc_num := 0\<rparr>))
     | Some cmd \<Rightarrow> do {
         (argv, w2) \<leftarrow> alloc_args (nc_buf w1) (nc_num w1) w1;
         case argv of
           None \<Rightarrow> Some (NC_Running (w2\<lparr>nc_num := 0\<rparr>))
         | Some argv \<Rightarrow>
             let w3 = w2\<lparr>nc_calls := nc_calls w2 @ [(nc_func cmd, argv)]\<rparr>
             in Some (NC_Running ((free_args argv w3)\<lparr>nc_num := 0\<rparr>))
       }
   }"

definition nc_line :: "nano_console \<Rightarrow> nc_thread option" where
  "nc_line w = do { w1 \<leftarrow> nc_end_line w; nc_run_line w1 }"

text \<open>One character. For a space the code looks at the byte behind the last one that was stored.\<close>

definition nc_char :: "bool \<Rightarrow> bool \<Rightarrow> u8 \<Rightarrow> nano_console \<Rightarrow> nc_thread option" where
  "nc_char cfg ok c w =
     (if nc_num w \<ge> NC_READ_BUF - 1 then Some (NC_Running (w\<lparr>nc_num := 0\<rparr>))
      else if c \<ge> 128 then Some (NC_Running w)
      else if c = 13 \<or> c = 10 then
        nc_echo cfg ok [c] w (\<lambda>w1. if nc_num w1 = 0 then Some (NC_Running w1) else nc_line w1)
      else if c = 32 then
        if nc_num w = 0 then Some (NC_Running w)
        else do {
          x \<leftarrow> load8 (nc_buf w) (nc_num w);
          if x = 32 then Some (NC_Running w)
          else do {
            b \<leftarrow> store8 (nc_buf w) (nc_num w) 0;
            nc_echo cfg ok [c] (w\<lparr>nc_buf := b, nc_num := nc_num w + 1\<rparr>) (\<lambda>w1. Some (NC_Running w1))
          }
        }
      else if c = 8 \<or> c = 127 then
        if nc_num w = 0 then Some (NC_Running w)
        else nc_echo cfg ok [c, 32, c] (w\<lparr>nc_num := nc_num w - 1\<rparr>) (\<lambda>w1. Some (NC_Running w1))
      else do {
        b \<leftarrow> store8 (nc_buf w) (nc_num w) c;
        nc_echo cfg ok [c] (w\<lparr>nc_buf := b, nc_num := nc_num w + 1\<rparr>) (\<lambda>w1. Some (NC_Running w1))
      })"

text \<open>The loop: a character with the answer of the output, or a failure to read. After the last character that is
  given the thread waits.\<close>

datatype nc_input = NC_read u8 bool | NC_read_error

fun nc_loop :: "bool \<Rightarrow> nc_input list \<Rightarrow> nano_console \<Rightarrow> nc_thread option" where
  "nc_loop cfg [] w = Some (NC_Running w)"
| "nc_loop cfg (NC_read_error # rs) w = Some (nc_io_err w)"
| "nc_loop cfg (NC_read c ok # rs) w = do {
     t \<leftarrow> nc_char cfg ok c w;
     case t of NC_Running w1 \<Rightarrow> nc_loop cfg rs w1 | NC_Ended w1 \<Rightarrow> Some (NC_Ended w1)
   }"

text \<open>The thread; the memory of its buffer holds \<open>junk\<close>.\<close>

definition nc_thread_entry :: "bool \<Rightarrow> u8 list \<Rightarrow> nc_input list \<Rightarrow> nano_console \<Rightarrow> nc_thread option" where
  "nc_thread_entry cfg junk rs w =
     (let (ok, w1) = nc_malloc w in
      if \<not> ok then Some (NC_Ended w1)
      else nc_loop cfg rs (w1\<lparr>nc_buf := take NC_READ_BUF (junk @ replicate NC_READ_BUF 0), nc_num := 0\<rparr>))"

text \<open>The interface: the results are those of the C functions, 12 is \<^verbatim>\<open>ENOMEM\<close>.\<close>

definition nc_init :: "int \<Rightarrow> int" where
  "nc_init pthread_create = (if pthread_create \<noteq> 0 then - 1 else 0)"

definition nc_register_cmd :: "cstring \<Rightarrow> nat \<Rightarrow> nano_console \<Rightarrow> int \<times> nano_console" where
  "nc_register_cmd name f w =
     (let (ok, w1) = nc_malloc w in
      if \<not> ok then (- 12, w1)
      else let (ok2, w2) = nc_malloc w1 in
        if \<not> ok2 then (- 12, nc_free 1 w2)
        else (0, w2\<lparr>nc_cmds := \<lparr>nc_name = name, nc_func = f\<rparr> # nc_cmds w2\<rparr>))"

text \<open>\<open>s\<close> is the formatted string, if there is memory for it, and \<open>n\<close> how many bytes of it the output takes.\<close>

definition nc_printf :: "cstring option \<Rightarrow> nat \<Rightarrow> nano_console \<Rightarrow> int \<times> nano_console" where
  "nc_printf s n w = (case s of
     None \<Rightarrow> (- 12, w)
   | Some s \<Rightarrow> (int (min n (length s)), w\<lparr>nc_out := nc_out w @ take n s\<rparr>))"

section \<open>Safety\<close>

definition nc_ok :: "nat \<Rightarrow> nano_console \<Rightarrow> bool" where
  "nc_ok live w \<longleftrightarrow> length (nc_buf w) = NC_READ_BUF \<and> nc_num w < NC_READ_BUF \<and> nc_live w = live + 1"

fun nc_thread_ok :: "nat \<Rightarrow> nc_thread \<Rightarrow> bool" where
  "nc_thread_ok live (NC_Running w) \<longleftrightarrow> nc_ok live w"
| "nc_thread_ok live (NC_Ended w) \<longleftrightarrow> nc_live w = live"

lemma nc_malloc_cases:
  obtains oks where "nc_malloc w = (True, w\<lparr>nc_script := oks, nc_live := nc_live w + 1\<rparr>)"
  | oks where "nc_malloc w = (False, w\<lparr>nc_script := oks\<rparr>)"
proof (cases "nc_script w")
  case Nil
  then have "w\<lparr>nc_live := nc_live w + 1\<rparr> = w\<lparr>nc_script := [], nc_live := nc_live w + 1\<rparr>" by simp
  then show ?thesis using that(1) [of "[]"] Nil by (simp add: nc_malloc_def)
next
  case (Cons a oks)
  then show ?thesis using that [of oks] by (cases a) (auto simp: nc_malloc_def)
qed

text \<open>A buffer with a zero is a string, the zero, and a rest.\<close>

lemma cstr_of_append [simp]: "0 \<notin> set s \<Longrightarrow> cstr_of (s @ 0 # r) = s"
  by (simp add: cstr_of_def takeWhile_append)

lemma zero_split:
  assumes "0 \<in> set b"
  obtains r where "b = cstr_of b @ 0 # r" "0 \<notin> set (cstr_of b)"
proof -
  obtain s r where "b = s @ 0 # r" "0 \<notin> set s" using split_list_first [OF assms] by blast
  then show thesis using that [of r] by simp
qed

abbreviation zeros :: "u8 list \<Rightarrow> nat" where
  "zeros b \<equiv> length (filter (\<lambda>c. c = 0) b)"

lemma zeros_behind:
  assumes "Suc n \<le> zeros b"
  shows "0 \<in> set b" "n \<le> zeros (drop (length (cstr_of b) + 1) b)"
proof -
  show z: "0 \<in> set b"
  proof (rule ccontr)
    assume "0 \<notin> set b"
    then have "filter (\<lambda>c. c = 0) b = []" by (auto simp: filter_empty_conv)
    then show False using assms by simp
  qed
  obtain r where r: "b = cstr_of b @ 0 # r" "0 \<notin> set (cstr_of b)" using zero_split [OF z] .
  have "filter (\<lambda>c. c = 0) (cstr_of b) = []" using r(2) by (auto simp: filter_empty_conv)
  then have "zeros b = Suc (zeros r)" by (subst r(1)) simp
  moreover have "drop (length (cstr_of b) + 1) b = r" by (subst (2) r(1)) simp
  ultimately show "n \<le> zeros (drop (length (cstr_of b) + 1) b)" using assms by simp
qed

text \<open>The result of copying the arguments: a table of \<open>n\<close> copies, or all memory is free again.\<close>

definition copied :: "nat \<Rightarrow> nat \<Rightarrow> cstring option list option \<Rightarrow> nano_console \<Rightarrow> bool" where
  "copied live n r w \<longleftrightarrow> (case r of
     None \<Rightarrow> nc_live w = live
   | Some argv \<Rightarrow> nc_live w = live + 1 + n \<and> (\<exists>ys. argv = map Some ys \<and> length ys = n))"

lemma copy_args_ok:
  assumes "n \<le> zeros (drop p buf)" "nc_live w = live + 1 + length xs"
  shows "\<exists>r w1. copy_args n (length xs) buf p (map Some xs @ replicate n None) w = Some (r, w1) \<and>
    nc_buf w1 = nc_buf w \<and> nc_num w1 = nc_num w \<and> copied live (length xs + n) r w1"
  using assms
proof (induction n arbitrary: p xs w)
  case 0
  then show ?case by (auto simp: copied_def)
next
  case (Suc n)
  note z = zeros_behind [OF Suc.prems(1)]
  define a where "a = cstr_of (drop p buf)"
  consider (ok) oks where "nc_malloc w = (True, w\<lparr>nc_script := oks, nc_live := nc_live w + 1\<rparr>)"
    | (fail) oks where "nc_malloc w = (False, w\<lparr>nc_script := oks\<rparr>)" by (rule nc_malloc_cases)
  then show ?case
  proof cases
    case ok
    let ?w = "w\<lparr>nc_script := oks, nc_live := nc_live w + 1\<rparr>"
    have "n \<le> zeros (drop (p + (length a + 1)) buf)" using z(2) by (simp add: a_def add.commute add.left_commute)
    from Suc.IH [OF this, of ?w "xs @ [a]"] Suc.prems(2) obtain r w1 where
      r: "copy_args n (Suc (length xs)) buf (p + (length a + 1)) (map Some (xs @ [a]) @ replicate n None) ?w = Some (r, w1)"
      "nc_buf w1 = nc_buf w" "nc_num w1 = nc_num w" "copied live (length xs + Suc n) r w1"
      by auto
    have "(map Some xs @ replicate (Suc n) None)[length xs := Some a] = map Some (xs @ [a]) @ replicate n None"
      by (simp add: list_update_append)
    then have "copy_args (Suc n) (length xs) buf p (map Some xs @ replicate (Suc n) None) w = Some (r, w1)"
      using r(1) z(1) ok by (simp add: a_def Let_def)
    then show ?thesis using r(2-4) by blast
  next
    case fail
    have "free_args (map Some xs @ replicate (Suc n) None) u = nc_free (1 + length xs) u" for u
      by (simp add: free_args_def filter_map comp_def)
    then show ?thesis using fail z(1) Suc.prems(2) by (simp add: nc_free_def copied_def)
  qed
qed

lemma alloc_args_ok:
  assumes "num \<le> length buf"
  shows "\<exists>r w1. alloc_args buf num w = Some (r, w1) \<and> nc_buf w1 = nc_buf w \<and> nc_num w1 = nc_num w \<and>
    copied (nc_live w) (zeros (take num buf)) r w1"
proof -
  let ?n = "zeros (take num buf)"
  have n: "?n \<le> zeros (drop 0 buf)"
    by (subst (2) append_take_drop_id [of num buf, symmetric]) (simp del: append_take_drop_id)
  consider (ok) oks where "nc_malloc w = (True, w\<lparr>nc_script := oks, nc_live := nc_live w + 1\<rparr>)"
    | (fail) oks where "nc_malloc w = (False, w\<lparr>nc_script := oks\<rparr>)" by (rule nc_malloc_cases)
  then show ?thesis
  proof cases
    case ok
    let ?w = "w\<lparr>nc_script := oks, nc_live := nc_live w + 1\<rparr>"
    obtain r w1 where r: "copy_args ?n 0 buf 0 (replicate ?n None) ?w = Some (r, w1)"
      "nc_buf w1 = nc_buf w" "nc_num w1 = nc_num w" "copied (nc_live w) ?n r w1"
      using copy_args_ok [OF n, of ?w "nc_live w" "[]"] by auto
    then show ?thesis
      using assms ok by (simp add: alloc_args_def load_block_def Let_def)
  qed (use assms in \<open>simp add: alloc_args_def load_block_def copied_def\<close>)
qed

lemma nc_end_line_Some:
  assumes "nc_num w < length (nc_buf w)"
  shows "nc_end_line w = Some (if nc_buf w ! (nc_num w - 1) \<noteq> 0
     then w\<lparr>nc_buf := (nc_buf w)[nc_num w := 0], nc_num := nc_num w + 1\<rparr> else w)"
proof -
  have "load8 (nc_buf w) (nc_num w - 1) = Some (nc_buf w ! (nc_num w - 1))"
    "store8 (nc_buf w) (nc_num w) 0 = Some ((nc_buf w)[nc_num w := 0])"
    using assms by (auto simp: load8_def store8_def)
  then show ?thesis by (simp add: nc_end_line_def)
qed

lemma nc_line_ok:
  assumes "nc_ok live w" "nc_num w < NC_READ_BUF - 1"
  shows "\<exists>w1. nc_line w = Some (NC_Running w1) \<and> nc_ok live w1"
proof -
  have n: "nc_num w < length (nc_buf w)" "nc_num w - 1 < length (nc_buf w)" using assms by (auto simp: nc_ok_def)
  define w1 where "w1 = (if nc_buf w ! (nc_num w - 1) \<noteq> 0
     then w\<lparr>nc_buf := (nc_buf w)[nc_num w := 0], nc_num := nc_num w + 1\<rparr> else w)"
  have e: "nc_end_line w = Some w1" using nc_end_line_Some [OF n(1)] by (simp add: w1_def)
  have z: "0 \<in> set (nc_buf w1)"
  proof (cases "nc_buf w ! (nc_num w - 1) = 0")
    case True
    then show ?thesis using nth_mem [OF n(2)] by (simp add: w1_def)
  qed (use n in \<open>simp add: w1_def set_update_memI\<close>)
  have w1: "nc_ok live w1" "nc_num w1 \<le> length (nc_buf w1)"
    using assms by (auto simp: w1_def nc_ok_def)
  obtain r w2 where r: "alloc_args (nc_buf w1) (nc_num w1) w1 = Some (r, w2)" "nc_buf w2 = nc_buf w1"
    "copied (nc_live w1) (zeros (take (nc_num w1) (nc_buf w1))) r w2"
    using alloc_args_ok [OF w1(2), of w1] by blast
  have f: "nc_live (free_args argv (w2\<lparr>nc_calls := c\<rparr>)) = nc_live w1" "nc_buf (free_args argv (w2\<lparr>nc_calls := c\<rparr>)) = nc_buf w2"
    if "r = Some argv" for argv c
    using r(3) that by (auto simp: free_args_def nc_free_def copied_def filter_map comp_def)
  have "\<exists>w3. nc_run_line w1 = Some (NC_Running w3) \<and> nc_ok live w3"
    using w1 z r f by (cases r) (auto simp: nc_run_line_def get_cmd_def nc_ok_def copied_def Let_def NC_READ_BUF_def split: option.splits)
  then show ?thesis by (simp add: nc_line_def e)
qed

lemma nc_echo_ok:
  assumes "nc_ok live w" "\<And>w1. nc_ok live w1 \<Longrightarrow> nc_buf w1 = nc_buf w \<Longrightarrow> nc_num w1 = nc_num w \<Longrightarrow>
      \<exists>t. rest w1 = Some t \<and> nc_thread_ok live t"
  shows "\<exists>t. nc_echo cfg ok s w rest = Some t \<and> nc_thread_ok live t"
proof -
  have "nc_ok live (w\<lparr>nc_out := nc_out w @ s\<rparr>)" using assms(1) by (simp add: nc_ok_def)
  from assms(2) [OF this] assms(2) [OF assms(1)] show ?thesis
    using assms(1) by (auto simp: nc_echo_def nc_io_err_def nc_free_def nc_ok_def)
qed

lemma nc_char_ok:
  assumes "nc_ok live w"
  shows "\<exists>t. nc_char cfg ok c w = Some t \<and> nc_thread_ok live t"
proof (cases "nc_num w \<ge> NC_READ_BUF - 1 \<or> c \<ge> 128")
  case True
  then show ?thesis using assms by (auto simp: nc_char_def nc_ok_def NC_READ_BUF_def)
next
  case False
  then have n: "nc_num w < NC_READ_BUF - 1" "nc_num w < length (nc_buf w)" "\<not> 128 \<le> c"
    using assms by (auto simp: nc_ok_def NC_READ_BUF_def)
  have st: "nc_ok live (w\<lparr>nc_buf := (nc_buf w)[nc_num w := x], nc_num := nc_num w + 1\<rparr>)" for x
    using assms n(1) by (simp add: nc_ok_def NC_READ_BUF_def)
  have bs: "nc_ok live (w\<lparr>nc_num := nc_num w - 1\<rparr>)" using assms by (auto simp: nc_ok_def NC_READ_BUF_def)
  have line: "\<exists>t. nc_echo cfg ok [c] w (\<lambda>w1. if nc_num w1 = 0 then Some (NC_Running w1) else nc_line w1) = Some t \<and>
      nc_thread_ok live t"
  proof (rule nc_echo_ok [OF assms])
    fix w1 assume w1: "nc_ok live w1" "nc_num w1 = nc_num w"
    then show "\<exists>t. (if nc_num w1 = 0 then Some (NC_Running w1) else nc_line w1) = Some t \<and> nc_thread_ok live t"
      using nc_line_ok [OF w1(1)] n(1) by (cases "nc_num w1 = 0") auto
  qed
  have run: "\<exists>t. nc_echo cfg ok s w1 (\<lambda>w1. Some (NC_Running w1)) = Some t \<and> nc_thread_ok live t"
    if "nc_ok live w1" for s w1
    using that by (intro nc_echo_ok) auto
  have st1: "store8 (nc_buf w) (nc_num w) x = Some ((nc_buf w)[nc_num w := x])" for x
    using n(2) by (simp add: store8_def)
  have ld: "load8 (nc_buf w) (nc_num w) = Some (nc_buf w ! nc_num w)" using n(2) by (simp add: load8_def)
  have char: "nc_char cfg ok c w =
     (if c = 13 \<or> c = 10 then nc_echo cfg ok [c] w (\<lambda>w1. if nc_num w1 = 0 then Some (NC_Running w1) else nc_line w1)
      else if c = 32 then
        if nc_num w = 0 \<or> nc_buf w ! nc_num w = 32 then Some (NC_Running w)
        else nc_echo cfg ok [c] (w\<lparr>nc_buf := (nc_buf w)[nc_num w := 0], nc_num := nc_num w + 1\<rparr>) (\<lambda>w1. Some (NC_Running w1))
      else if c = 8 \<or> c = 127 then
        if nc_num w = 0 then Some (NC_Running w)
        else nc_echo cfg ok [c, 32, c] (w\<lparr>nc_num := nc_num w - 1\<rparr>) (\<lambda>w1. Some (NC_Running w1))
      else nc_echo cfg ok [c] (w\<lparr>nc_buf := (nc_buf w)[nc_num w := c], nc_num := nc_num w + 1\<rparr>) (\<lambda>w1. Some (NC_Running w1)))"
    unfolding nc_char_def st1 ld using n(1,3) by simp
  have here: "\<exists>t. Some (NC_Running w) = Some t \<and> nc_thread_ok live t" using assms by simp
  show ?thesis
    unfolding char by (simp only: line run [OF st] run [OF bs] here split: if_split) simp
qed

lemma nc_loop_ok:
  assumes "nc_ok live w"
  shows "\<exists>t. nc_loop cfg rs w = Some t \<and> nc_thread_ok live t"
  using assms
proof (induction cfg rs w rule: nc_loop.induct)
  case (3 cfg c ok rs w)
  obtain t where t: "nc_char cfg ok c w = Some t" "nc_thread_ok live t" using nc_char_ok [OF 3(2)] by blast
  then show ?case using 3(1) by (cases t) auto
qed (auto simp: nc_io_err_def nc_free_def nc_ok_def)

text \<open>C23: For every input, every pattern of failures of the allocations and of the output, and whatever the memory of the
  buffer holds, the console never leaves its buffer or uses a string without an end, and loses no memory: while it
  waits, exactly its buffer is allocated, and nothing when it has ended.\<close>

theorem nc_console_safe:
  "\<exists>t. nc_thread_entry cfg junk rs w = Some t \<and>
    (case t of
       NC_Running w1 \<Rightarrow> length (nc_buf w1) = 128 \<and> nc_num w1 < 128 \<and> nc_live w1 = nc_live w + 1
     | NC_Ended w1 \<Rightarrow> nc_live w1 = nc_live w)"
proof -
  consider (ok) oks where "nc_malloc w = (True, w\<lparr>nc_script := oks, nc_live := nc_live w + 1\<rparr>)"
    | (fail) oks where "nc_malloc w = (False, w\<lparr>nc_script := oks\<rparr>)" by (rule nc_malloc_cases)
  then show ?thesis
  proof cases
    case ok
    let ?w = "w\<lparr>nc_script := oks, nc_live := nc_live w + 1, nc_buf := take NC_READ_BUF (junk @ replicate NC_READ_BUF 0), nc_num := 0\<rparr>"
    have "nc_ok (nc_live w) ?w" by (simp add: nc_ok_def NC_READ_BUF_def)
    from nc_loop_ok [OF this, of cfg rs] obtain t where "nc_loop cfg rs ?w = Some t" "nc_thread_ok (nc_live w) t" by blast
    then show ?thesis using ok by (cases t) (auto simp: nc_thread_entry_def nc_ok_def NC_READ_BUF_def)
  qed (simp add: nc_thread_entry_def)
qed

section \<open>Lines\<close>

text \<open>The buffer never holds a space, if its memory did not at the start.\<close>

definition no_space :: "nc_thread \<Rightarrow> bool" where
  "no_space t \<longleftrightarrow> (case t of NC_Running w \<Rightarrow> 32 \<notin> set (nc_buf w) | NC_Ended w \<Rightarrow> True)"

lemma no_space_update: "32 \<notin> set b \<Longrightarrow> c \<noteq> 32 \<Longrightarrow> 32 \<notin> set (b[i := c])"
  using set_update_subset_insert [of b i c] by auto

lemma nc_malloc_buf: "nc_malloc w = (ok, w1) \<Longrightarrow> nc_buf w1 = nc_buf w"
  by (auto simp: nc_malloc_def split: list.splits)

lemma free_args_buf [simp]: "nc_buf (free_args argv w) = nc_buf w"
  by (simp add: free_args_def nc_free_def)

lemma copy_args_buf: "copy_args n i buf p argv w = Some (r, w1) \<Longrightarrow> nc_buf w1 = nc_buf w"
proof (induction n i buf p argv w rule: copy_args.induct)
  case (2 n i buf p argv w)
  obtain ok w2 where m: "nc_malloc w = (ok, w2)" by fastforce
  then show ?case
    using 2 nc_malloc_buf [OF m] by (auto simp: Let_def split: if_splits)
qed simp

lemma alloc_args_buf: "alloc_args buf num w = Some (r, w1) \<Longrightarrow> nc_buf w1 = nc_buf w"
  by (auto simp: alloc_args_def Let_def split: bind_splits prod.splits if_splits dest!: nc_malloc_buf copy_args_buf)

lemma no_space_line:
  assumes "nc_line w = Some t" "32 \<notin> set (nc_buf w)"
  shows "no_space t"
proof -
  obtain w1 where w1: "nc_end_line w = Some w1" "nc_run_line w1 = Some t"
    using assms(1) by (auto simp: nc_line_def split: bind_splits)
  have "32 \<notin> set (nc_buf w1)"
    using w1(1) assms(2) by (auto simp: nc_end_line_def store8_Some_iff no_space_update split: bind_splits if_splits)
  then show ?thesis
    using w1(2) by (auto simp: nc_run_line_def no_space_def Let_def split: bind_splits option.splits dest!: alloc_args_buf)
qed

lemma no_space_char:
  assumes "nc_char cfg ok c w = Some t" "32 \<notin> set (nc_buf w)"
  shows "no_space t"
  using assms
  by (auto simp: nc_char_def nc_echo_def nc_io_err_def no_space_def store8_Some_iff no_space_update
      split: if_splits bind_splits dest!: no_space_line [unfolded no_space_def])

lemma no_space_loop:
  assumes "nc_loop cfg rs w = Some t" "32 \<notin> set (nc_buf w)"
  shows "no_space t"
  using assms
proof (induction cfg rs w rule: nc_loop.induct)
  case (3 cfg c ok rs w)
  obtain t1 where t1: "nc_char cfg ok c w = Some t1" using 3(2) by (auto split: bind_splits)
  then show ?case using 3 no_space_char [OF t1] by (cases t1) (auto simp: no_space_def)
qed (auto simp: no_space_def nc_io_err_def)

lemma nc_loop_append:
  "nc_loop cfg rs w = Some (NC_Running w1) \<Longrightarrow> nc_loop cfg (rs @ rs1) w = nc_loop cfg rs1 w1"
  by (induction cfg rs w rule: nc_loop.induct) (auto simp: nc_io_err_def split: bind_splits nc_thread.splits)

text \<open>Typing characters: what is in the buffer, with a zero for each space.\<close>

definition typed :: "u8 list \<Rightarrow> nano_console \<Rightarrow> nano_console \<Rightarrow> bool" where
  "typed s w0 w \<longleftrightarrow> length (nc_buf w) = NC_READ_BUF \<and> 32 \<notin> set (nc_buf w) \<and> nc_num w = length s \<and>
     take (length s) (nc_buf w) = map (\<lambda>c. if c = 32 then 0 else c) s \<and>
     nc_cmds w = nc_cmds w0 \<and> nc_calls w = nc_calls w0 \<and> nc_script w = nc_script w0"

definition plain :: "u8 \<Rightarrow> bool" where
  "plain c \<longleftrightarrow> 32 < c \<and> c < 127"

lemma type_char:
  assumes "typed s w0 w" "length s < NC_READ_BUF - 1" "plain c \<or> c = 32 \<and> s \<noteq> []"
  shows "\<exists>w1. nc_char cfg True c w = Some (NC_Running w1) \<and> typed (s @ [c]) w0 w1"
proof -
  let ?b = "(nc_buf w)[nc_num w := if c = 32 then 0 else c]"
  let ?w = "w\<lparr>nc_buf := ?b, nc_num := nc_num w + 1\<rparr>"
  let ?w1 = "if cfg then ?w\<lparr>nc_out := nc_out w @ [c]\<rparr> else ?w"
  have n: "nc_num w < length (nc_buf w)" "nc_num w = length s" using assms(1,2) by (auto simp: typed_def NC_READ_BUF_def)
  then have x: "nc_buf w ! nc_num w \<noteq> 32" using assms(1) by (metis nth_mem typed_def)
  have c: "\<not> 128 \<le> c" "c \<noteq> 13" "c \<noteq> 10" "c = 32 \<or> c \<noteq> 8 \<and> c \<noteq> 127"
    using assms(3) by (auto simp: plain_def word_le_nat_alt word_less_nat_alt)
  have "nc_char cfg True c w = Some (NC_Running ?w1)"
    using assms(2,3) n x c
    by (auto simp: nc_char_def nc_echo_def load8_def store8_def plain_def)
  moreover have "32 \<notin> set ?b"
    using assms(1) by (intro no_space_update) (auto simp: typed_def)
  then have "typed (s @ [c]) w0 ?w1"
    using assms(1) n by (auto simp: typed_def take_Suc_conv_app_nth)
  ultimately show ?thesis by blast
qed

lemma type_chars:
  assumes "typed s w0 w" "length s + length cs \<le> NC_READ_BUF - 1" "\<forall>c\<in>set cs. plain c \<or> c = 32"
    "s = [] \<longrightarrow> cs = [] \<or> hd cs \<noteq> 32"
  shows "\<exists>w1. nc_loop cfg (map (\<lambda>c. NC_read c True) cs @ rs) w = nc_loop cfg rs w1 \<and> typed (s @ cs) w0 w1"
  using assms
proof (induction cs arbitrary: s w)
  case (Cons c cs)
  obtain w1 where w1: "nc_char cfg True c w = Some (NC_Running w1)" "typed (s @ [c]) w0 w1"
    using type_char [OF Cons.prems(1)] Cons.prems(2-4) by fastforce
  show ?case
    using Cons.IH [OF w1(2)] Cons.prems(2,3) w1(1) by simp
qed auto

text \<open>Words with a space between them, and how they stand in the buffer.\<close>

fun join_words :: "cstring list \<Rightarrow> u8 list" where
  "join_words [] = []"
| "join_words [s] = s"
| "join_words (s # ss) = s @ 32 # join_words ss"

definition word_ok :: "cstring \<Rightarrow> bool" where
  "word_ok s \<longleftrightarrow> s \<noteq> [] \<and> list_all plain s"

lemma plain_not [simp]: "\<not> plain 32" "\<not> plain 0"
  by (simp_all add: plain_def)

lemma word_ok_zero: "word_ok s \<Longrightarrow> 0 \<notin> set s \<and> 32 \<notin> set s"
  by (auto simp: word_ok_def list_all_iff plain_def)

lemma join_words_chars: "list_all word_ok ss \<Longrightarrow> \<forall>c\<in>set (join_words ss). plain c \<or> c = 32"
  by (induction ss rule: join_words.induct) (auto simp: word_ok_def list_all_iff)

lemma join_words_buffer:
  assumes "ss \<noteq> []" "list_all word_ok ss"
  shows "map (\<lambda>c. if c = 32 then 0 else c) (join_words ss) @ [0] = concat (map (\<lambda>s. s @ [0]) ss)"
  using assms
proof (induction ss rule: join_words.induct)
  case (2 s)
  then show ?case using word_ok_zero [of s] by (auto intro: map_idI)
next
  case (3 s t ts)
  then show ?case using word_ok_zero [of s] by (auto intro: map_idI)
qed simp

lemma join_words_ends:
  assumes "ss \<noteq> []" "list_all word_ok ss"
  shows "join_words ss \<noteq> [] \<and> plain (hd (join_words ss)) \<and> plain (last (join_words ss))"
  using assms
  by (induction ss rule: join_words.induct) (auto simp: word_ok_def list_all_iff)

lemma copy_args_words:
  assumes "drop p buf = concat (map (\<lambda>s. s @ [0]) ss) @ rest" "list_all word_ok ss" "nc_script w = []"
  shows "copy_args (length ss) (length xs) buf p (map Some xs @ replicate (length ss) None) w =
    Some (Some (map Some (xs @ ss)), w\<lparr>nc_live := nc_live w + length ss\<rparr>)"
  using assms
proof (induction ss arbitrary: p xs w)
  case (Cons s ss)
  let ?w = "w\<lparr>nc_live := nc_live w + 1\<rparr>"
  let ?r = "concat (map (\<lambda>s. s @ [0]) ss) @ rest"
  have z: "0 \<notin> set s" using Cons.prems(2) word_ok_zero [of s] by simp
  have d: "drop p buf = s @ 0 # ?r" using Cons.prems(1) by simp
  then have c: "0 \<in> set (drop p buf)" "cstr_of (drop p buf) = s" using z by simp_all
  have "drop (length s + 1) (drop p buf) = ?r" unfolding d by simp
  then have r: "drop (p + (length s + 1)) buf = ?r" by (simp add: add.commute)
  have m: "nc_malloc w = (True, ?w)" using Cons.prems(3) by (simp add: nc_malloc_def)
  have u: "(map Some xs @ replicate (Suc (length ss)) None)[length xs := Some s] =
      map Some (xs @ [s]) @ replicate (length ss) None"
    by (simp add: list_update_append)
  have "copy_args (length (s # ss)) (length xs) buf p (map Some xs @ replicate (length (s # ss)) None) w =
      copy_args (length ss) (length (xs @ [s])) buf (p + (length s + 1)) (map Some (xs @ [s]) @ replicate (length ss) None) ?w"
    using c m u by (simp add: Let_def)
  then show ?case
    using Cons.IH [OF r, of ?w "xs @ [s]"] Cons.prems(2,3) by simp
qed simp

lemma zeros_words: "list_all word_ok ss \<Longrightarrow> zeros (concat (map (\<lambda>s. s @ [0]) ss)) = length ss"
proof (induction ss)
  case (Cons s ss)
  have "filter (\<lambda>c. c = 0) s = []" using Cons.prems word_ok_zero [of s] by (auto simp: filter_empty_conv)
  then show ?case using Cons by simp
qed simp

text \<open>The end of the line.\<close>

lemma enter_line:
  assumes "typed (join_words ss) w0 w" "ss \<noteq> []" "list_all word_ok ss" "length (join_words ss) < NC_READ_BUF - 1"
    "find (\<lambda>it. nc_name it = hd ss) (nc_cmds w0) = Some cmd" "nc_script w0 = []" "e = 10 \<or> e = 13"
  shows "\<exists>w1. nc_char cfg True e w = Some (NC_Running w1) \<and>
    nc_calls w1 = nc_calls w0 @ [(nc_func cmd, map Some ss)] \<and> nc_num w1 = 0"
proof -
  let ?s = "join_words ss" and ?words = "concat (map (\<lambda>s. s @ [0]) ss)"
  let ?we = "if cfg then w\<lparr>nc_out := nc_out w @ [e]\<rparr> else w"
  let ?w1 = "?we\<lparr>nc_buf := (nc_buf w)[nc_num w := 0], nc_num := nc_num w + 1\<rparr>"
  note ends = join_words_ends [OF assms(2,3)]
  have n: "nc_num w < length (nc_buf w)" "nc_num w = length ?s" "0 < length ?s"
    using assms(1,4) ends by (auto simp: typed_def NC_READ_BUF_def)
  have "\<not> 128 \<le> e" using assms(7) by auto
  then have char: "nc_char cfg True e w = nc_line ?we"
    using assms(4,7) n by (auto simp: nc_char_def nc_echo_def)
  have "nc_buf w ! (nc_num w - 1) = take (length ?s) (nc_buf w) ! (length ?s - 1)" using n by simp
  also have "\<dots> = (if ?s ! (length ?s - 1) = 32 then 0 else ?s ! (length ?s - 1))"
    using assms(1) n by (simp add: typed_def)
  also have "\<dots> \<noteq> 0" using ends by (auto simp: last_conv_nth)
  finally have e: "nc_end_line ?we = Some ?w1"
    using nc_end_line_Some [of ?we] n(1) by simp
  have b: "take (nc_num w + 1) ((nc_buf w)[nc_num w := 0]) = ?words"
    using assms(1) n join_words_buffer [OF assms(2,3)] by (simp add: typed_def take_Suc_conv_app_nth)
  define rest where "rest = drop (nc_num w + 1) ((nc_buf w)[nc_num w := 0])"
  have buf: "(nc_buf w)[nc_num w := 0] = ?words @ rest"
    unfolding b [symmetric] rest_def by (rule append_take_drop_id [symmetric])
  obtain s ss1 where ss: "ss = s # ss1" "0 \<notin> set s" using assms(2,3) word_ok_zero by (cases ss) auto
  have "0 \<in> set ((nc_buf w)[nc_num w := 0])" "cstr_of ((nc_buf w)[nc_num w := 0]) = hd ss"
    unfolding buf using ss by simp_all
  moreover have "nc_cmds ?w1 = nc_cmds w0" using assms(1) by (simp add: typed_def)
  ultimately have cmd: "get_cmd ?w1 ((nc_buf w)[nc_num w := 0]) = Some (Some cmd)"
    unfolding get_cmd_def using assms(5) by simp
  have m: "nc_malloc ?w1 = (True, ?w1\<lparr>nc_live := nc_live w + 1\<rparr>)"
    using assms(1,6) by (simp add: nc_malloc_def typed_def)
  let ?w2 = "?w1\<lparr>nc_live := nc_live w + 1 + length ss\<rparr>"
  have "copy_args (length ss) 0 ((nc_buf w)[nc_num w := 0]) 0 (replicate (length ss) None) (?w1\<lparr>nc_live := nc_live w + 1\<rparr>) =
      Some (Some (map Some ss), ?w2)"
    using copy_args_words [of 0 "(nc_buf w)[nc_num w := 0]" ss rest "?w1\<lparr>nc_live := nc_live w + 1\<rparr>" "[]"] buf assms(1,3,6)
    by (simp add: typed_def)
  then have args: "alloc_args ((nc_buf w)[nc_num w := 0]) (nc_num w + 1) ?w1 = Some (Some (map Some ss), ?w2)"
    using n(1) m b zeros_words [OF assms(3)] by (simp add: alloc_args_def load_block_def Let_def)
  have "\<exists>w3. nc_run_line ?w1 = Some (NC_Running w3) \<and> nc_num w3 = 0 \<and>
      nc_calls w3 = nc_calls w @ [(nc_func cmd, map Some ss)]"
    using cmd args by (simp add: nc_run_line_def Let_def free_args_def nc_free_def)
  then show ?thesis using assms(1) by (auto simp: char nc_line_def e typed_def)
qed


definition demo_console :: nano_console where
  "demo_console = \<lparr>nc_cmds = [\<lparr>nc_name = lit ''tx'', nc_func = 1\<rparr>], nc_buf = [], nc_num = 0, nc_out = [], nc_calls = [],
     nc_script = [], nc_live = 0\<rparr>"


text \<open>If the memory holds a space there, a typed space is dropped and two words become one; a line that is too long is
  cut, and what follows is taken for a line of its own.\<close>

theorem nc_space_lost:
  assumes "nc_num w < 127" "nc_num w < length (nc_buf w)" "nc_buf w ! nc_num w = 32"
  shows "nc_char cfg ok 32 w = Some (NC_Running w)"
  using assms by (simp add: nc_char_def NC_READ_BUF_def load8_def)

theorem nc_line_cut:
  assumes "127 \<le> nc_num w"
  shows "nc_char cfg ok c w = Some (NC_Running (w\<lparr>nc_num := 0\<rparr>))"
  using assms by (simp add: nc_char_def NC_READ_BUF_def)

end
